(* ===== verification/Prelude.thy ===== *)
theory Prelude
  imports Main "HOL-Library.Word" "HOL-Library.Sublist" "HOL-Library.Char_ord"
    "HOL-Library.List_Lexorder" "HOL-Library.Multiset" "HOL-Library.AList"
begin

text \<open>
  What every component of the development shares: the widths of Go's integers, the
  collections of simplification rules the component proofs pass to \<open>simp\<close> and \<open>auto\<close>,
  generic facts on lists, options and maps, and the locale of transition systems with an
  invariant, which every state machine of the development interprets.
\<close>

named_theorems codec_simps \<open>equations that evaluate the JSON encoders and decoders\<close>
named_theorems store_defs \<open>definitions of the store operations, for unfolding\<close>
named_theorems frame_simps \<open>what an operation leaves unchanged\<close>

section \<open>Go's integers\<close>

text \<open>
  Go's \<open>uint64\<close>, \<open>int64\<close> and (on the 64-bit platforms the program is built for) \<open>int\<close> are
  words of 64 bits: addition wraps, \<^const>\<open>uint\<close> reads an unsigned value and \<^const>\<open>sint\<close> a
  signed one, and a conversion between the three is the identity on the bits.
\<close>

type_synonym uint64 = "64 word"
type_synonym int64 = "64 word"
type_synonym goint = "64 word"

text \<open>\<open>expires > 0 && expires <= now\<close> on \<open>int64\<close>.\<close>

definition expired_at :: "int64 \<Rightarrow> int64 \<Rightarrow> bool" where
  "expired_at ex now \<longleftrightarrow> sint ex > 0 \<and> sint ex \<le> sint now"

lemma expired_at_0 [simp]: "\<not> expired_at 0 now"
  by (simp add: expired_at_def)

lemma expired_at_mono: "expired_at ex now \<Longrightarrow> sint now \<le> sint now' \<Longrightarrow> expired_at ex now'"
  by (auto simp: expired_at_def)

lemma sint_range64:
  fixes w :: "64 word"
  shows "- (2 ^ 63) \<le> sint w" and "sint w < 2 ^ 63"
  using sint_range_size [of w] by (simp_all add: word_size)

lemma uint_range64:
  fixes w :: "64 word"
  shows "0 \<le> uint w" and "uint w < 2 ^ 64"
  using uint_bounded [of w] by simp_all

lemma sint_of_nat64: "i < 2 ^ 63 \<Longrightarrow> sint (word_of_nat i :: 64 word) = int i"
  by (simp add: signed_of_nat signed_take_bit_int_eq_self)

lemma sint_of_int64: "- (2 ^ 63) \<le> i \<Longrightarrow> i < 2 ^ 63 \<Longrightarrow> sint (word_of_int i :: 64 word) = i"
  by (simp add: signed_of_int signed_take_bit_int_eq_self)

lemma int64_succ:
  fixes w :: "64 word"
  assumes "sint w < 2 ^ 63 - 1"
  shows "sint (w + 1) = sint w + 1"
proof -
  have "w + 1 = word_of_int (sint w + 1)" by simp
  also have "sint \<dots> = sint w + 1"
    using assms sint_range64 [of w] by (intro sint_of_int64) auto
  finally show ?thesis .
qed

lemma uint64_succ:
  fixes w :: "64 word"
  assumes "w \<noteq> - 1"
  shows "uint (w + 1) = uint w + 1"
proof -
  have "w + 1 \<noteq> 0"
  proof
    assume "w + 1 = 0"
    then have "w = - 1" by (simp add: eq_neg_iff_add_eq_0)
    with assms show False by simp
  qed
  then have "unat (w + 1) = Suc (unat w)"
    using unatSuc [of w] by (simp add: add.commute)
  then have "int (unat (w + 1)) = int (unat w) + 1" by simp
  then show ?thesis by (simp only: uint_nat [symmetric])
qed

section \<open>Lists, options and maps\<close>

text \<open>A decoder for every element of a list, \<open>None\<close> when one of them fails.\<close>

fun map_opt :: "('a \<Rightarrow> 'b option) \<Rightarrow> 'a list \<Rightarrow> 'b list option" where
  "map_opt f [] = Some []"
| "map_opt f (x # xs) =
     (case f x of None \<Rightarrow> None
      | Some y \<Rightarrow> (case map_opt f xs of None \<Rightarrow> None | Some ys \<Rightarrow> Some (y # ys)))"

lemma map_opt_map: "(\<And>x. x \<in> set xs \<Longrightarrow> f (g x) = Some (h x)) \<Longrightarrow> map_opt f (map g xs) = Some (map h xs)"
  by (induction xs) auto

lemma map_opt_length: "map_opt f xs = Some ys \<Longrightarrow> length ys = length xs"
  by (induction xs arbitrary: ys) (auto split: option.splits)

lemma map_of_filter_key:
  "map_of (filter (\<lambda>(k, _). P k) xs) k = (if P k then map_of xs k else None)"
  by (induction xs) auto

lemma map_of_map_snd: "map_of (map (\<lambda>(k, v). (k, f v)) xs) k = map_option f (map_of xs k)"
  by (induction xs) auto

lemma map_of_map_Some_cong:
  assumes "\<And>k v. (k, v) \<in> set xs \<Longrightarrow> f k v = g k v"
  shows "map_of (map (\<lambda>(k, v). (k, f k v)) xs) = map_of (map (\<lambda>(k, v). (k, g k v)) xs)"
  using assms by (induction xs) auto

lemma restrict_map_upd_fold_None:
  "fold (\<lambda>k m. m(k := None)) ks m k = (if k \<in> set ks then None else m k)"
  by (induction ks arbitrary: m) auto

lemma fold_map_upd_const:
  "fold (\<lambda>k m. m(k \<mapsto> v)) ks m k = (if k \<in> set ks then Some v else m k)"
  by (induction ks arbitrary: m) auto

section \<open>Transition systems with an invariant\<close>

inductive reach :: "('s \<Rightarrow> bool) \<Rightarrow> ('s \<Rightarrow> 's \<Rightarrow> bool) \<Rightarrow> 's \<Rightarrow> bool" for ini stp where
  reach_init: "ini s \<Longrightarrow> reach ini stp s"
| reach_step: "reach ini stp s \<Longrightarrow> stp s t \<Longrightarrow> reach ini stp t"

locale invariant_system =
  fixes ini :: "'s \<Rightarrow> bool"
    and stp :: "'s \<Rightarrow> 's \<Rightarrow> bool"
    and inv :: "'s \<Rightarrow> bool"
  assumes inv_init: "ini s \<Longrightarrow> inv s"
    and inv_step: "inv s \<Longrightarrow> stp s t \<Longrightarrow> inv t"
begin

lemma reach_inv: "reach ini stp s \<Longrightarrow> inv s"
  by (induction rule: reach.induct) (auto intro: inv_init inv_step)

lemma steps_inv: "stp\<^sup>*\<^sup>* s t \<Longrightarrow> inv s \<Longrightarrow> inv t"
  by (induction rule: rtranclp_induct) (auto intro: inv_step)

end

end
