(* ===== verification/Json.thy ===== *)
theory Json
  imports Prelude
begin

text \<open>
  The part of Go's \<open>encoding/json\<close> the program uses. A JSON text is modelled by the document
  it denotes; \<open>JBad\<close> is a text that is not JSON, and \<open>JBytes d\<close> the string that holds the
  base64 coding of the text of \<open>d\<close>, which is how a \<open>[]byte\<close> is marshalled.
  A struct is marshalled to the object of its fields in declaration order, a field tagged
  \<open>omitempty\<close> being left out when it is zero; unmarshalling looks each field up without regard
  to case, ignores the fields it does not know, leaves absent fields at zero and refuses a value
  of the wrong type or an integer out of range. Strings are taken to be valid UTF-8, as those
  that arrive over gRPC are (others would be altered when they are marshalled). The locale \<open>json_codec\<close> is the contract the
  components rely on: what was marshalled is read back.
\<close>

datatype json =
    JBad string
  | JNull
  | JBool bool
  | JNum int
  | JStr string
  | JBytes json
  | JArr "json list"
  | JObj "(string \<times> json) list"

section \<open>Fields of an object\<close>

text \<open>
  ASCII case folding, as the decoder compares a key with a field name: the letters \<open>A\<close> to
  \<open>Z\<close> (codes 65 to 90) get the bit of value 32 set.
\<close>

definition fold_char :: "char \<Rightarrow> char" where
  "fold_char c =
     (case c of Char b0 b1 b2 b3 b4 b5 b6 b7 \<Rightarrow>
        if \<not> b7 \<and> b6 \<and> \<not> b5 \<and> (b0 \<or> b1 \<or> b2 \<or> b3 \<or> b4) \<and> \<not> (b4 \<and> b3 \<and> (b2 \<or> b1 \<and> b0))
        then Char b0 b1 b2 b3 b4 True b6 b7 else c)"

lemma fold_char_code:
  "of_char (fold_char c) = (if 65 \<le> (of_char c :: nat) \<and> (of_char c :: nat) \<le> 90 then of_char c + 32 else of_char c :: nat)"
proof (cases c)
  case (Char b0 b1 b2 b3 b4 b5 b6 b7)
  show ?thesis
    unfolding Char fold_char_def
    by (cases b0; cases b1; cases b2; cases b3; cases b4; cases b5; cases b6; cases b7; simp add: of_char_def)
qed

fun jfield :: "string \<Rightarrow> (string \<times> json) list \<Rightarrow> json" where
  "jfield nm [] = JNull"
| "jfield nm ((k, v) # kvs) =
     (if jfield nm kvs \<noteq> JNull then jfield nm kvs
      else if map fold_char k = map fold_char nm then v else JNull)"

text \<open>The lookup of a field in an object whose other keys differ from it.\<close>

lemma jfield_skip: "map fold_char k \<noteq> map fold_char nm \<Longrightarrow> jfield nm ((k, v) # kvs) = jfield nm kvs"
  by simp

lemma jfield_hit: "map fold_char k = map fold_char nm \<Longrightarrow> jfield nm kvs = JNull \<Longrightarrow> jfield nm ((k, v) # kvs) = v"
  by simp

lemmas jfield_eval = jfield_skip jfield_hit fold_char_def

section \<open>Encoders and decoders of the basic types\<close>

definition dec_str :: "json \<Rightarrow> string option" where
  "dec_str j = (case j of JStr s \<Rightarrow> Some s | JNull \<Rightarrow> Some [] | _ \<Rightarrow> None)"

definition dec_bool :: "json \<Rightarrow> bool option" where
  "dec_bool j = (case j of JBool b \<Rightarrow> Some b | JNull \<Rightarrow> Some False | _ \<Rightarrow> None)"

definition enc_int64 :: "int64 \<Rightarrow> json" where
  "enc_int64 w = JNum (sint w)"

definition dec_int64 :: "json \<Rightarrow> int64 option" where
  "dec_int64 j =
     (case j of
        JNum n \<Rightarrow> if - (2 ^ 63) \<le> n \<and> n < 2 ^ 63 then Some (word_of_int n) else None
      | JNull \<Rightarrow> Some 0 | _ \<Rightarrow> None)"

definition enc_uint64 :: "uint64 \<Rightarrow> json" where
  "enc_uint64 w = JNum (uint w)"

definition dec_uint64 :: "json \<Rightarrow> uint64 option" where
  "dec_uint64 j =
     (case j of
        JNum n \<Rightarrow> if 0 \<le> n \<and> n < 2 ^ 64 then Some (word_of_int n) else None
      | JNull \<Rightarrow> Some 0 | _ \<Rightarrow> None)"

definition dec_bytes :: "json \<Rightarrow> json option" where
  "dec_bytes j = (case j of JBytes d \<Rightarrow> Some d | JNull \<Rightarrow> Some (JBad []) | _ \<Rightarrow> None)"

definition dec_list :: "(json \<Rightarrow> 'a option) \<Rightarrow> json \<Rightarrow> 'a list option" where
  "dec_list d j = (case j of JArr xs \<Rightarrow> map_opt d xs | JNull \<Rightarrow> Some [] | _ \<Rightarrow> None)"

definition dec_obj :: "json \<Rightarrow> (string \<times> json) list option" where
  "dec_obj j = (case j of JObj kvs \<Rightarrow> Some kvs | JNull \<Rightarrow> Some [] | _ \<Rightarrow> None)"

text \<open>A \<open>map[string]T\<close>: an object with a field per key.\<close>

definition dec_map :: "(json \<Rightarrow> 'a option) \<Rightarrow> json \<Rightarrow> (string \<times> 'a) list option" where
  "dec_map d j =
     (case dec_obj j of None \<Rightarrow> None
      | Some kvs \<Rightarrow> map_opt (\<lambda>(k, v). map_option (Pair k) (d v)) kvs)"

text \<open>\<open>omitempty\<close>: the field is present only when its value is not zero.\<close>

definition omitempty :: "bool \<Rightarrow> string \<Rightarrow> json \<Rightarrow> (string \<times> json) list" where
  "omitempty is_zero nm j = (if is_zero then [] else [(nm, j)])"

section \<open>The contract of a codec\<close>

locale json_codec =
  fixes enc :: "'a \<Rightarrow> json"
    and dec :: "json \<Rightarrow> 'a option"
  assumes dec_enc [simp]: "dec (enc x) = Some x"
begin

lemma enc_inject: "enc x = enc y \<longleftrightarrow> x = y"
  by (metis dec_enc option.inject)

lemma dec_list_enc: "dec_list dec (JArr (map enc xs)) = Some xs"
  using map_opt_map [of xs dec enc id] by (simp add: dec_list_def)

lemma dec_map_enc: "dec_map dec (JObj (map (\<lambda>(k, x). (k, enc x)) kvs)) = Some kvs"
proof -
  have "map_opt (\<lambda>(k, v). map_option (Pair k) (dec v)) (map (\<lambda>(k, x). (k, enc x)) kvs)
      = Some (map id kvs)"
    by (rule map_opt_map) auto
  then show ?thesis by (simp add: dec_map_def dec_obj_def)
qed

end

interpretation str_codec: json_codec JStr dec_str
  by unfold_locales (simp add: dec_str_def)

interpretation bool_codec: json_codec JBool dec_bool
  by unfold_locales (simp add: dec_bool_def)

interpretation int64_codec: json_codec enc_int64 dec_int64
  using sint_range64 by unfold_locales (simp add: dec_int64_def enc_int64_def)

interpretation uint64_codec: json_codec enc_uint64 dec_uint64
  using uint_range64 by unfold_locales (simp add: dec_uint64_def enc_uint64_def)

interpretation bytes_codec: json_codec JBytes dec_bytes
  by unfold_locales (simp add: dec_bytes_def)

lemmas codec_laws [codec_simps] =
  str_codec.dec_enc str_codec.dec_list_enc bool_codec.dec_enc bool_codec.dec_list_enc
  int64_codec.dec_enc int64_codec.dec_list_enc uint64_codec.dec_enc
  bytes_codec.dec_enc bytes_codec.dec_map_enc

text \<open>The zero values an absent field is given.\<close>

lemma dec_JNull [simp]:
  "dec_str JNull = Some []" "dec_bool JNull = Some False" "dec_int64 JNull = Some 0"
  "dec_uint64 JNull = Some 0" "dec_list d JNull = Some []" "dec_obj JNull = Some []"
  by (simp_all add: dec_str_def dec_bool_def dec_int64_def dec_uint64_def dec_list_def dec_obj_def)

lemma dec_obj_JObj [simp]: "dec_obj (JObj kvs) = Some kvs"
  by (simp add: dec_obj_def)

lemma enc_int64_neq_JNull [simp]: "enc_int64 w \<noteq> JNull" "JNull \<noteq> enc_int64 w"
  by (simp_all add: enc_int64_def)

lemma enc_uint64_neq_JNull [simp]: "enc_uint64 w \<noteq> JNull" "JNull \<noteq> enc_uint64 w"
  by (simp_all add: enc_uint64_def)

section \<open>32-bit integers\<close>

definition enc_int32 :: "32 word \<Rightarrow> json" where
  "enc_int32 w = JNum (sint w)"

definition dec_int32 :: "json \<Rightarrow> 32 word option" where
  "dec_int32 j =
     (case j of
        JNum n \<Rightarrow> if - (2 ^ 31) \<le> n \<and> n < 2 ^ 31 then Some (word_of_int n) else None
      | JNull \<Rightarrow> Some 0 | _ \<Rightarrow> None)"

lemma sint_range32:
  fixes w :: "32 word"
  shows "- (2 ^ 31) \<le> sint w" and "sint w < 2 ^ 31"
  using sint_range_size [of w] by (simp_all add: word_size)

interpretation int32_codec: json_codec enc_int32 dec_int32
  using sint_range32 by unfold_locales (simp add: dec_int32_def enc_int32_def)

declare int32_codec.dec_enc [codec_simps]

lemma enc_int32_neq_JNull [simp]: "enc_int32 w \<noteq> JNull" "JNull \<noteq> enc_int32 w"
  by (simp_all add: enc_int32_def)

lemma dec_int32_JNull [simp]: "dec_int32 JNull = Some 0"
  by (simp add: dec_int32_def)

section \<open>Objects with many fields\<close>

text \<open>
  The object of a struct, each field with its name, whether \<open>omitempty\<close> leaves it out, and
  its value; a field is found again when the names differ up to case.
\<close>

definition struct_obj :: "(string \<times> bool \<times> json) list \<Rightarrow> (string \<times> json) list" where
  "struct_obj fs = map (\<lambda>(n, _, v). (n, v)) (filter (\<lambda>(_, z, _). \<not> z) fs)"

lemma jfield_absent:
  "map fold_char nm \<notin> (\<lambda>(n, _). map fold_char n) ` set kvs \<Longrightarrow> jfield nm kvs = JNull"
  by (induction kvs) auto

lemma jfield_struct_obj:
  assumes "distinct (map (\<lambda>(n, _, _). map fold_char n) fs)" "(nm, z, v) \<in> set fs"
  shows "jfield nm (struct_obj fs) = (if z then JNull else v)"
  using assms
proof (induction fs)
  case (Cons f fs)
  obtain n z' v' where f: "f = (n, z', v')" by (metis prod.exhaust)
  have sub: "(\<lambda>(n, _). map fold_char n) ` set (struct_obj fs) \<subseteq> (\<lambda>(n, _, _). map fold_char n) ` set fs"
    by (force simp: struct_obj_def)
  show ?case
  proof (cases "(nm, z, v) = f")
    case True
    then have "map fold_char nm \<notin> (\<lambda>(n, _, _). map fold_char n) ` set fs" using Cons.prems(1) f by auto
    then have "map fold_char nm \<notin> (\<lambda>(n, _). map fold_char n) ` set (struct_obj fs)" using sub by blast
    then show ?thesis using True f jfield_absent by (auto simp: struct_obj_def)
  next
    case False
    then have m: "(nm, z, v) \<in> set fs" using Cons.prems(2) by auto
    then have "map fold_char n \<noteq> map fold_char nm" using Cons.prems(1) f by force
    moreover have "struct_obj (f # fs) = (if z' then struct_obj fs else (n, v') # struct_obj fs)"
      by (simp add: struct_obj_def f)
    ultimately show ?thesis using Cons.IH Cons.prems(1) m by auto
  qed
qed simp

end
