(* ===== verification/Badger.thy ===== *)
theory Badger
  imports Json
begin

text \<open>
  The interface of BadgerDB (\<^verbatim>\<open>github.com/dgraph-io/badger/v3\<close>), a third-party package: the
  operations of a database and of its transactions are a parameter of every definition of the
  store, and the locale \<open>badger\<close> holds what Badger documents about them. Every operation
  may also fail, and nothing is promised about when. \<open>db_View\<close> and \<open>db_Update\<close> are the
  managed transactions of that package: they open a transaction, run the closure, discard the
  transaction when the closure returns an error and (for \<open>Update\<close>) commit it otherwise.
\<close>

type_synonym raw = json

datatype berr = ErrDBClosed | ErrTxnTooBig | ErrConflict | ErrEmptyKey | ErrInvalidKey | ErrRead

record ('db, 'txn) badger =
  NewTransaction :: "'db \<Rightarrow> berr + 'txn"
  txn_Get :: "'txn \<Rightarrow> string \<Rightarrow> berr + raw option"
    \<comment> \<open>\<open>Inr None\<close> is \<open>ErrKeyNotFound\<close>; reading the value (\<open>ValueCopy\<close>) is included\<close>
  txn_Set :: "'txn \<Rightarrow> string \<Rightarrow> raw \<Rightarrow> berr + 'txn"
  txn_Delete :: "'txn \<Rightarrow> string \<Rightarrow> berr + 'txn"
  txn_Iterate :: "'txn \<Rightarrow> string \<Rightarrow> (string \<times> (berr + raw)) list"
    \<comment> \<open>the items an iterator with that prefix visits, in order, each with what \<open>ValueCopy\<close> gives\<close>
  txn_Commit :: "'db \<Rightarrow> 'txn \<Rightarrow> berr + 'db"
  badger_Open :: "'db option \<Rightarrow> berr + 'db"
    \<comment> \<open>\<open>Open\<close> of a directory that is empty (\<open>None\<close>) or was left by a closed database\<close>
  db_Close :: "'db \<Rightarrow> berr option"

text \<open>The errors the functions of package \<open>storage\<close> return.\<close>

datatype serr =
    SBadger berr
  | SUnmarshal
  | SBatchNotFound string uint64
  | SBatchMismatch string uint64 uint64
  | SRollbackNotAbsent string
  | SRollbackMissing string
  | SRollbackRead string berr
  | SRollbackMismatch string uint64 uint64

definition db_View :: "('db, 'txn) badger \<Rightarrow> 'db \<Rightarrow> ('txn \<Rightarrow> serr + 'a) \<Rightarrow> serr + 'a" where
  "db_View B d f = (case NewTransaction B d of Inl e \<Rightarrow> Inl (SBadger e) | Inr t \<Rightarrow> f t)"

definition db_Update ::
  "('db, 'txn) badger \<Rightarrow> 'db \<Rightarrow> ('txn \<Rightarrow> serr + 'txn \<times> 'a) \<Rightarrow> 'db \<times> (serr + 'a)" where
  "db_Update B d f =
     (case NewTransaction B d of
        Inl e \<Rightarrow> (d, Inl (SBadger e))
      | Inr t \<Rightarrow>
          (case f t of
             Inl e \<Rightarrow> (d, Inl e)
           | Inr (t', r) \<Rightarrow>
               (case txn_Commit B d t' of
                  Inl e \<Rightarrow> (d, Inl (SBadger e))
                | Inr d' \<Rightarrow> (d', Inr r))))"

section \<open>What Badger documents\<close>

text \<open>
  \<open>content\<close> is what a database holds and \<open>seen\<close> what a transaction sees, its own writes
  included. The store applies its updates one at a time, so a commit that succeeds leaves
  exactly what the transaction saw.
\<close>

locale badger =
  fixes B :: "('db, 'txn) badger"
    and content :: "'db \<Rightarrow> string \<Rightarrow> raw option"
    and seen :: "'txn \<Rightarrow> string \<Rightarrow> raw option"
  assumes new_seen: "NewTransaction B d = Inr t \<Longrightarrow> seen t = content d"
    and get_seen: "txn_Get B t k = Inr ov \<Longrightarrow> ov = seen t k"
    and set_seen: "txn_Set B t k v = Inr t' \<Longrightarrow> seen t' = (seen t)(k \<mapsto> v)"
    and delete_seen: "txn_Delete B t k = Inr t' \<Longrightarrow> seen t' = (seen t)(k := None)"
    and commit_content: "txn_Commit B d t = Inr d' \<Longrightarrow> content d' = seen t"
    and iterate_keys: "set (map fst (txn_Iterate B t p)) = {k. prefix p k \<and> seen t k \<noteq> None}"
    and iterate_sorted: "sorted (map fst (txn_Iterate B t p))"
    and iterate_distinct: "distinct (map fst (txn_Iterate B t p))"
    and open_fresh: "badger_Open B None = Inr d \<Longrightarrow> content d = Map.empty"
    and open_again: "badger_Open B (Some d) = Inr d' \<Longrightarrow> content d' = content d"
    and iterate_value: "(k, Inr v) \<in> set (txn_Iterate B t p) \<Longrightarrow> seen t k = Some v"
begin

text \<open>An update that fails changes nothing; one that succeeds changes what its closure did.\<close>

lemma update_cases:
  obtains (fail) e where "db_Update B d f = (d, Inl e)"
  | (ok) t t' r d' where "db_Update B d f = (d', Inr r)" "NewTransaction B d = Inr t"
      "seen t = content d" "f t = Inr (t', r)" "content d' = seen t'"
proof (cases "NewTransaction B d")
  case (Inl e)
  then show ?thesis using fail by (simp add: db_Update_def)
next
  case t: (Inr t)
  show ?thesis
  proof (cases "f t")
    case (Inl e)
    with t show ?thesis using fail by (simp add: db_Update_def)
  next
    case (Inr p)
    obtain t' r where p: "p = (t', r)" by (cases p)
    show ?thesis
    proof (cases "txn_Commit B d t'")
      case (Inl e)
      with t Inr p show ?thesis using fail by (simp add: db_Update_def)
    next
      case c: (Inr d')
      show ?thesis
      proof (rule ok)
        show "db_Update B d f = (d', Inr r)" using t Inr p c by (simp add: db_Update_def)
        show "seen t = content d" using t by (rule new_seen)
        show "content d' = seen t'" using c by (rule commit_content)
      qed (use t Inr p in simp_all)
    qed
  qed
qed

lemma update_error: "db_Update B d f = (d', Inl e) \<Longrightarrow> d' = d"
  by (rule update_cases [of d f]) auto

lemma update_ok:
  assumes "db_Update B d f = (d', Inr r)"
  obtains t t' where "seen t = content d" "f t = Inr (t', r)" "content d' = seen t'"
  using assms by (rule_tac update_cases [of d f]) auto

lemma view_ok:
  assumes "db_View B d f = Inr r"
  obtains t where "seen t = content d" "f t = Inr r"
  using assms new_seen by (auto simp: db_View_def split: sum.splits)

lemma iterate_map_of:
  assumes "\<forall>(k, r) \<in> set (txn_Iterate B t p). \<exists>v. r = Inr v"
  shows "map_of (txn_Iterate B t p) k =
    (if prefix p k then map_option Inr (seen t k) else None)"
proof (cases "k \<in> set (map fst (txn_Iterate B t p))")
  case True
  then obtain r where r: "(k, r) \<in> set (txn_Iterate B t p)" by auto
  with assms obtain v where v: "r = Inr v" by auto
  have "seen t k = Some v" using r v iterate_value by simp
  moreover have "map_of (txn_Iterate B t p) k = Some r"
    using r iterate_distinct by (simp add: map_of_eq_Some_iff)
  moreover have "prefix p k" using True iterate_keys by auto
  ultimately show ?thesis using v by simp
next
  case False
  then have "map_of (txn_Iterate B t p) k = None" by (auto simp: map_of_eq_None_iff)
  moreover have "\<not> (prefix p k \<and> seen t k \<noteq> None)" using False iterate_keys by blast
  ultimately show ?thesis by auto
qed

end

text \<open>The same database where nothing fails.\<close>

locale reliable_badger = badger +
  assumes new_ok: "\<exists>t. NewTransaction B d = Inr t"
    and get_ok: "\<exists>v. txn_Get B t k = Inr v"
    and set_ok: "\<exists>t'. txn_Set B t k v = Inr t'"
    and delete_ok: "\<exists>t'. txn_Delete B t k = Inr t'"
    and commit_ok: "\<exists>d'. txn_Commit B d t = Inr d'"
    and value_ok: "(k, r) \<in> set (txn_Iterate B t p) \<Longrightarrow> \<exists>v. r = Inr v"
begin

lemma get_eq: "txn_Get B t k = Inr (seen t k)"
  using get_ok get_seen by blast

end

section \<open>A reference instance\<close>

text \<open>
  An in-memory database that keeps the promises, so that the hypotheses of the properties can
  hold together: an association list, whose writes to the keys in \<open>bad\<close> fail with
  \<open>ErrTxnTooBig\<close>.
\<close>

type_synonym mem_db = "(string \<times> raw) list"

definition mem_badger :: "string list \<Rightarrow> (mem_db, mem_db) badger" where
  "mem_badger bad =
     \<lparr> NewTransaction = Inr,
       txn_Get = (\<lambda>t k. Inr (map_of t k)),
       txn_Set = (\<lambda>t k v. if k \<in> set bad then Inl ErrTxnTooBig else Inr (AList.update k v t)),
       txn_Delete = (\<lambda>t k. Inr (AList.delete k t)),
       txn_Iterate = (\<lambda>t p. map (\<lambda>k. (k, Inr (the (map_of t k))))
                             (sort (remdups (filter (prefix p) (map fst t))))),
       txn_Commit = (\<lambda>d t. Inr t),
       badger_Open = (\<lambda>d. Inr (case d of None \<Rightarrow> [] | Some d \<Rightarrow> d)),
       db_Close = (\<lambda>d. None) \<rparr>"

interpretation mem: badger "mem_badger bad" map_of map_of for bad
proof unfold_locales
  fix t p k v
  show "set (map fst (txn_Iterate (mem_badger bad) t p)) = {k. prefix p k \<and> map_of t k \<noteq> None}"
    by (auto simp: mem_badger_def map_of_eq_None_iff comp_def dom_map_of_conv_image_fst)
  show "sorted (map fst (txn_Iterate (mem_badger bad) t p))"
    by (simp add: mem_badger_def comp_def)
  show "distinct (map fst (txn_Iterate (mem_badger bad) t p))"
    by (simp add: mem_badger_def comp_def)
  show "map_of t k = Some v" if "(k, Inr v) \<in> set (txn_Iterate (mem_badger bad) t p)"
    using that by (auto simp: mem_badger_def dest: weak_map_of_SomeI)
qed (auto simp: mem_badger_def AList.update_conv' AList.delete_conv' split: if_splits)

interpretation reliable_mem: reliable_badger "mem_badger []" map_of map_of
  by unfold_locales (auto simp: mem_badger_def)

end
