(* ===== verification/Heap.thy ===== *)
theory Heap
  imports Prelude
begin

text \<open>
  Go's \<open>container/heap\<close> on a slice, ordered by a key: \<open>up\<close>, \<open>down\<close>, \<open>Push\<close> and \<open>Pop\<close> with
  their index arithmetic. The locale \<open>priority_queue\<close> is the contract the expiry heap of the
  store relies on, and its interpretation shows that the slice operations keep it: they preserve
  the heap order and the multiset of elements, and \<open>Pop\<close> takes an element of least key.
\<close>

section \<open>The slice operations\<close>

definition swap :: "'a list \<Rightarrow> nat \<Rightarrow> nat \<Rightarrow> 'a list" where
  "swap h i j = h[i := h ! j, j := h ! i]"

function heap_up :: "('a \<Rightarrow> int) \<Rightarrow> 'a list \<Rightarrow> nat \<Rightarrow> 'a list" where
  "heap_up key h j =
     (let i = (j - 1) div 2
      in if i = j \<or> \<not> key (h ! j) < key (h ! i) then h else heap_up key (swap h i j) i)"
  by pat_completeness auto
termination
  by (relation "measure (\<lambda>(key, h, j). j)") auto

function heap_down :: "('a \<Rightarrow> int) \<Rightarrow> 'a list \<Rightarrow> nat \<Rightarrow> nat \<Rightarrow> 'a list" where
  "heap_down key h i n =
     (let j1 = 2 * i + 1
      in if n \<le> j1 then h
         else let j = (if j1 + 1 < n \<and> key (h ! (j1 + 1)) < key (h ! j1) then j1 + 1 else j1)
              in if \<not> key (h ! j) < key (h ! i) then h
                 else heap_down key (swap h i j) j n)"
  by pat_completeness auto
termination
  by (relation "measure (\<lambda>(key, h, i, n). n - i)") auto

declare heap_up.simps [simp del] heap_down.simps [simp del]

definition heap_Push :: "('a \<Rightarrow> int) \<Rightarrow> 'a list \<Rightarrow> 'a \<Rightarrow> 'a list" where
  "heap_Push key h x = heap_up key (h @ [x]) (length h)"

text \<open>\<open>None\<close>: \<open>Pop\<close> of an empty slice indexes it out of range and panics.\<close>

definition heap_Pop :: "('a \<Rightarrow> int) \<Rightarrow> 'a list \<Rightarrow> ('a \<times> 'a list) option" where
  "heap_Pop key h =
     (if h = [] then None
      else let n = length h - 1; h' = heap_down key (swap h 0 n) 0 n
           in Some (h' ! n, take n h'))"

section \<open>Lengths and multisets\<close>

lemma swap_length [simp]: "length (swap h i j) = length h"
  by (simp add: swap_def)

lemma swap_nth:
  "i < length h \<Longrightarrow> j < length h \<Longrightarrow>
   swap h i j ! k = (if k = i then h ! j else if k = j then h ! i else h ! k)"
  by (simp add: swap_def nth_list_update)

lemma swap_mset: "i < length h \<Longrightarrow> j < length h \<Longrightarrow> mset (swap h i j) = mset h"
  unfolding swap_def by (rule mset_swap)

lemma heap_up_length [simp]: "length (heap_up key h j) = length h"
proof (induction key h j rule: heap_up.induct)
  case (1 key h j)
  then show ?case by (subst heap_up.simps) (auto simp: Let_def)
qed

lemma heap_up_mset: "j < length h \<Longrightarrow> mset (heap_up key h j) = mset h"
proof (induction key h j rule: heap_up.induct)
  case (1 key h j)
  then show ?case by (subst heap_up.simps) (auto simp: Let_def swap_mset)
qed

lemma heap_down_length [simp]: "length (heap_down key h i n) = length h"
proof (induction key h i n rule: heap_down.induct)
  case (1 key h i n)
  then show ?case by (subst heap_down.simps) (auto simp: Let_def)
qed

lemma heap_down_mset: "n \<le> length h \<Longrightarrow> mset (heap_down key h i n) = mset h"
proof (induction key h i n rule: heap_down.induct)
  case (1 key h i n)
  then show ?case by (subst heap_down.simps) (auto simp: Let_def swap_mset)
qed

lemma heap_down_beyond: "n \<le> length h \<Longrightarrow> n \<le> k \<Longrightarrow> heap_down key h i n ! k = h ! k"
proof (induction key h i n rule: heap_down.induct)
  case (1 key h i n)
  then show ?case by (subst heap_down.simps) (auto simp: Let_def swap_nth)
qed

section \<open>The heap order\<close>

abbreviation parent :: "nat \<Rightarrow> nat" where
  "parent i \<equiv> (i - 1) div 2"

definition heap_ordered :: "('a \<Rightarrow> int) \<Rightarrow> 'a list \<Rightarrow> nat \<Rightarrow> bool" where
  "heap_ordered key h n \<longleftrightarrow> (\<forall>i < n. 0 < i \<longrightarrow> key (h ! parent i) \<le> key (h ! i))"

lemma heap_root_least:
  assumes "heap_ordered key h n" and "i < n"
  shows "key (h ! 0) \<le> key (h ! i)"
  using \<open>i < n\<close>
proof (induction i rule: less_induct)
  case (less i)
  show ?case
  proof (cases "i = 0")
    case False
    then have "key (h ! 0) \<le> key (h ! parent i)" using less by simp
    also have "\<dots> \<le> key (h ! i)" using assms(1) less.prems False by (simp add: heap_ordered_def)
    finally show ?thesis .
  qed simp
qed

text \<open>The order may be broken between \<open>j\<close> and its parent only.\<close>

definition up_inv :: "('a \<Rightarrow> int) \<Rightarrow> 'a list \<Rightarrow> nat \<Rightarrow> bool" where
  "up_inv key h j \<longleftrightarrow>
     (\<forall>i < length h. 0 < i \<longrightarrow> i \<noteq> j \<longrightarrow> key (h ! parent i) \<le> key (h ! i)) \<and>
     (\<forall>c < length h. 0 < c \<longrightarrow> 0 < j \<longrightarrow> parent c = j \<longrightarrow> key (h ! parent j) \<le> key (h ! c))"

lemma up_inv_swap:
  assumes inv: "up_inv key h j" and j: "j < length h" "0 < j"
    and lt: "key (h ! j) < key (h ! parent j)"
  shows "up_inv key (swap h (parent j) j) (parent j)"
proof -
  have p: "parent j < length h" "parent j < j" using j by auto
  have A: "key (h ! parent i) \<le> key (h ! i)" if "i < length h" "0 < i" "i \<noteq> j" for i
    using inv that by (simp add: up_inv_def)
  have C: "key (h ! parent j) \<le> key (h ! c)" if "c < length h" "0 < c" "parent c = j" for c
    using inv that j by (simp add: up_inv_def)
  have one: "key (swap h (parent j) j ! parent i) \<le> key (swap h (parent j) j ! i)"
    if i: "i < length h" "0 < i" "i \<noteq> parent j" for i
  proof (cases "i = j")
    case True
    then show ?thesis using lt p j by (simp add: swap_nth)
  next
    case False
    consider "parent i = j" | "parent i = parent j" | "parent i \<noteq> j" "parent i \<noteq> parent j" by blast
    then show ?thesis
    proof cases
      case 1
      then show ?thesis using C [of i] i False p j by (simp add: swap_nth)
    next
      case 2
      then show ?thesis using A [of i] i False p j lt by (simp add: swap_nth)
    next
      case 3
      then show ?thesis using A [of i] i False p j by (simp add: swap_nth)
    qed
  qed
  have two: "key (swap h (parent j) j ! parent (parent j)) \<le> key (swap h (parent j) j ! c)"
    if c: "c < length h" "0 < c" "0 < parent j" "parent c = parent j" for c
  proof -
    have pp: "parent (parent j) < parent j" using c(3) by arith
    have up: "key (h ! parent (parent j)) \<le> key (h ! parent j)" using A [of "parent j"] p c(3) by simp
    show ?thesis
    proof (cases "c = j")
      case True
      then show ?thesis using up pp p j by (simp add: swap_nth)
    next
      case False
      then have "key (h ! parent j) \<le> key (h ! c)" using A [of c] c by simp
      then have "key (h ! parent (parent j)) \<le> key (h ! c)" using up by linarith
      moreover have "c \<noteq> parent j" using c(3,4) pp by auto
      moreover have "parent (parent j) \<noteq> j" "parent (parent j) \<noteq> parent j" using pp p(2) by auto
      ultimately show ?thesis using False p(1) j(1) by (simp only: swap_nth if_False)
    qed
  qed
  show ?thesis unfolding up_inv_def using one two by simp
qed

lemma heap_up_ordered:
  "up_inv key h j \<Longrightarrow> j < length h \<Longrightarrow> heap_ordered key (heap_up key h j) (length h)"
proof (induction key h j rule: heap_up.induct)
  case (1 key h j)
  show ?case
  proof (cases "parent j = j \<or> \<not> key (h ! j) < key (h ! parent j)")
    case True
    then have stop: "heap_up key h j = h" by (simp add: heap_up.simps [of key h j])
    have "key (h ! parent i) \<le> key (h ! i)" if "i < length h" "0 < i" for i
    proof (cases "i = j")
      case True
      with \<open>parent j = j \<or> _\<close> that show ?thesis by (cases j) auto
    next
      case False
      with "1.prems" that show ?thesis by (simp add: up_inv_def)
    qed
    then show ?thesis by (simp add: stop heap_ordered_def)
  next
    case False
    then have j: "0 < j" by (cases j) auto
    have "up_inv key (swap h (parent j) j) (parent j)"
      using "1.prems" j False by (intro up_inv_swap) auto
    moreover have "parent j < length (swap h (parent j) j)" using "1.prems" j by simp
    ultimately have "heap_ordered key (heap_up key (swap h (parent j) j) (parent j)) (length h)"
      using "1.IH" [OF refl False] by simp
    then show ?thesis using False by (simp add: heap_up.simps [of key h j] Let_def)
  qed
qed

text \<open>The order may be broken between \<open>i\<close> and its children only.\<close>

definition down_inv :: "('a \<Rightarrow> int) \<Rightarrow> 'a list \<Rightarrow> nat \<Rightarrow> nat \<Rightarrow> bool" where
  "down_inv key h i n \<longleftrightarrow>
     (\<forall>k < n. 0 < k \<longrightarrow> parent k \<noteq> i \<longrightarrow> key (h ! parent k) \<le> key (h ! k)) \<and>
     (\<forall>c < n. 0 < c \<longrightarrow> 0 < i \<longrightarrow> parent c = i \<longrightarrow> key (h ! parent i) \<le> key (h ! c))"

lemma children: "0 < k \<Longrightarrow> parent k = i \<longleftrightarrow> k = 2 * i + 1 \<or> k = 2 * i + 2"
  by presburger

lemma down_inv_swap:
  assumes inv: "down_inv key h i n" and n: "n \<le> length h" and j: "j < n" "0 < j" "parent j = i"
    and lt: "key (h ! j) < key (h ! i)"
    and least: "\<And>c. c < n \<Longrightarrow> 0 < c \<Longrightarrow> parent c = i \<Longrightarrow> key (h ! j) \<le> key (h ! c)"
  shows "down_inv key (swap h i j) j n"
proof -
  have ij: "i < j" "i < length h" "j < length h" using j n by auto
  have A: "key (h ! parent k) \<le> key (h ! k)" if "k < n" "0 < k" "parent k \<noteq> i" for k
    using inv that by (simp add: down_inv_def)
  have C: "key (h ! parent i) \<le> key (h ! c)" if "c < n" "0 < c" "0 < i" "parent c = i" for c
    using inv that by (simp add: down_inv_def)
  have one: "key (swap h i j ! parent k) \<le> key (swap h i j ! k)"
    if k: "k < n" "0 < k" "parent k \<noteq> j" for k
  proof (cases "parent k = i")
    case True
    then show ?thesis using least [OF k(1,2) True] ij lt k(3) by (auto simp: swap_nth)
  next
    case False
    then have kj: "k \<noteq> j" using j by auto
    show ?thesis
    proof (cases "k = i")
      case True
      have "parent k < i" using True k(2) by arith
      then show ?thesis using True C [of j] j k ij False by (simp add: swap_nth)
    next
      case ki: False
      then show ?thesis using A [of k] k False kj ij by (simp add: swap_nth)
    qed
  qed
  have two: "key (swap h i j ! parent j) \<le> key (swap h i j ! c)"
    if c: "c < n" "0 < c" "parent c = j" for c
  proof -
    have "c \<noteq> i" "c \<noteq> j" "parent c \<noteq> i" using c ij by auto
    then show ?thesis using A [of c] c ij j by (simp add: swap_nth)
  qed
  show ?thesis unfolding down_inv_def using one two by simp
qed

lemma heap_down_ordered:
  "down_inv key h i n \<Longrightarrow> n \<le> length h \<Longrightarrow> heap_ordered key (heap_down key h i n) n"
proof (induction key h i n rule: heap_down.induct)
  case (1 key h i n)
  define j where
    "j = (if 2 * i + 1 + 1 < n \<and> key (h ! (2 * i + 1 + 1)) < key (h ! (2 * i + 1))
          then 2 * i + 1 + 1 else 2 * i + 1)"
  have A: "key (h ! parent k) \<le> key (h ! k)" if "k < n" "0 < k" "parent k \<noteq> i" for k
    using "1.prems" that by (simp add: down_inv_def)
  show ?case
  proof (cases "n \<le> 2 * i + 1")
    case True
    then have "parent k \<noteq> i" if "k < n" "0 < k" for k using that children [of k i] by auto
    then show ?thesis using True A
      by (simp add: heap_down.simps [of key h i n] heap_ordered_def)
  next
    case False
    then have jn: "j < n" "0 < j" "parent j = i" by (auto simp: j_def)
    have least: "key (h ! j) \<le> key (h ! c)" if "c < n" "0 < c" "parent c = i" for c
      using that children [of c i] by (auto simp: j_def)
    have step: "heap_down key h i n =
        (if key (h ! j) < key (h ! i) then heap_down key (swap h i j) j n else h)"
      using False unfolding j_def by (subst heap_down.simps) (simp only: Let_def if_False, simp)
    show ?thesis
    proof (cases "key (h ! j) < key (h ! i)")
      case True
      have "down_inv key (swap h i j) j n"
        using "1.prems" jn True least by (intro down_inv_swap) auto
      then have "heap_ordered key (heap_down key (swap h i j) j n) n"
        using "1.IH" [OF refl False j_def] True "1.prems" by simp
      then show ?thesis using True by (simp add: step)
    next
      case stop: False
      have "key (h ! parent k) \<le> key (h ! k)" if "k < n" "0 < k" for k
        using A [OF that] least [OF that] stop by (cases "parent k = i") auto
      then show ?thesis using stop by (simp add: step heap_ordered_def)
    qed
  qed
qed

section \<open>The contract of a priority queue\<close>

locale priority_queue =
  fixes key :: "'a \<Rightarrow> int"
    and push :: "'q \<Rightarrow> 'a \<Rightarrow> 'q"
    and pop :: "'q \<Rightarrow> ('a \<times> 'q) option"
    and items :: "'q \<Rightarrow> 'a multiset"
    and ok :: "'q \<Rightarrow> bool"
  assumes push_ok: "ok q \<Longrightarrow> ok (push q x)"
    and push_items: "ok q \<Longrightarrow> items (push q x) = add_mset x (items q)"
    and pop_None: "ok q \<Longrightarrow> pop q = None \<longleftrightarrow> items q = {#}"
    and pop_ok: "ok q \<Longrightarrow> pop q = Some (x, q') \<Longrightarrow> ok q'"
    and pop_items: "ok q \<Longrightarrow> pop q = Some (x, q') \<Longrightarrow> items q = add_mset x (items q')"
    and pop_least: "ok q \<Longrightarrow> pop q = Some (x, q') \<Longrightarrow> y \<in># items q \<Longrightarrow> key x \<le> key y"
begin

lemma pop_size: "ok q \<Longrightarrow> pop q = Some (x, q') \<Longrightarrow> size (items q') < size (items q)"
  using pop_items by fastforce

end

lemma heap_Push_ordered:
  assumes "heap_ordered key h (length h)"
  shows "heap_ordered key (heap_Push key h x) (length (heap_Push key h x))"
proof -
  have "up_inv key (h @ [x]) (length h)"
    unfolding up_inv_def
  proof (intro conjI allI impI)
    fix i assume i: "i < length (h @ [x])" "0 < i" "i \<noteq> length h"
    then have "parent i < length h" by auto
    then show "key ((h @ [x]) ! parent i) \<le> key ((h @ [x]) ! i)"
      using assms i by (auto simp: heap_ordered_def nth_append)
  qed auto
  then have "heap_ordered key (heap_up key (h @ [x]) (length h)) (length (h @ [x]))"
    by (rule heap_up_ordered) simp
  then show ?thesis by (simp add: heap_Push_def)
qed

lemma heap_Pop_Some:
  assumes "heap_Pop key h = Some (x, h')"
  shows "x = h ! 0" and "mset h = add_mset x (mset h')" and "length h' = length h - 1"
    and "heap_ordered key h (length h) \<Longrightarrow> heap_ordered key h' (length h')"
proof -
  let ?n = "length h - 1" let ?s = "swap h 0 ?n" let ?d = "heap_down key ?s 0 ?n"
  from assms have ne: "h \<noteq> []" and x: "x = ?d ! ?n" and h': "h' = take ?n ?d"
    by (auto simp: heap_Pop_def Let_def split: if_splits)
  have n: "?n < length h" "0 < length h" using ne by auto
  have "?d ! ?n = ?s ! ?n" by (rule heap_down_beyond) (use n in auto)
  then show x0: "x = h ! 0" using x n by (auto simp: swap_nth)
  have "?d = take ?n ?d @ [?d ! ?n]"
    using n by (metis Suc_diff_1 heap_down_length lessI swap_length take_Suc_conv_app_nth take_all_iff order_refl)
  then have "mset ?d = add_mset x (mset h')"
    using x h' by (metis mset.simps(2) mset_append add_mset_add_single mset_single_iff_right union_mset_add_mset_right add.right_neutral mset.simps(1))
  moreover have "mset ?d = mset h" using n by (simp add: heap_down_mset swap_mset)
  ultimately show "mset h = add_mset x (mset h')" by simp
  show len: "length h' = length h - 1" by (simp add: h')
  assume ho: "heap_ordered key h (length h)"
  have "down_inv key ?s 0 ?n"
    unfolding down_inv_def
  proof (intro conjI allI impI)
    fix k assume k: "k < ?n" "0 < k" "parent k \<noteq> 0"
    then have "?s ! k = h ! k" "?s ! parent k = h ! parent k" using n by (auto simp: swap_nth)
    then show "key (?s ! parent k) \<le> key (?s ! k)" using ho k by (simp add: heap_ordered_def)
  qed auto
  then have "heap_ordered key ?d ?n" by (rule heap_down_ordered) simp
  then show "heap_ordered key h' (length h')" by (auto simp: len heap_ordered_def h')
qed

interpretation slice_heap: priority_queue key "heap_Push key" "heap_Pop key" mset
  "\<lambda>h. heap_ordered key h (length h)" for key :: "'a \<Rightarrow> int"
proof unfold_locales
  fix h :: "'a list" and x y :: 'a and h'
  assume ho: "heap_ordered key h (length h)"
  show "heap_ordered key (heap_Push key h x) (length (heap_Push key h x))"
    using ho by (rule heap_Push_ordered)
  show "mset (heap_Push key h x) = add_mset x (mset h)"
    by (simp add: heap_Push_def heap_up_mset)
  show "heap_Pop key h = None \<longleftrightarrow> mset h = {#}"
    by (simp add: heap_Pop_def Let_def)
  assume pop: "heap_Pop key h = Some (x, h')"
  show "heap_ordered key h' (length h')" using heap_Pop_Some(4) [OF pop ho] .
  show "mset h = add_mset x (mset h')" using heap_Pop_Some(2) [OF pop] .
  assume "y \<in># mset h"
  then obtain i where "i < length h" "y = h ! i" by (auto simp: in_set_conv_nth)
  then show "key x \<le> key y" using heap_root_least [OF ho] heap_Pop_Some(1) [OF pop] by simp
qed

end
