(* ===== verification/Store.thy ===== *)
theory Store
  imports Badger Heap
begin

text \<open>
  Package \<open>storage\<close> (\<^verbatim>\<open>src/pkg/storage/store.go\<close>): entries with a version and an
  expiry time kept as JSON in Badger, compare-and-swap writes, atomic batches, transaction
  records under the prefix \<open>_tx:\<close>, the heap of expiry times with its tombstones, scans and
  snapshots. A store is a Badger database with the heap and the tombstones; every operation
  takes the Badger interface first, then the clock readings it makes, then the store.
\<close>

section \<open>Data\<close>

record kvEntry =
  eValue :: string
  eVersion :: uint64
  eExpires :: int64

definition marshal_kvEntry :: "kvEntry \<Rightarrow> raw" where
  "marshal_kvEntry e =
     JObj [(''value'', JStr (eValue e)), (''version'', enc_uint64 (eVersion e)),
           (''expires'', enc_int64 (eExpires e))]"

definition unmarshal_kvEntry :: "raw \<Rightarrow> kvEntry option" where
  "unmarshal_kvEntry j =
     (case dec_obj j of
        None \<Rightarrow> None
      | Some kvs \<Rightarrow>
          (case (dec_str (jfield ''value'' kvs), dec_uint64 (jfield ''version'' kvs),
                 dec_int64 (jfield ''expires'' kvs)) of
             (Some v, Some n, Some x) \<Rightarrow> Some \<lparr> eValue = v, eVersion = n, eExpires = x \<rparr>
           | _ \<Rightarrow> None))"

interpretation kvEntry_codec: json_codec marshal_kvEntry unmarshal_kvEntry
  by unfold_locales
     (simp del: jfield.simps(2) add: marshal_kvEntry_def unmarshal_kvEntry_def jfield_eval codec_simps)

declare kvEntry_codec.dec_enc [codec_simps]

definition txKeyPrefix :: string where
  "txKeyPrefix = ''_tx:''"

record WriteBatchOp =
  wKey :: string
  wValue :: string
  wExpectedVersion :: uint64
  wExpires :: int64
  wIsDelete :: bool

record expiryItem =
  xKey :: string
  xExpires :: int64

text \<open>\<open>expiryHeap.Less\<close> compares the expiry times as signed integers.\<close>

definition expiry_key :: "expiryItem \<Rightarrow> int" where
  "expiry_key x = sint (xExpires x)"

record 'db Store =
  sdb :: 'db
  expiryHeap :: "expiryItem list"
  tombstones :: "string set"

datatype PutCASStatus = PutCASOK | PutCASNoKey | PutCASVersionMismatch

definition NewStore :: "'db \<Rightarrow> 'db Store" where
  "NewStore d = \<lparr> sdb = d, expiryHeap = [], tombstones = {} \<rparr>"

section \<open>The expiry heap and the tombstones\<close>

definition trackExpiry :: "'db Store \<Rightarrow> string \<Rightarrow> int64 \<Rightarrow> 'db Store" where
  "trackExpiry s key expires =
     (if sint expires \<le> 0 then s
      else s\<lparr> tombstones := tombstones s - {key},
              expiryHeap := heap_Push expiry_key (expiryHeap s)
                              \<lparr> xKey = key, xExpires = expires \<rparr> \<rparr>)"

definition markTombstone :: "'db Store \<Rightarrow> string \<Rightarrow> 'db Store" where
  "markTombstone s key = s\<lparr> tombstones := insert key (tombstones s) \<rparr>"

section \<open>Reading and writing entries\<close>

definition Get :: "('db, 'txn) badger \<Rightarrow> 'db Store \<Rightarrow> string \<Rightarrow> serr + kvEntry option" where
  "Get B s key =
     db_View B (sdb s) (\<lambda>t.
       case txn_Get B t key of
         Inl e \<Rightarrow> Inl (SBadger e)
       | Inr None \<Rightarrow> Inr None
       | Inr (Some data) \<Rightarrow>
           (case unmarshal_kvEntry data of None \<Rightarrow> Inl SUnmarshal | Some e \<Rightarrow> Inr (Some e)))"

text \<open>\<open>txn.Set\<close> of the marshalled entry, as the last statement of a closure.\<close>

definition set_entry ::
  "('db, 'txn) badger \<Rightarrow> 'txn \<Rightarrow> string \<Rightarrow> kvEntry \<Rightarrow> serr + 'txn" where
  "set_entry B t key e =
     (case txn_Set B t key (marshal_kvEntry e) of Inl x \<Rightarrow> Inl (SBadger x) | Inr t' \<Rightarrow> Inr t')"

definition del_entry :: "('db, 'txn) badger \<Rightarrow> 'txn \<Rightarrow> string \<Rightarrow> serr + 'txn" where
  "del_entry B t key =
     (case txn_Delete B t key of Inl x \<Rightarrow> Inl (SBadger x) | Inr t' \<Rightarrow> Inr t')"

text \<open>\<open>db.Update\<close> with a closure that computes nothing but its error.\<close>

definition update_store ::
  "('db, 'txn) badger \<Rightarrow> 'db Store \<Rightarrow> ('txn \<Rightarrow> serr + 'txn) \<Rightarrow> 'db Store \<times> serr option" where
  "update_store B s f =
     (case db_Update B (sdb s) (\<lambda>t. case f t of Inl e \<Rightarrow> Inl e | Inr t' \<Rightarrow> Inr (t', ())) of
        (d, Inl e) \<Rightarrow> (s\<lparr> sdb := d \<rparr>, Some e)
      | (d, Inr _) \<Rightarrow> (s\<lparr> sdb := d \<rparr>, None))"

definition Put ::
  "('db, 'txn) badger \<Rightarrow> 'db Store \<Rightarrow> string \<Rightarrow> string \<Rightarrow> uint64 \<Rightarrow> int64 \<Rightarrow> 'db Store \<times> serr option"
where
  "Put B s key value version expires =
     update_store B s (\<lambda>t. set_entry B t key
       \<lparr> eValue = value, eVersion = version, eExpires = expires \<rparr>)"

text \<open>The closure of \<open>PutCASWithTTL\<close>: the transaction, the old value and the status.\<close>

definition putCAS_closure ::
  "('db, 'txn) badger \<Rightarrow> int64 \<Rightarrow> string \<Rightarrow> string \<Rightarrow> uint64 \<Rightarrow> int64 \<Rightarrow> 'txn
   \<Rightarrow> serr + 'txn \<times> string \<times> PutCASStatus" where
  "putCAS_closure B now key value expectedVersion expires t =
     (let create =
        (if expectedVersion \<noteq> 0 then Inr (t, [], PutCASNoKey)
         else case set_entry B t key \<lparr> eValue = value, eVersion = 1, eExpires = expires \<rparr> of
                Inl e \<Rightarrow> Inl e | Inr t' \<Rightarrow> Inr (t', [], PutCASOK))
      in case txn_Get B t key of
           Inl e \<Rightarrow> Inl (SBadger e)
         | Inr None \<Rightarrow> create
         | Inr (Some data) \<Rightarrow>
             (case unmarshal_kvEntry data of
                None \<Rightarrow> Inl SUnmarshal
              | Some cur \<Rightarrow>
                  if expired_at (eExpires cur) now then create
                  else if eVersion cur \<noteq> expectedVersion then Inr (t, [], PutCASVersionMismatch)
                  else case set_entry B t key
                              \<lparr> eValue = value, eVersion = eVersion cur + 1, eExpires = expires \<rparr> of
                         Inl e \<Rightarrow> Inl e | Inr t' \<Rightarrow> Inr (t', eValue cur, PutCASOK)))"

definition PutCASWithTTL ::
  "('db, 'txn) badger \<Rightarrow> int64 \<Rightarrow> 'db Store \<Rightarrow> string \<Rightarrow> string \<Rightarrow> uint64 \<Rightarrow> int64
   \<Rightarrow> 'db Store \<times> (serr + string \<times> PutCASStatus)" where
  "PutCASWithTTL B now s key value expectedVersion expires =
     (case db_Update B (sdb s) (putCAS_closure B now key value expectedVersion expires) of
        (d, Inl e) \<Rightarrow> (s\<lparr> sdb := d \<rparr>, Inl e)
      | (d, Inr (oldValue, status)) \<Rightarrow>
          (if status = PutCASOK \<and> sint expires > 0 then trackExpiry (s\<lparr> sdb := d \<rparr>) key expires
           else s\<lparr> sdb := d \<rparr>, Inr (oldValue, status)))"

text \<open>One operation of a batch inside the transaction.\<close>

definition batch_op ::
  "('db, 'txn) badger \<Rightarrow> 'txn \<Rightarrow> WriteBatchOp \<Rightarrow> serr + 'txn" where
  "batch_op B t op =
     (case txn_Get B t (wKey op) of
        Inl e \<Rightarrow> Inl (SBadger e)
      | Inr None \<Rightarrow>
          if wExpectedVersion op \<noteq> 0 then Inl (SBatchNotFound (wKey op) (wExpectedVersion op))
          else if wIsDelete op then Inr t
          else set_entry B t (wKey op)
                 \<lparr> eValue = wValue op, eVersion = 1, eExpires = wExpires op \<rparr>
      | Inr (Some data) \<Rightarrow>
          (case unmarshal_kvEntry data of
             None \<Rightarrow> Inl SUnmarshal
           | Some cur \<Rightarrow>
               if eVersion cur \<noteq> wExpectedVersion op
               then Inl (SBatchMismatch (wKey op) (wExpectedVersion op) (eVersion cur))
               else if wIsDelete op then del_entry B t (wKey op)
               else set_entry B t (wKey op)
                      \<lparr> eValue = wValue op, eVersion = eVersion cur + 1, eExpires = wExpires op \<rparr>))"

fun writeBatchWithCASInTxn ::
  "('db, 'txn) badger \<Rightarrow> 'txn \<Rightarrow> WriteBatchOp list \<Rightarrow> serr + 'txn" where
  "writeBatchWithCASInTxn B t [] = Inr t"
| "writeBatchWithCASInTxn B t (op # ops) =
     (case batch_op B t op of Inl e \<Rightarrow> Inl e | Inr t' \<Rightarrow> writeBatchWithCASInTxn B t' ops)"

definition WriteBatchWithCAS ::
  "('db, 'txn) badger \<Rightarrow> 'db Store \<Rightarrow> WriteBatchOp list \<Rightarrow> 'db Store \<times> serr option" where
  "WriteBatchWithCAS B s ops = update_store B s (\<lambda>t. writeBatchWithCASInTxn B t ops)"

definition WriteBatchWithCASAndRecord ::
  "('db, 'txn) badger \<Rightarrow> 'db Store \<Rightarrow> WriteBatchOp list \<Rightarrow> string \<Rightarrow> raw \<Rightarrow> 'db Store \<times> serr option"
where
  "WriteBatchWithCASAndRecord B s ops recordKey recordData =
     update_store B s (\<lambda>t.
       case writeBatchWithCASInTxn B t ops of
         Inl e \<Rightarrow> Inl e
       | Inr t' \<Rightarrow>
           (case txn_Set B t' (txKeyPrefix @ recordKey) recordData of
              Inl e \<Rightarrow> Inl (SBadger e) | Inr t'' \<Rightarrow> Inr t''))"

text \<open>The guard of \<open>RollbackCASMutation\<close>: the error it returns before writing anything.\<close>

definition rollback_guard :: "string \<Rightarrow> uint64 \<Rightarrow> berr + raw option \<Rightarrow> serr option" where
  "rollback_guard key expectedCurrentVersion got =
     (if expectedCurrentVersion = 0
      then (if got = Inr None then None else Some (SRollbackNotAbsent key))
      else case got of
             Inl e \<Rightarrow> Some (SRollbackRead key e)
           | Inr None \<Rightarrow> Some (SRollbackMissing key)
           | Inr (Some data) \<Rightarrow>
               (case unmarshal_kvEntry data of
                  None \<Rightarrow> Some SUnmarshal
                | Some current \<Rightarrow>
                    if eVersion current \<noteq> expectedCurrentVersion
                    then Some (SRollbackMismatch key expectedCurrentVersion (eVersion current))
                    else None))"

definition RollbackCASMutation ::
  "('db, 'txn) badger \<Rightarrow> 'db Store \<Rightarrow> string \<Rightarrow> uint64 \<Rightarrow> string \<Rightarrow> uint64 \<Rightarrow> int64 \<Rightarrow> bool
   \<Rightarrow> 'db Store \<times> serr option" where
  "RollbackCASMutation B s key expectedCurrentVersion previousValue previousVersion
       previousExpires previousExists =
     (let (s', err) = update_store B s (\<lambda>t.
            case rollback_guard key expectedCurrentVersion (txn_Get B t key) of
              Some e \<Rightarrow> Inl e
            | None \<Rightarrow>
                if \<not> previousExists then del_entry B t key
                else set_entry B t key
                       \<lparr> eValue = previousValue, eVersion = previousVersion,
                         eExpires = previousExpires \<rparr>)
      in (if err = None \<and> previousExists \<and> sint previousExpires > 0
          then trackExpiry s' key previousExpires else s', err))"

definition Delete :: "('db, 'txn) badger \<Rightarrow> 'db Store \<Rightarrow> string \<Rightarrow> 'db Store \<times> serr option" where
  "Delete B s key =
     (case update_store B s (\<lambda>t. del_entry B t key) of
        (s', None) \<Rightarrow> (markTombstone s' key, None)
      | (s', Some e) \<Rightarrow> (s', Some e))"

section \<open>Transaction records\<close>

definition PutTxRecord ::
  "('db, 'txn) badger \<Rightarrow> 'db Store \<Rightarrow> string \<Rightarrow> raw \<Rightarrow> 'db Store \<times> serr option" where
  "PutTxRecord B s txKey data =
     update_store B s (\<lambda>t.
       case txn_Set B t (txKeyPrefix @ txKey) data of Inl e \<Rightarrow> Inl (SBadger e) | Inr t' \<Rightarrow> Inr t')"

definition GetTxRecord ::
  "('db, 'txn) badger \<Rightarrow> 'db Store \<Rightarrow> string \<Rightarrow> serr + raw option" where
  "GetTxRecord B s txKey =
     db_View B (sdb s) (\<lambda>t.
       case txn_Get B t (txKeyPrefix @ txKey) of Inl e \<Rightarrow> Inl (SBadger e) | Inr r \<Rightarrow> Inr r)"

definition DeleteTxRecord ::
  "('db, 'txn) badger \<Rightarrow> 'db Store \<Rightarrow> string \<Rightarrow> 'db Store \<times> serr option" where
  "DeleteTxRecord B s txKey = update_store B s (\<lambda>t. del_entry B t (txKeyPrefix @ txKey))"

text \<open>The items of an iterator, or the first error of \<open>ValueCopy\<close>.\<close>

fun iter_values :: "(string \<times> (berr + raw)) list \<Rightarrow> serr + (string \<times> raw) list" where
  "iter_values [] = Inr []"
| "iter_values ((k, Inl e) # its) = Inl (SBadger e)"
| "iter_values ((k, Inr v) # its) =
     (case iter_values its of Inl e \<Rightarrow> Inl e | Inr kvs \<Rightarrow> Inr ((k, v) # kvs))"

definition ScanTxRecordsByPrefix ::
  "('db, 'txn) badger \<Rightarrow> 'db Store \<Rightarrow> string \<Rightarrow> serr + (string \<times> raw) list" where
  "ScanTxRecordsByPrefix B s subPrefix =
     db_View B (sdb s) (\<lambda>t. iter_values (txn_Iterate B t (txKeyPrefix @ subPrefix)))"

section \<open>Expired keys\<close>

function peek_loop ::
  "int64 \<Rightarrow> nat \<Rightarrow> 'db Store \<Rightarrow> string list \<Rightarrow> 'db Store \<times> string list" where
  "peek_loop cutoff limit s keys =
     (if expiryHeap s = [] \<or> limit \<le> length keys then (s, keys)
      else let top = expiryHeap s ! 0
           in if sint (xExpires top) > sint cutoff then (s, keys)
              else case heap_Pop expiry_key (expiryHeap s) of
                     None \<Rightarrow> (s, keys)
                   | Some (_, h) \<Rightarrow>
                       if xKey top \<in> tombstones s
                       then peek_loop cutoff limit
                              (s\<lparr> expiryHeap := h, tombstones := tombstones s - {xKey top} \<rparr>) keys
                       else peek_loop cutoff limit (s\<lparr> expiryHeap := h \<rparr>) (keys @ [xKey top]))"
  by pat_completeness auto
termination
  by (relation "measure (\<lambda>(cutoff, limit, s, keys). length (expiryHeap s))")
     (auto dest: heap_Pop_Some(3))

declare peek_loop.simps [simp del]

text \<open>A limit that is not positive stands for 128.\<close>

definition scan_limit :: "int \<Rightarrow> nat" where
  "scan_limit limit = (if limit \<le> 0 then 128 else nat limit)"

definition PeekExpiredKeys :: "int64 \<Rightarrow> int \<Rightarrow> 'db Store \<Rightarrow> 'db Store \<times> string list" where
  "PeekExpiredKeys cutoff limit s = peek_loop cutoff (scan_limit limit) s []"

fun expired_scan ::
  "int64 \<Rightarrow> nat \<Rightarrow> (string \<times> (berr + raw)) list \<Rightarrow> string list \<Rightarrow> serr + string list" where
  "expired_scan cutoff limit [] keys = Inr keys"
| "expired_scan cutoff limit ((k, v) # its) keys =
     (if limit \<le> length keys then Inr keys
      else case v of
             Inl e \<Rightarrow> Inl (SBadger e)
           | Inr data \<Rightarrow>
               (case unmarshal_kvEntry data of
                  None \<Rightarrow> expired_scan cutoff limit its keys
                | Some e \<Rightarrow>
                    expired_scan cutoff limit its
                      (if expired_at (eExpires e) cutoff then keys @ [k] else keys)))"

definition GetExpiredKeys ::
  "('db, 'txn) badger \<Rightarrow> int64 \<Rightarrow> int \<Rightarrow> 'db Store \<Rightarrow> 'db Store \<times> (serr + string list)" where
  "GetExpiredKeys B cutoff limit s =
     (if expiryHeap s \<noteq> []
      then (case PeekExpiredKeys cutoff limit s of (s', keys) \<Rightarrow> (s', Inr keys))
      else (s, db_View B (sdb s) (\<lambda>t.
                 expired_scan cutoff (scan_limit limit) (txn_Iterate B t []) [])))"

text \<open>The heap built so far and the error that stopped the iteration, if any.\<close>

fun rebuild_loop ::
  "(string \<times> (berr + raw)) list \<Rightarrow> expiryItem list \<Rightarrow> expiryItem list \<times> serr option" where
  "rebuild_loop [] h = (h, None)"
| "rebuild_loop ((k, Inl e) # its) h = (h, Some (SBadger e))"
| "rebuild_loop ((k, Inr data) # its) h =
     rebuild_loop its
       (case unmarshal_kvEntry data of
          None \<Rightarrow> h
        | Some e \<Rightarrow>
            if sint (eExpires e) > 0
            then heap_Push expiry_key h \<lparr> xKey = k, xExpires = eExpires e \<rparr> else h)"

definition RebuildExpiryHeap ::
  "('db, 'txn) badger \<Rightarrow> 'db Store \<Rightarrow> 'db Store \<times> serr option" where
  "RebuildExpiryHeap B s =
     (case NewTransaction B (sdb s) of
        Inl e \<Rightarrow> (s\<lparr> expiryHeap := [], tombstones := {} \<rparr>, Some (SBadger e))
      | Inr t \<Rightarrow>
          (case rebuild_loop (txn_Iterate B t []) [] of
             (h, err) \<Rightarrow> (s\<lparr> expiryHeap := h, tombstones := {} \<rparr>, err)))"

section \<open>Scans\<close>

fun scan_loop ::
  "int \<Rightarrow> (string \<times> (berr + raw)) list \<Rightarrow> (string \<times> kvEntry) list
   \<Rightarrow> serr + (string \<times> kvEntry) list" where
  "scan_loop limit [] acc = Inr acc"
| "scan_loop limit ((k, v) # its) acc =
     (if 0 < limit \<and> limit \<le> int (length acc) then Inr acc
      else case v of
             Inl e \<Rightarrow> Inl (SBadger e)
           | Inr data \<Rightarrow>
               (case unmarshal_kvEntry data of
                  None \<Rightarrow> scan_loop limit its acc
                | Some e \<Rightarrow> scan_loop limit its (acc @ [(k, e)])))"

definition ScanPrefix ::
  "('db, 'txn) badger \<Rightarrow> 'db Store \<Rightarrow> string \<Rightarrow> int \<Rightarrow> serr + (string \<times> kvEntry) list" where
  "ScanPrefix B s pre limit =
     db_View B (sdb s) (\<lambda>t. scan_loop limit (txn_Iterate B t pre) [])"

fun unmarshal_all :: "(string \<times> raw) list \<Rightarrow> serr + (string \<times> kvEntry) list" where
  "unmarshal_all [] = Inr []"
| "unmarshal_all ((k, v) # kvs) =
     (case unmarshal_kvEntry v of
        None \<Rightarrow> Inl SUnmarshal
      | Some e \<Rightarrow> (case unmarshal_all kvs of Inl x \<Rightarrow> Inl x | Inr es \<Rightarrow> Inr ((k, e) # es)))"

definition GetAll ::
  "('db, 'txn) badger \<Rightarrow> 'db Store \<Rightarrow> serr + (string \<times> kvEntry) list" where
  "GetAll B s =
     db_View B (sdb s) (\<lambda>t.
       case iter_values (txn_Iterate B t []) of
         Inl e \<Rightarrow> Inl e | Inr kvs \<Rightarrow> unmarshal_all kvs)"

section \<open>What a store holds\<close>

text \<open>The entry under a key, and the entry that counts as present at time \<open>now\<close>.\<close>

definition stored ::
  "('db \<Rightarrow> string \<Rightarrow> raw option) \<Rightarrow> 'db Store \<Rightarrow> string \<Rightarrow> kvEntry option" where
  "stored content s k = Option.bind (content (sdb s) k) unmarshal_kvEntry"

definition live_entry ::
  "('db \<Rightarrow> string \<Rightarrow> raw option) \<Rightarrow> int64 \<Rightarrow> 'db Store \<Rightarrow> string \<Rightarrow> kvEntry option" where
  "live_entry content now s k =
     (case stored content s k of
        Some e \<Rightarrow> if expired_at (eExpires e) now then None else Some e
      | None \<Rightarrow> None)"

text \<open>
  The contract of a compare-and-swap on the live entry: what it writes (if anything), the old
  value and the status.
\<close>

definition cas_spec ::
  "kvEntry option \<Rightarrow> string \<Rightarrow> uint64 \<Rightarrow> int64 \<Rightarrow> kvEntry option \<times> string \<times> PutCASStatus" where
  "cas_spec cur value expected expires =
     (case cur of
        None \<Rightarrow>
          if expected = 0
          then (Some \<lparr> eValue = value, eVersion = 1, eExpires = expires \<rparr>, [], PutCASOK)
          else (None, [], PutCASNoKey)
      | Some e \<Rightarrow>
          if eVersion e = expected
          then (Some \<lparr> eValue = value, eVersion = expected + 1, eExpires = expires \<rparr>,
                eValue e, PutCASOK)
          else (None, [], PutCASVersionMismatch))"

text \<open>The contract of one operation of a batch on the stored entry of its key.\<close>

definition op_expects :: "WriteBatchOp \<Rightarrow> kvEntry option \<Rightarrow> bool" where
  "op_expects op cur =
     (wExpectedVersion op = (case cur of None \<Rightarrow> 0 | Some e \<Rightarrow> eVersion e))"

definition op_effect :: "WriteBatchOp \<Rightarrow> kvEntry option \<Rightarrow> kvEntry option" where
  "op_effect op cur =
     (if wIsDelete op then None
      else Some \<lparr> eValue = wValue op,
                  eVersion = (case cur of None \<Rightarrow> 1 | Some e \<Rightarrow> eVersion e + 1),
                  eExpires = wExpires op \<rparr>)"

section \<open>Lemmas\<close>

lemmas [store_defs] = Put_def Delete_def PutTxRecord_def DeleteTxRecord_def
  WriteBatchWithCAS_def WriteBatchWithCASAndRecord_def

lemma trackExpiry_frame [simp]: "sdb (trackExpiry s k x) = sdb s"
  by (simp add: trackExpiry_def)

lemma markTombstone_frame [simp]: "sdb (markTombstone s k) = sdb s"
  by (simp add: markTombstone_def)

lemma stored_cong: "content (sdb s) k = content (sdb s') k \<Longrightarrow> stored content s k = stored content s' k"
  by (simp add: stored_def)

lemma live_cong: "stored content s k = stored content s' k
  \<Longrightarrow> live_entry content now s k = live_entry content now s' k"
  by (simp add: live_entry_def)

lemma bind_Some_unmarshal [simp]: "Option.bind (Some (marshal_kvEntry e)) unmarshal_kvEntry = Some e"
  by (simp add: codec_simps)

context badger
begin

lemma set_entry_seen: "set_entry B t k e = Inr t' \<Longrightarrow> seen t' = (seen t)(k \<mapsto> marshal_kvEntry e)"
  using set_seen by (auto simp: set_entry_def split: sum.splits)

lemma del_entry_seen: "del_entry B t k = Inr t' \<Longrightarrow> seen t' = (seen t)(k := None)"
  using delete_seen by (auto simp: del_entry_def split: sum.splits)

lemma update_store_error: "update_store B s f = (s', Some e) \<Longrightarrow> s' = s"
  by (auto simp: update_store_def split: prod.splits sum.splits dest!: update_error)

lemma update_store_ok:
  assumes "update_store B s f = (s', None)"
  obtains t t' where "seen t = content (sdb s)" "f t = Inr t'" "content (sdb s') = seen t'"
    "s' = s\<lparr> sdb := sdb s' \<rparr>"
proof -
  obtain d where d: "db_Update B (sdb s) (\<lambda>t. case f t of Inl e \<Rightarrow> Inl e | Inr t' \<Rightarrow> Inr (t', ())) = (d, Inr ())"
    and s': "s' = s\<lparr> sdb := d \<rparr>"
    using assms by (auto simp: update_store_def split: prod.splits sum.splits)
  from d obtain t t' where "seen t = content (sdb s)" "f t = Inr t'" "content d = seen t'"
    by (rule update_ok) (auto split: sum.splits)
  with s' show thesis by (intro that [of t t']) auto
qed

lemma putCAS_closure_seen:
  assumes "putCAS_closure B now key value ev ex t = Inr (t', old, st)"
    and cur: "cur = Option.bind (seen t key) unmarshal_kvEntry"
  shows "\<exists>w. cas_spec (case cur of Some e \<Rightarrow> if expired_at (eExpires e) now then None else Some e
                        | None \<Rightarrow> None) value ev ex = (w, old, st)
         \<and> seen t' = (case w of None \<Rightarrow> seen t | Some e \<Rightarrow> (seen t)(key \<mapsto> marshal_kvEntry e))"
proof (cases "txn_Get B t key")
  case (Inl e)
  then show ?thesis using assms by (simp add: putCAS_closure_def Let_def)
next
  case (Inr ov)
  then have ov: "seen t key = ov" using get_seen by blast
  show ?thesis
    using assms Inr unfolding ov putCAS_closure_def Let_def cas_spec_def
    by (auto split: option.splits if_splits sum.splits dest: set_entry_seen)
qed

lemma PutCAS_refines:
  assumes "PutCASWithTTL B now s key value ev ex = (s', r)"
  shows "case r of
           Inl e \<Rightarrow> s' = s
         | Inr (old, st) \<Rightarrow>
             \<exists>w. cas_spec (live_entry content now s key) value ev ex = (w, old, st)
               \<and> content (sdb s') = (case w of None \<Rightarrow> content (sdb s)
                                      | Some e \<Rightarrow> (content (sdb s))(key \<mapsto> marshal_kvEntry e))"
proof (cases rule: update_cases [of "sdb s" "putCAS_closure B now key value ev ex"])
  case (fail e)
  then have "s' = s" "r = Inl e" using assms by (auto simp: PutCASWithTTL_def)
  then show ?thesis by simp
next
  case (ok t t' r' d')
  obtain old st where r': "r' = (old, st)" by (cases r')
  have "content (sdb s') = seen t'" and r: "r = Inr (old, st)"
    using assms ok r' by (auto simp: PutCASWithTTL_def)
  then show ?thesis
    using putCAS_closure_seen [OF ok(4) [unfolded r'] refl, unfolded ok(3)]
    by (simp add: r live_entry_def stored_def)
qed

lemma batch_op_seen:
  assumes "batch_op B t op = Inr t'"
  shows "op_expects op (Option.bind (seen t (wKey op)) unmarshal_kvEntry)"
    and "Option.bind (seen t' (wKey op)) unmarshal_kvEntry
           = op_effect op (Option.bind (seen t (wKey op)) unmarshal_kvEntry)"
    and "k \<noteq> wKey op \<Longrightarrow> seen t' k = seen t k"
proof -
  from assms obtain ov where g: "txn_Get B t (wKey op) = Inr ov"
    by (auto simp: batch_op_def split: sum.splits)
  then have ov: "seen t (wKey op) = ov" using get_seen by blast
  show "op_expects op (Option.bind (seen t (wKey op)) unmarshal_kvEntry)"
    "Option.bind (seen t' (wKey op)) unmarshal_kvEntry
       = op_effect op (Option.bind (seen t (wKey op)) unmarshal_kvEntry)"
    "k \<noteq> wKey op \<Longrightarrow> seen t' k = seen t k"
    using assms g ov
    by (auto simp: batch_op_def op_expects_def op_effect_def codec_simps split: option.splits if_splits
        dest!: set_entry_seen del_entry_seen)
qed

lemma batch_seen:
  assumes "writeBatchWithCASInTxn B t ops = Inr t'" "distinct (map wKey ops)"
  shows "\<forall>op \<in> set ops. op_expects op (Option.bind (seen t (wKey op)) unmarshal_kvEntry)
           \<and> Option.bind (seen t' (wKey op)) unmarshal_kvEntry
               = op_effect op (Option.bind (seen t (wKey op)) unmarshal_kvEntry)"
    and "k \<notin> wKey ` set ops \<Longrightarrow> seen t' k = seen t k"
  using assms
proof (induction ops arbitrary: t k)
  case (Cons op ops)
  {
    case 1
    then obtain u where u: "batch_op B t op = Inr u" "writeBatchWithCASInTxn B u ops = Inr t'"
      by (auto split: sum.splits)
    have d: "distinct (map wKey ops)" and nk: "wKey op \<notin> wKey ` set ops" using 1 by auto
    note IH = Cons.IH(1) [OF u(2) d] Cons.IH(2) [OF _ u(2) d]
    have keep: "seen u k = seen t k" if "k \<noteq> wKey op" for k using batch_op_seen(3) [OF u(1) that] .
    have "seen u (wKey o') = seen t (wKey o')" if "o' \<in> set ops" for o'
      using that nk by (intro keep) (metis imageI)
    then show ?case using IH(1) IH(2) [OF nk] batch_op_seen(1,2) [OF u(1)] by auto
  next
    case 2
    then obtain u where u: "batch_op B t op = Inr u" "writeBatchWithCASInTxn B u ops = Inr t'"
      by (auto split: sum.splits)
    then show ?case using Cons.IH(2) [OF _ u(2)] batch_op_seen(3) [OF u(1)] 2 by auto
  }
qed auto

end

context badger
begin

lemma batch_record_ok:
  assumes "WriteBatchWithCASAndRecord B s ops rk data = (s', None)" "distinct (map wKey ops)"
    and rk: "txKeyPrefix @ rk \<notin> wKey ` set ops"
  shows "\<forall>op \<in> set ops. op_expects op (stored content s (wKey op))
           \<and> stored content s' (wKey op) = op_effect op (stored content s (wKey op))"
    and "content (sdb s') (txKeyPrefix @ rk) = Some data"
    and "k \<notin> wKey ` set ops \<Longrightarrow> k \<noteq> txKeyPrefix @ rk \<Longrightarrow> content (sdb s') k = content (sdb s) k"
proof -
  from assms(1) obtain t t' where t: "seen t = content (sdb s)" "content (sdb s') = seen t'"
    and w: "(case writeBatchWithCASInTxn B t ops of
         Inl e \<Rightarrow> Inl e
       | Inr t' \<Rightarrow>
           (case txn_Set B t' (txKeyPrefix @ rk) data of
              Inl e \<Rightarrow> Inl (SBadger e) | Inr t'' \<Rightarrow> Inr t'')) = Inr t'"
    unfolding WriteBatchWithCASAndRecord_def by (rule update_store_ok)
  from w obtain u where u: "writeBatchWithCASInTxn B t ops = Inr u"
    and set: "txn_Set B u (txKeyPrefix @ rk) data = Inr t'"
    by (auto split: sum.splits)
  have t': "seen t' = (seen u)(txKeyPrefix @ rk \<mapsto> data)" by (rule set_seen [OF set])
  note b = batch_seen [OF u assms(2)]
  show "content (sdb s') (txKeyPrefix @ rk) = Some data" using t t' by simp
  show "content (sdb s') k = content (sdb s) k"
    if "k \<notin> wKey ` set ops" "k \<noteq> txKeyPrefix @ rk"
    using b(2) that t t' by simp
  have "seen t' (wKey op) = seen u (wKey op)" if "op \<in> set ops" for op
    using rk that t' by (metis fun_upd_other imageI)
  then show "\<forall>op \<in> set ops. op_expects op (stored content s (wKey op))
           \<and> stored content s' (wKey op) = op_effect op (stored content s (wKey op))"
    using b(1) t by (simp add: stored_def)
qed

lemma batch_record_error: "WriteBatchWithCASAndRecord B s ops rk data = (s', Some e) \<Longrightarrow> s' = s"
  unfolding WriteBatchWithCASAndRecord_def by (rule update_store_error)

lemma batch_ok:
  assumes "WriteBatchWithCAS B s ops = (s', None)" "distinct (map wKey ops)"
  shows "\<forall>op \<in> set ops. op_expects op (stored content s (wKey op))
           \<and> stored content s' (wKey op) = op_effect op (stored content s (wKey op))"
    and "k \<notin> wKey ` set ops \<Longrightarrow> content (sdb s') k = content (sdb s) k"
proof -
  from assms(1) obtain t t' where t: "seen t = content (sdb s)" "content (sdb s') = seen t'"
    and w: "writeBatchWithCASInTxn B t ops = Inr t'"
    unfolding WriteBatchWithCAS_def by (rule update_store_ok)
  note b = batch_seen [OF w assms(2)]
  show "\<forall>op \<in> set ops. op_expects op (stored content s (wKey op))
           \<and> stored content s' (wKey op) = op_effect op (stored content s (wKey op))"
    using b(1) t by (simp add: stored_def)
  show "k \<notin> wKey ` set ops \<Longrightarrow> content (sdb s') k = content (sdb s) k" using b(2) t by simp
qed

lemma PutTxRecord_ok: "PutTxRecord B s k v = (s', None)
  \<Longrightarrow> content (sdb s') = (content (sdb s))(txKeyPrefix @ k \<mapsto> v)"
  unfolding PutTxRecord_def by (erule update_store_ok) (auto split: sum.splits dest!: set_seen)

lemma PutTxRecord_error: "PutTxRecord B s k v = (s', Some e) \<Longrightarrow> s' = s"
  unfolding PutTxRecord_def by (rule update_store_error)

lemma DeleteTxRecord_ok: "DeleteTxRecord B s k = (s', None)
  \<Longrightarrow> content (sdb s') = (content (sdb s))(txKeyPrefix @ k := None)"
  unfolding DeleteTxRecord_def by (erule update_store_ok) (auto dest!: del_entry_seen)

lemma DeleteTxRecord_error: "DeleteTxRecord B s k = (s', Some e) \<Longrightarrow> s' = s"
  unfolding DeleteTxRecord_def by (rule update_store_error)

lemma GetTxRecord_ok: "GetTxRecord B s k = Inr r \<Longrightarrow> r = content (sdb s) (txKeyPrefix @ k)"
  unfolding GetTxRecord_def by (erule view_ok) (auto split: sum.splits dest!: get_seen)

lemma Delete_ok: "Delete B s k = (s', None) \<Longrightarrow> content (sdb s') = (content (sdb s))(k := None)"
proof -
  assume "Delete B s k = (s', None)"
  then obtain u where u: "update_store B s (\<lambda>t. del_entry B t k) = (u, None)" "s' = markTombstone u k"
    by (auto simp: Delete_def split: prod.splits option.splits)
  show ?thesis by (rule update_store_ok [OF u(1)]) (auto simp: u(2) dest!: del_entry_seen)
qed

lemma Delete_error: "Delete B s k = (s', Some e) \<Longrightarrow> s' = s"
  by (auto simp: Delete_def split: prod.splits option.splits dest: update_store_error)

lemma Get_ok: "Get B s k = Inr r \<Longrightarrow> r = stored content s k"
  unfolding Get_def stored_def
  by (erule view_ok) (auto split: sum.splits option.splits dest!: get_seen [symmetric])

lemma Get_ok_None: "Get B s k = Inr None \<Longrightarrow> content (sdb s) k = None"
  unfolding Get_def by (erule view_ok) (auto split: sum.splits option.splits dest!: get_seen)

lemma Rollback_ok:
  assumes "RollbackCASMutation B s key cv pv pver pex pexists = (s', None)"
  shows "content (sdb s') = (content (sdb s))(key :=
           if pexists then Some (marshal_kvEntry \<lparr> eValue = pv, eVersion = pver, eExpires = pex \<rparr>)
           else None)"
    and "if cv = 0 then content (sdb s) key = None
         else \<exists>e. stored content s key = Some e \<and> eVersion e = cv"
proof -
  obtain u where u: "update_store B s (\<lambda>t.
            case rollback_guard key cv (txn_Get B t key) of
              Some e \<Rightarrow> Inl e
            | None \<Rightarrow>
                if \<not> pexists then del_entry B t key
                else set_entry B t key \<lparr> eValue = pv, eVersion = pver, eExpires = pex \<rparr>) = (u, None)"
    and s': "sdb s' = sdb u"
    using assms by (auto simp: RollbackCASMutation_def Let_def split: prod.splits if_splits)
  from u obtain t t' where t: "seen t = content (sdb s)" "content (sdb u) = seen t'"
    and g: "rollback_guard key cv (txn_Get B t key) = None"
    and w: "(if \<not> pexists then del_entry B t key
             else set_entry B t key \<lparr> eValue = pv, eVersion = pver, eExpires = pex \<rparr>) = Inr t'"
    by (rule update_store_ok) (auto split: option.splits)
  show "content (sdb s') = (content (sdb s))(key :=
           if pexists then Some (marshal_kvEntry \<lparr> eValue = pv, eVersion = pver, eExpires = pex \<rparr>)
           else None)"
    using t w s' by (auto split: if_splits dest!: set_entry_seen del_entry_seen)
  from g obtain ov where "txn_Get B t key = Inr ov" and "seen t key = ov"
    using get_seen by (auto simp: rollback_guard_def split: sum.splits if_splits)
  then show "if cv = 0 then content (sdb s) key = None
         else \<exists>e. stored content s key = Some e \<and> eVersion e = cv"
    using g t by (auto simp: rollback_guard_def stored_def split: option.splits if_splits)
qed

lemma Rollback_error: "RollbackCASMutation B s key cv pv pver pex pexists = (s', Some e) \<Longrightarrow> s' = s"
  by (auto simp: RollbackCASMutation_def Let_def split: prod.splits if_splits dest: update_store_error)

end

section \<open>Where Badger does not fail\<close>

context reliable_badger
begin

lemma set_entry_ok: "\<exists>t'. set_entry B t k e = Inr t'"
  using set_ok by (auto simp: set_entry_def split: sum.splits) (metis Inl_Inr_False)

lemma set_entry_not_Inl: "set_entry B t k e \<noteq> Inl x"
  using set_entry_ok [of t k e] by auto

lemma del_entry_ok: "\<exists>t'. del_entry B t k = Inr t'"
  using delete_ok by (auto simp: del_entry_def split: sum.splits) (metis Inl_Inr_False)

lemma update_store_complete:
  assumes "\<And>t. seen t = content (sdb s) \<Longrightarrow> \<exists>t'. f t = Inr t'"
  shows "\<exists>s'. update_store B s f = (s', None)"
proof -
  obtain t where t: "NewTransaction B (sdb s) = Inr t" using new_ok by blast
  then obtain t' where t': "f t = Inr t'" using assms new_seen by blast
  obtain d' where "txn_Commit B (sdb s) t' = Inr d'" using commit_ok by blast
  with t t' show ?thesis by (simp add: update_store_def db_Update_def)
qed

lemma batch_op_complete:
  assumes "op_expects op (Option.bind (seen t (wKey op)) unmarshal_kvEntry)"
    and "seen t (wKey op) \<noteq> None \<Longrightarrow> Option.bind (seen t (wKey op)) unmarshal_kvEntry \<noteq> None"
  shows "\<exists>t'. batch_op B t op = Inr t'"
  using assms set_entry_ok del_entry_ok
  by (cases "seen t (wKey op)") (auto simp: batch_op_def get_eq op_expects_def split: option.splits)

lemma batch_complete:
  assumes "distinct (map wKey ops)"
    and "\<forall>op \<in> set ops. op_expects op (Option.bind (seen t (wKey op)) unmarshal_kvEntry)"
    and "\<forall>op \<in> set ops. seen t (wKey op) \<noteq> None
           \<longrightarrow> Option.bind (seen t (wKey op)) unmarshal_kvEntry \<noteq> None"
  shows "\<exists>t'. writeBatchWithCASInTxn B t ops = Inr t'"
  using assms
proof (induction ops arbitrary: t)
  case (Cons op ops)
  then obtain u where u: "batch_op B t op = Inr u" using batch_op_complete [of op t] by auto
  have "seen u (wKey o') = seen t (wKey o')" if "o' \<in> set ops" for o'
    using Cons.prems(1) that by (intro batch_op_seen(3) [OF u]) (auto simp: image_iff)
  then have "\<exists>t'. writeBatchWithCASInTxn B u ops = Inr t'"
    using Cons.prems by (intro Cons.IH) auto
  with u show ?case by simp
qed simp

lemma WriteBatch_complete:
  assumes "distinct (map wKey ops)"
    and "\<forall>op \<in> set ops. op_expects op (stored content s (wKey op))"
    and "\<forall>op \<in> set ops. content (sdb s) (wKey op) \<noteq> None \<longrightarrow> stored content s (wKey op) \<noteq> None"
  shows "\<exists>s'. WriteBatchWithCAS B s ops = (s', None)"
  unfolding WriteBatchWithCAS_def
  by (rule update_store_complete, rule batch_complete) (use assms in \<open>auto simp: stored_def\<close>)

lemma putCAS_complete:
  assumes "content (sdb s) key \<noteq> None \<Longrightarrow> stored content s key \<noteq> None"
  shows "\<exists>s' r. PutCASWithTTL B now s key value ev ex = (s', Inr r)"
proof -
  obtain t where t: "NewTransaction B (sdb s) = Inr t" using new_ok by blast
  then have "seen t = content (sdb s)" by (rule new_seen)
  then have "putCAS_closure B now key value ev ex t \<noteq> Inl x" for x
    using assms set_entry_not_Inl [of t key]
    by (auto simp: putCAS_closure_def Let_def get_eq stored_def split: sum.splits option.splits)
  then obtain t' r where r: "putCAS_closure B now key value ev ex t = Inr (t', r)"
    by (cases "putCAS_closure B now key value ev ex t") auto
  obtain d' where "txn_Commit B (sdb s) t' = Inr d'" using commit_ok by blast
  with t r show ?thesis
    by (cases r) (simp add: PutCASWithTTL_def db_Update_def)
qed

lemma Rollback_complete:
  assumes "stored content s key = Some e" "eVersion e = cv" "cv \<noteq> 0"
  shows "\<exists>s'. RollbackCASMutation B s key cv pv pver pex pexists = (s', None)"
proof -
  obtain raw where raw: "content (sdb s) key = Some raw" "unmarshal_kvEntry raw = Some e"
    using assms(1) by (auto simp: stored_def bind_eq_Some_conv)
  have "\<exists>u. update_store B s (\<lambda>t.
            case rollback_guard key cv (txn_Get B t key) of
              Some e \<Rightarrow> Inl e
            | None \<Rightarrow>
                if \<not> pexists then del_entry B t key
                else set_entry B t key \<lparr> eValue = pv, eVersion = pver, eExpires = pex \<rparr>) = (u, None)"
    by (rule update_store_complete)
       (use raw assms set_entry_ok del_entry_ok in \<open>auto simp: get_eq rollback_guard_def\<close>)
  then show ?thesis by (auto simp: RollbackCASMutation_def Let_def)
qed

end

section \<open>The expiry heap\<close>

text \<open>
  The order of the heap is the invariant every operation of the store keeps; the keys that
  \<open>PeekExpiredKeys\<close> returns are those of the items it pops, in order, but for the first item
  of each key with a tombstone.
\<close>

definition heap_ok :: "'db Store \<Rightarrow> bool" where
  "heap_ok s = heap_ordered expiry_key (expiryHeap s) (length (expiryHeap s))"

fun survivors :: "string set \<Rightarrow> expiryItem list \<Rightarrow> string list" where
  "survivors T [] = []"
| "survivors T (x # xs) =
     (if xKey x \<in> T then survivors (T - {xKey x}) xs else xKey x # survivors T xs)"

lemma heap_ok_sdb [simp]: "heap_ok (s\<lparr> sdb := d \<rparr>) = heap_ok s"
  by (simp add: heap_ok_def)

lemma heap_ok_tombstones [simp]: "heap_ok (s\<lparr> tombstones := T \<rparr>) = heap_ok s"
  by (simp add: heap_ok_def)

lemma trackExpiry_heap:
  assumes "heap_ok s"
  shows "heap_ok (trackExpiry s k x)"
    and "sint x > 0 \<Longrightarrow> mset (expiryHeap (trackExpiry s k x))
           = add_mset \<lparr> xKey = k, xExpires = x \<rparr> (mset (expiryHeap s))"
  using assms slice_heap.push_ok slice_heap.push_items
  by (auto simp: trackExpiry_def heap_ok_def)

lemma peek_loop_cases:
  obtains (stop) "peek_loop cutoff limit s keys = (s, keys)"
      "length keys < limit \<Longrightarrow> expiryHeap s = [] \<or> sint cutoff < expiry_key (expiryHeap s ! 0)"
  | (pop) h T ks where "heap_Pop expiry_key (expiryHeap s) = Some (expiryHeap s ! 0, h)"
      "length keys < limit" "expiry_key (expiryHeap s ! 0) \<le> sint cutoff"
      "peek_loop cutoff limit s keys = peek_loop cutoff limit (s\<lparr> expiryHeap := h, tombstones := T \<rparr>) ks"
      "\<And>xs. ks @ survivors T xs = keys @ survivors (tombstones s) (expiryHeap s ! 0 # xs)"
      "length ks \<le> Suc (length keys)"
proof (cases "expiryHeap s = [] \<or> limit \<le> length keys \<or> sint cutoff < expiry_key (expiryHeap s ! 0)")
  case True
  then show ?thesis by (intro stop) (auto simp: peek_loop.simps [of _ _ s] expiry_key_def)
next
  case False
  then obtain x h where p: "heap_Pop expiry_key (expiryHeap s) = Some (x, h)"
    by (auto simp: heap_Pop_def Let_def)
  then have "x = expiryHeap s ! 0" by (rule heap_Pop_Some(1))
  with p False show ?thesis
    by (cases "xKey (expiryHeap s ! 0) \<in> tombstones s")
       (intro pop [of h "tombstones s - {xKey (expiryHeap s ! 0)}" keys]
          pop [of h "tombstones s" "keys @ [xKey (expiryHeap s ! 0)]"];
        auto simp: peek_loop.simps [of _ _ s] expiry_key_def)+
qed

lemma peek_loop_correct:
  assumes "heap_ok s" "peek_loop cutoff limit s keys = (s', ks)"
  shows "\<exists>xs. mset (expiryHeap s) = mset xs + mset (expiryHeap s')
           \<and> sorted (map expiry_key xs)
           \<and> (\<forall>x \<in> set xs. expiry_key x \<le> sint cutoff)
           \<and> ks = keys @ survivors (tombstones s) xs
           \<and> (length ks < limit \<longrightarrow> (\<forall>y \<in> set (expiryHeap s'). expiry_key y > sint cutoff))
           \<and> heap_ok s' \<and> sdb s' = sdb s"
  using assms
proof (induction "length (expiryHeap s)" arbitrary: s keys rule: less_induct)
  case less
  let ?h = "expiryHeap s" let ?top = "?h ! 0"
  have least: "expiry_key ?top \<le> expiry_key y" if "y \<in> set ?h" for y
    using that less.prems(1) heap_root_least by (metis heap_ok_def in_set_conv_nth)
  show ?case
  proof (cases rule: peek_loop_cases [of cutoff limit s keys])
    case stop
    then show ?thesis
      using less.prems least by (intro exI [of _ "[]"]) (auto, use least in fastforce)
  next
    case (pop h T ks0)
    note P = heap_Pop_Some(2,3) [OF pop(1)]
      heap_Pop_Some(4) [OF pop(1) less.prems(1) [unfolded heap_ok_def]]
    let ?u = "s\<lparr> expiryHeap := h, tombstones := T \<rparr>"
    have "?h \<noteq> []" using P(1) by auto
    then have "length (expiryHeap ?u) < length ?h" "heap_ok ?u" using P by (auto simp: heap_ok_def)
    from less.hyps [OF this less.prems(2) [unfolded pop(4)]]
    obtain xs where xs: "mset h = mset xs + mset (expiryHeap s')"
      "sorted (map expiry_key xs)" "\<forall>x \<in> set xs. expiry_key x \<le> sint cutoff"
      "ks = ks0 @ survivors T xs" "heap_ok s'" "sdb s' = sdb s"
      "length ks < limit \<longrightarrow> (\<forall>y \<in> set (expiryHeap s'). expiry_key y > sint cutoff)"
      by (elim exE conjE) simp
    have "set_mset (mset ?h) = insert ?top (set xs \<union> set (expiryHeap s'))"
      unfolding P(1) xs(1) by simp
    then have "sorted (map expiry_key (?top # xs))" using xs(2) least by auto
    then show ?thesis
      using xs P pop(3,5) by (intro exI [of _ "?top # xs"]) (auto simp del: survivors.simps)
  qed
qed

lemma peek_loop_limit: "peek_loop cutoff limit s keys = (s', ks) \<Longrightarrow> length keys \<le> limit
  \<Longrightarrow> length ks \<le> limit"
proof (induction "length (expiryHeap s)" arbitrary: s keys rule: less_induct)
  case less
  show ?case
  proof (cases rule: peek_loop_cases [of cutoff limit s keys])
    case (pop h T ks0)
    have "length (expiryHeap (s\<lparr> expiryHeap := h, tombstones := T \<rparr>)) < length (expiryHeap s)"
      using heap_Pop_Some(2,3) [OF pop(1)] by (cases "expiryHeap s") auto
    then show ?thesis using less.hyps less.prems pop(2,4,6) by (metis Suc_leI order_trans)
  qed (use less in auto)
qed

text \<open>
  The heap covers the store: every entry of a user key that has an expiry time is in the heap
  with that time, and its key has no tombstone.
\<close>

definition is_tx_key :: "string \<Rightarrow> bool" where
  "is_tx_key k = prefix txKeyPrefix k"

definition tracked :: "('db \<Rightarrow> string \<Rightarrow> raw option) \<Rightarrow> 'db Store \<Rightarrow> bool" where
  "tracked content s \<longleftrightarrow> heap_ok s \<and>
     (\<forall>k e. \<not> is_tx_key k \<longrightarrow> stored content s k = Some e \<longrightarrow> sint (eExpires e) > 0 \<longrightarrow>
        \<lparr> xKey = k, xExpires = eExpires e \<rparr> \<in> set (expiryHeap s) \<and> k \<notin> tombstones s)"

lemma survivors_complete: "x \<in> set xs \<Longrightarrow> xKey x \<notin> T \<Longrightarrow> xKey x \<in> set (survivors T xs)"
  by (induction T xs rule: survivors.induct) auto

lemma survivors_sound: "k \<in> set (survivors T xs) \<Longrightarrow> \<exists>x \<in> set xs. xKey x = k"
  by (induction T xs rule: survivors.induct) (auto split: if_splits)

text \<open>Writing one key and tracking its new expiry time keeps the cover.\<close>

lemma tracked_write:
  assumes "tracked content s" "content (sdb u) = (content (sdb s))(key := r)"
    "expiryHeap u = expiryHeap s" "tombstones u = tombstones s"
    and r: "Option.bind r unmarshal_kvEntry = Some e"
  shows "tracked content (if sint (eExpires e) > 0 then trackExpiry u key (eExpires e) else u)"
proof -
  have ok: "heap_ok u" using assms by (simp add: tracked_def heap_ok_def)
  let ?v = "if sint (eExpires e) > 0 then trackExpiry u key (eExpires e) else u"
  have "heap_ok ?v" using ok trackExpiry_heap by auto
  moreover have "\<lparr> xKey = k, xExpires = eExpires e' \<rparr> \<in> set (expiryHeap ?v) \<and> k \<notin> tombstones ?v"
    if k: "\<not> is_tx_key k" "stored content ?v k = Some e'" "sint (eExpires e') > 0" for k e'
  proof (cases "k = key")
    case True
    then have "e' = e" using k r assms(2) by (simp add: stored_def split: if_splits)
    then show ?thesis using True k trackExpiry_heap(2) [OF ok, of "eExpires e" key]
      by (auto simp: trackExpiry_def simp flip: set_mset_mset)
  next
    case False
    then have "stored content s k = Some e'" using k assms(2) by (simp add: stored_def split: if_splits)
    with k assms(1) have t: "\<lparr> xKey = k, xExpires = eExpires e' \<rparr> \<in> set (expiryHeap s)"
      "k \<notin> tombstones s" by (auto simp: tracked_def)
    have "set (expiryHeap s) \<subseteq> set (expiryHeap ?v)"
      using trackExpiry_heap(2) [OF ok, of "eExpires e" key] assms(3)
      by (auto simp flip: set_mset_mset)
    with t show ?thesis using assms(4) by (auto simp: trackExpiry_def)
  qed
  ultimately show ?thesis by (simp add: tracked_def)
qed

lemma tracked_remove:
  assumes "tracked content s" "content (sdb u) = (content (sdb s))(key := None)"
    "expiryHeap u = expiryHeap s" "tombstones u - {key} \<subseteq> tombstones s"
  shows "tracked content u"
  unfolding tracked_def
proof (intro conjI allI impI)
  show "heap_ok u" using assms by (simp add: tracked_def heap_ok_def)
  fix k e assume k: "\<not> is_tx_key k" "stored content u k = Some e" "sint (eExpires e) > 0"
  then have "k \<noteq> key" "stored content s k = Some e" using assms(2) by (auto simp: stored_def split: if_splits)
  with k assms show "\<lparr> xKey = k, xExpires = eExpires e \<rparr> \<in> set (expiryHeap u)" "k \<notin> tombstones u"
    by (auto simp: tracked_def)
qed

lemma rebuild_loop_heap:
  assumes "rebuild_loop its h = (h', err)" "heap_ordered expiry_key h (length h)"
  shows "heap_ordered expiry_key h' (length h')"
    and "set h \<subseteq> set h'"
    and "err = None \<Longrightarrow> (k, Inr raw) \<in> set its \<Longrightarrow> unmarshal_kvEntry raw = Some e \<Longrightarrow> sint (eExpires e) > 0
           \<Longrightarrow> \<lparr> xKey = k, xExpires = eExpires e \<rparr> \<in> set h'"
    and "err = None \<Longrightarrow> (k, r) \<in> set its \<Longrightarrow> \<exists>v. r = Inr v"
  using assms
proof (induction its h rule: rebuild_loop.induct)
  case (3 k' data its h)
  let ?h = "case unmarshal_kvEntry data of None \<Rightarrow> h
        | Some e \<Rightarrow> if sint (eExpires e) > 0
            then heap_Push expiry_key h \<lparr> xKey = k', xExpires = eExpires e \<rparr> else h"
  have push: "mset (heap_Push expiry_key h x) = add_mset x (mset h)" for x
    by (simp add: heap_Push_def heap_up_mset)
  have sets: "set (heap_Push expiry_key h x) = insert x (set h)" for x
    using push [of x] by (metis set_mset_mset set_mset_add_mset_insert)
  {
    case 1 then show ?case
      using 3(1) heap_Push_ordered [of expiry_key h] by (auto split: option.splits)
  next
    case 2 then show ?case
      using 3(2) heap_Push_ordered [of expiry_key h] by (fastforce simp: sets split: option.splits if_splits)
  next
    case 4: 3 
    have o: "heap_ordered expiry_key ?h (length ?h)"
      using 4 heap_Push_ordered [of expiry_key h] by (auto split: option.splits)
    have "set ?h \<subseteq> set h'" using 3(2) 4 o by simp
    then show ?case using 3(3) 4 o by (auto simp: sets split: option.splits if_splits)
  next
    case 5: 4
    then show ?case
      using 3(4) heap_Push_ordered [of expiry_key h] by (auto split: option.splits)
  }
qed auto

context badger
begin

lemma update_store_frame:
  "update_store B s f = (s', r) \<Longrightarrow> expiryHeap s' = expiryHeap s \<and> tombstones s' = tombstones s"
  by (auto simp: update_store_def split: prod.splits sum.splits)

lemma PutCAS_tracked:
  assumes "PutCASWithTTL B now s key value ev ex = (s', r)" "tracked content s"
  shows "tracked content s'"
proof (cases rule: update_cases [of "sdb s" "putCAS_closure B now key value ev ex"])
  case (fail e)
  then show ?thesis using assms by (auto simp: PutCASWithTTL_def)
next
  case (ok t t' r' d')
  obtain old st where r': "r' = (old, st)" by (cases r')
  let ?u = "s\<lparr> sdb := d' \<rparr>"
  have s': "s' = (if st = PutCASOK \<and> sint ex > 0 then trackExpiry ?u key ex else ?u)"
    using assms ok r' by (auto simp: PutCASWithTTL_def)
  obtain w where w: "cas_spec (live_entry content now s key) value ev ex = (w, old, st)"
    and c: "content d' = (case w of None \<Rightarrow> content (sdb s)
                           | Some e \<Rightarrow> (content (sdb s))(key \<mapsto> marshal_kvEntry e))"
    using putCAS_closure_seen [OF ok(4) [unfolded r'] refl, unfolded ok(3)] ok(5)
    by (auto simp: live_entry_def stored_def)
  show ?thesis
  proof (cases w)
    case None
    then have "st \<noteq> PutCASOK" using w by (auto simp: cas_spec_def split: option.splits if_splits)
    with None c s' assms(2) show ?thesis by (simp add: tracked_def stored_def)
  next
    case (Some e)
    then have "st = PutCASOK" "eExpires e = ex"
      using w by (auto simp: cas_spec_def split: option.splits if_splits)
    moreover have "tracked content (if sint (eExpires e) > 0 then trackExpiry ?u key (eExpires e) else ?u)"
      by (rule tracked_write [OF assms(2), where r = "Some (marshal_kvEntry e)"]) (use Some c in auto)
    ultimately show ?thesis using s' by (auto split: if_splits)
  qed
qed

lemma Delete_tracked:
  assumes "Delete B s key = (s', r)" "tracked content s"
  shows "tracked content s'"
proof (cases r)
  case None
  with assms(1) have d: "content (sdb s') = (content (sdb s))(key := None)" using Delete_ok by simp
  have f: "expiryHeap s' = expiryHeap s" "tombstones s' = insert key (tombstones s)"
    using None assms(1) update_store_frame
    by (auto simp: Delete_def markTombstone_def split: prod.splits option.splits)
  show ?thesis by (rule tracked_remove [OF assms(2) d]) (use f in auto)
next
  case (Some e)
  then show ?thesis using assms Delete_error by blast
qed

lemma Rebuild_tracked:
  assumes "RebuildExpiryHeap B s = (s', None)"
  shows "tracked content s'" and "sdb s' = sdb s"
proof -
  from assms obtain t h where t: "NewTransaction B (sdb s) = Inr t"
    and h: "rebuild_loop (txn_Iterate B t []) [] = (h, None)"
    and s': "s' = s\<lparr> expiryHeap := h, tombstones := {} \<rparr>"
    by (auto simp: RebuildExpiryHeap_def split: sum.splits prod.splits)
  show "sdb s' = sdb s" using s' by simp
  have seen: "seen t = content (sdb s)" using t by (rule new_seen)
  have o: "heap_ordered expiry_key [] (length [])" by (simp add: heap_ordered_def)
  note R = rebuild_loop_heap [OF h o]
  show "tracked content s'"
    unfolding tracked_def
  proof (intro conjI allI impI)
    show "heap_ok s'" using R(1) s' by (simp add: heap_ok_def)
    fix k e assume k: "stored content s' k = Some e" "sint (eExpires e) > 0"
    then obtain raw where raw: "seen t k = Some raw" "unmarshal_kvEntry raw = Some e"
      using seen s' by (auto simp: stored_def bind_eq_Some_conv)
    then have "k \<in> set (map fst (txn_Iterate B t []))" unfolding iterate_keys by simp
    then obtain v where v: "(k, v) \<in> set (txn_Iterate B t [])" by auto
    then obtain raw' where "v = Inr raw'" using R(4) [OF refl] by blast
    with v raw have "(k, Inr raw) \<in> set (txn_Iterate B t [])" using iterate_value by fastforce
    then show "\<lparr> xKey = k, xExpires = eExpires e \<rparr> \<in> set (expiryHeap s')"
      using R(3) [OF refl] raw k s' by simp
    show "k \<notin> tombstones s'" using s' by simp
  qed
qed

end

lemma tracked_untouched:
  assumes "tracked content s" "expiryHeap u = expiryHeap s" "tombstones u = tombstones s"
    "\<And>k e. \<not> is_tx_key k \<Longrightarrow> stored content u k = Some e \<Longrightarrow> sint (eExpires e) > 0
       \<Longrightarrow> stored content s k = Some e"
  shows "tracked content u"
  using assms by (auto simp: tracked_def heap_ok_def)

text \<open>
  The writes of the store, each with whatever it returns. A batch is taken with no expiry
  times: \<open>writeBatchWithCASInTxn\<close> stores one but does not enter it in the heap.
\<close>

inductive store_write :: "('db, 'txn) badger \<Rightarrow> 'db Store \<Rightarrow> 'db Store \<Rightarrow> bool" for B where
  w_put: "PutCASWithTTL B now s key value expected expires = (s', r) \<Longrightarrow> store_write B s s'"
| w_delete: "Delete B s key = (s', r') \<Longrightarrow> store_write B s s'"
| w_rollback: "RollbackCASMutation B s key cv pv pver pex pexists = (s', r') \<Longrightarrow> store_write B s s'"
| w_record: "PutTxRecord B s txKey data = (s', r') \<Longrightarrow> store_write B s s'"
| w_unrecord: "DeleteTxRecord B s txKey = (s', r') \<Longrightarrow> store_write B s s'"
| w_batch: "WriteBatchWithCASAndRecord B s ops rk data = (s', r')
    \<Longrightarrow> \<forall>op \<in> set ops. sint (wExpires op) \<le> 0 \<Longrightarrow> store_write B s s'"

context badger
begin

lemma Rollback_tracked:
  assumes "RollbackCASMutation B s key cv pv pver pex pexists = (s', r)" "tracked content s"
  shows "tracked content s'"
proof (cases r)
  case (Some e)
  then show ?thesis using assms Rollback_error by blast
next
  case None
  note c = Rollback_ok(1) [OF assms(1) [unfolded None]]
  obtain u where u: "expiryHeap u = expiryHeap s" "tombstones u = tombstones s"
    and s': "s' = (if pexists \<and> sint pex > 0 then trackExpiry u key pex else u)"
    using assms(1) None
    by (auto simp: RollbackCASMutation_def Let_def split: prod.splits if_splits
        dest!: update_store_frame)
  show ?thesis
  proof (cases pexists)
    case True
    let ?e = "\<lparr> eValue = pv, eVersion = pver, eExpires = pex \<rparr>"
    have "content (sdb u) = (content (sdb s))(key := Some (marshal_kvEntry ?e))"
      using c s' True by (simp split: if_splits)
    from tracked_write [OF assms(2) this u, of ?e] True s' show ?thesis by (simp split: if_splits)
  next
    case False
    with c s' have "content (sdb s') = (content (sdb s))(key := None)" by simp
    then show ?thesis by (rule tracked_remove [OF assms(2)]) (use u s' False in auto)
  qed
qed

lemma batch_no_expiry:
  assumes "writeBatchWithCASInTxn B t ops = Inr t'" "\<forall>op \<in> set ops. sint (wExpires op) \<le> 0"
    "Option.bind (seen t' k) unmarshal_kvEntry = Some e" "sint (eExpires e) > 0"
  shows "Option.bind (seen t k) unmarshal_kvEntry = Some e"
  using assms
proof (induction ops arbitrary: t)
  case (Cons op ops)
  then obtain u where u: "batch_op B t op = Inr u" "writeBatchWithCASInTxn B u ops = Inr t'"
    by (auto split: sum.splits)
  with Cons have ue: "Option.bind (seen u k) unmarshal_kvEntry = Some e" by simp
  show ?case
  proof (cases "k = wKey op")
    case True
    then have "op_effect op (Option.bind (seen t k) unmarshal_kvEntry) = Some e"
      using ue batch_op_seen(2) [OF u(1)] by simp
    then have "eExpires e = wExpires op" by (auto simp: op_effect_def split: if_splits)
    with Cons.prems show ?thesis by simp
  next
    case False
    then show ?thesis using ue batch_op_seen(3) [OF u(1)] by simp
  qed
qed simp

lemma batch_record_tracked:
  assumes "WriteBatchWithCASAndRecord B s ops rk data = (s', r)" "tracked content s"
    "\<forall>op \<in> set ops. sint (wExpires op) \<le> 0"
  shows "tracked content s'"
proof (cases r)
  case (Some e)
  then show ?thesis using assms batch_record_error by blast
next
  case None
  have f: "expiryHeap s' = expiryHeap s" "tombstones s' = tombstones s"
    using assms(1) update_store_frame unfolding WriteBatchWithCASAndRecord_def by blast+
  from assms(1) [unfolded None WriteBatchWithCASAndRecord_def] obtain t t' u
    where t: "seen t = content (sdb s)" "content (sdb s') = seen t'"
      and u: "writeBatchWithCASInTxn B t ops = Inr u"
      and t': "seen t' = (seen u)(txKeyPrefix @ rk \<mapsto> data)"
    by (rule update_store_ok) (auto split: sum.splits dest!: set_seen)
  have "stored content s k = Some e"
    if "\<not> is_tx_key k" "stored content s' k = Some e" "sint (eExpires e) > 0" for k e
  proof -
    have "k \<noteq> txKeyPrefix @ rk" using that(1) by (auto simp: is_tx_key_def)
    then show ?thesis
      using that t t' batch_no_expiry [OF u assms(3)] by (simp add: stored_def)
  qed
  then show ?thesis using tracked_untouched [OF assms(2) f] by blast
qed

lemma txRecord_tracked:
  assumes "content (sdb s') = (content (sdb s))(txKeyPrefix @ k := r)" "tracked content s"
    "expiryHeap s' = expiryHeap s" "tombstones s' = tombstones s"
  shows "tracked content s'"
  by (rule tracked_untouched [OF assms(2-4)])
     (use assms(1) in \<open>auto simp: stored_def is_tx_key_def split: if_splits\<close>)

lemma store_write_tracked: "store_write B s s' \<Longrightarrow> tracked content s \<Longrightarrow> tracked content s'"
proof (induction rule: store_write.induct)
  case (w_record s txKey data s' r')
  then show ?case
    using update_store_frame PutTxRecord_error PutTxRecord_ok txRecord_tracked
    by (cases r') (auto simp: PutTxRecord_def, metis PutTxRecord_def)
next
  case (w_unrecord s txKey s' r')
  then show ?case
    using update_store_frame DeleteTxRecord_error DeleteTxRecord_ok txRecord_tracked
    by (cases r') (auto simp: DeleteTxRecord_def, metis DeleteTxRecord_def)
qed (blast intro: PutCAS_tracked Delete_tracked Rollback_tracked batch_record_tracked)+

lemma tracked_new: "content d = Map.empty \<Longrightarrow> tracked content (NewStore d)"
  by (simp add: tracked_def NewStore_def heap_ok_def heap_ordered_def stored_def)

end

text \<open>The cover is an invariant of the writes, from an empty database on.\<close>

sublocale badger \<subseteq> writes: invariant_system "\<lambda>s. \<exists>d. content d = Map.empty \<and> s = NewStore d"
  "store_write B" "tracked content"
  by unfold_locales (auto intro: tracked_new store_write_tracked)

context badger
begin

lemma reach_tracked:
  "reach (\<lambda>s. \<exists>d. content d = Map.empty \<and> s = NewStore d) (store_write B) s \<Longrightarrow> tracked content s"
  by (rule writes.reach_inv)

end

lemma tracked_peek_complete:
  assumes "tracked content s" "PeekExpiredKeys cutoff limit s = (s', ks)"
    "length ks < scan_limit limit"
    "\<not> is_tx_key k" "stored content s k = Some e" "expired_at (eExpires e) cutoff"
  shows "k \<in> set ks"
proof -
  from assms obtain xs where xs: "mset (expiryHeap s) = mset xs + mset (expiryHeap s')"
    "ks = survivors (tombstones s) xs" "\<forall>y \<in> set (expiryHeap s'). expiry_key y > sint cutoff"
    using peek_loop_correct [of s cutoff "scan_limit limit" "[]" s' ks]
    by (auto simp: PeekExpiredKeys_def tracked_def)
  let ?x = "\<lparr> xKey = k, xExpires = eExpires e \<rparr>"
  have "?x \<in> set (expiryHeap s)" and k: "k \<notin> tombstones s"
    using assms by (auto simp: tracked_def expired_at_def)
  then have "?x \<in># mset xs + mset (expiryHeap s')" using xs(1) by (metis in_multiset_in_set)
  moreover have "?x \<notin> set (expiryHeap s')"
    using xs(3) assms(6) by (auto simp: expiry_key_def expired_at_def)
  ultimately have "?x \<in> set xs" by simp
  then show ?thesis using survivors_complete [of ?x xs "tombstones s"] k xs(2) by simp
qed

lemma PutCAS_step:
  assumes "badger B content seen"
    "PutCASWithTTL B now s key value expected expires = (s1, Inr (old, PutCASOK))"
  shows "\<exists>e. content (sdb s1) = (content (sdb s))(key \<mapsto> marshal_kvEntry e)
           \<and> eVersion e = expected + 1 \<and> eValue e = value \<and> eExpires e = expires"
  using badger.PutCAS_refines [OF assms]
  by (auto simp: cas_spec_def split: option.splits if_splits)

section \<open>Properties\<close>

text \<open>
  \<^bold>\<open>C1\<close>. \<open>PutCASWithTTL\<close> is a compare-and-swap on the live entry of its key, where an
  expired entry counts as absent: it returns the status and old value the contract
  \<^const>\<open>cas_spec\<close> gives, writes exactly the entry the contract writes and no other key, and
  an error of Badger or of the decoder leaves the store as it was.
\<close>

theorem PutCASWithTTL_correct:
  assumes "badger B content seen" "PutCASWithTTL B now s key value expected expires = (s', r)"
  shows "case r of
           Inl e \<Rightarrow> s' = s
         | Inr (old, st) \<Rightarrow>
             \<exists>w. cas_spec (live_entry content now s key) value expected expires = (w, old, st)
               \<and> content (sdb s') = (case w of None \<Rightarrow> content (sdb s)
                                      | Some e \<Rightarrow> (content (sdb s))(key \<mapsto> marshal_kvEntry e))"
  using assms by (rule badger.PutCAS_refines)

definition demo_store :: "mem_db Store" where
  "demo_store = NewStore
     [(''a'', marshal_kvEntry \<lparr> eValue = ''x'', eVersion = 3, eExpires = 50 \<rparr>),
      (''b'', marshal_kvEntry \<lparr> eValue = ''y'', eVersion = 1, eExpires = 0 \<rparr>)]"

theorem PutCASWithTTL_correct_witness:
  "\<exists>w. cas_spec (live_entry map_of 40 demo_store ''a'') ''z'' 3 90 = (w, ''x'', PutCASOK)
     \<and> map_of (sdb (fst (PutCASWithTTL (mem_badger []) 40 demo_store ''a'' ''z'' 3 90)))
       = (case w of None \<Rightarrow> map_of (sdb demo_store)
          | Some e \<Rightarrow> (map_of (sdb demo_store))(''a'' \<mapsto> marshal_kvEntry e))"
proof -
  have r: "snd (PutCASWithTTL (mem_badger []) 40 demo_store ''a'' ''z'' 3 90) = Inr (''x'', PutCASOK)"
    by code_simp
  show ?thesis
    using PutCASWithTTL_correct [OF mem.badger_axioms prod.collapse [symmetric],
      of "[]" 40 demo_store "''a''" "''z''" 3 90] r
    by simp
qed

text \<open>
  \<^bold>\<open>C2\<close>. \<open>WriteBatchWithCASAndRecord\<close> is all or nothing: when it returns an error nothing
  has changed; when it succeeds, every operation of the batch (distinct keys, none of them the
  record's) found the version it expects, every key holds what its operation writes, the record
  is stored under \<open>_tx:\<close> and every other key is as before.
\<close>

theorem WriteBatchWithCASAndRecord_atomic:
  assumes "badger B content seen" "WriteBatchWithCASAndRecord B s ops rk data = (s', err)"
    "distinct (map wKey ops)" "txKeyPrefix @ rk \<notin> wKey ` set ops"
  shows "if err = None
         then (\<forall>op \<in> set ops. op_expects op (stored content s (wKey op))
                 \<and> stored content s' (wKey op) = op_effect op (stored content s (wKey op)))
            \<and> content (sdb s') (txKeyPrefix @ rk) = Some data
            \<and> (\<forall>k. k \<notin> wKey ` set ops \<longrightarrow> k \<noteq> txKeyPrefix @ rk
                 \<longrightarrow> content (sdb s') k = content (sdb s) k)
         else s' = s"
proof (cases err)
  case None
  note ok = badger.batch_record_ok [OF assms(1) assms(2) [unfolded None] assms(3,4)]
  show ?thesis using None ok(1,2) ok(3) by auto
next
  case (Some e)
  then show ?thesis using badger.batch_record_error [OF assms(1) assms(2) [unfolded Some]] by simp
qed

definition demo_ops :: "WriteBatchOp list" where
  "demo_ops =
     [\<lparr> wKey = ''a'', wValue = ''u'', wExpectedVersion = 3, wExpires = 0, wIsDelete = False \<rparr>,
      \<lparr> wKey = ''b'', wValue = [], wExpectedVersion = 1, wExpires = 0, wIsDelete = True \<rparr>,
      \<lparr> wKey = ''c'', wValue = ''v'', wExpectedVersion = 0, wExpires = 0, wIsDelete = False \<rparr>]"

theorem WriteBatchWithCASAndRecord_atomic_witness:
  "let s' = fst (WriteBatchWithCASAndRecord (mem_badger []) demo_store demo_ops ''commit:t'' (JStr ''ok''))
   in stored map_of s' ''a'' = Some \<lparr> eValue = ''u'', eVersion = 4, eExpires = 0 \<rparr>
    \<and> stored map_of s' ''b'' = None
    \<and> map_of (sdb s') ''_tx:commit:t'' = Some (JStr ''ok'')"
proof -
  let ?r = "WriteBatchWithCASAndRecord (mem_badger []) demo_store demo_ops ''commit:t'' (JStr ''ok'')"
  have ok: "snd ?r = None" and d: "distinct (map wKey demo_ops)"
    and k: "txKeyPrefix @ ''commit:t'' \<notin> wKey ` set demo_ops"
    by code_simp+
  have e: "\<forall>op \<in> set demo_ops. stored map_of (fst ?r) (wKey op) = op_effect op (stored map_of demo_store (wKey op))"
    "map_of (sdb (fst ?r)) (txKeyPrefix @ ''commit:t'') = Some (JStr ''ok'')"
    using WriteBatchWithCASAndRecord_atomic [OF mem.badger_axioms prod.collapse [symmetric] d k, of "[]" demo_store]
    ok by auto
  have a: "stored map_of demo_store ''a'' = Some \<lparr> eValue = ''x'', eVersion = 3, eExpires = 50 \<rparr>"
    by code_simp
  show ?thesis using e a by (simp add: demo_ops_def op_effect_def txKeyPrefix_def Let_def)
qed

text \<open>
  Where Badger does not fail, a batch on distinct keys whose stored values are
  well-formed is committed exactly when every operation expects the version that is stored.
\<close>

theorem WriteBatchWithCAS_succeeds_iff:
  assumes "reliable_badger B content seen" "distinct (map wKey ops)"
    "\<forall>op \<in> set ops. content (sdb s) (wKey op) \<noteq> None \<longrightarrow> stored content s (wKey op) \<noteq> None"
  shows "snd (WriteBatchWithCAS B s ops) = None
    \<longleftrightarrow> (\<forall>op \<in> set ops. op_expects op (stored content s (wKey op)))"
proof
  have b: "badger B content seen" using assms(1) by (rule reliable_badger.axioms(1))
  assume "snd (WriteBatchWithCAS B s ops) = None"
  then have "WriteBatchWithCAS B s ops = (fst (WriteBatchWithCAS B s ops), None)"
    by (metis prod.collapse)
  then show "\<forall>op \<in> set ops. op_expects op (stored content s (wKey op))"
    using badger.batch_ok(1) [OF b _ assms(2)] by blast
next
  assume "\<forall>op \<in> set ops. op_expects op (stored content s (wKey op))"
  then show "snd (WriteBatchWithCAS B s ops) = None"
    using reliable_badger.WriteBatch_complete [OF assms(1,2) _ assms(3)] by fastforce
qed

theorem WriteBatchWithCAS_succeeds_iff_witness:
  "snd (WriteBatchWithCAS (mem_badger []) demo_store demo_ops) = None
    \<longleftrightarrow> (\<forall>op \<in> set demo_ops. op_expects op (stored map_of demo_store (wKey op)))"
proof (rule WriteBatchWithCAS_succeeds_iff [OF reliable_mem.reliable_badger_axioms])
  show "distinct (map wKey demo_ops)"
    "\<forall>op\<in>set demo_ops. map_of (sdb demo_store) (wKey op) \<noteq> None
       \<longrightarrow> stored map_of demo_store (wKey op) \<noteq> None"
    by code_simp+
qed

text \<open>
  \<^bold>\<open>C3\<close>. A compare-and-swap that succeeded is undone by \<open>RollbackCASMutation\<close> called with
  the version it produced and the entry that was live before: where Badger does not fail the
  rollback succeeds, and at that time every key has the live entry it had before the write.
  The version produced must not have wrapped round to 0, which stands for an absent key.
\<close>

theorem Rollback_undoes_PutCAS:
  assumes "reliable_badger B content seen"
    "PutCASWithTTL B now s key value expected expires = (s1, Inr (old, PutCASOK))"
    "expected \<noteq> - 1"
    "prev = live_entry content now s key"
  shows "\<exists>s2. RollbackCASMutation B s1 key (expected + 1)
             (case prev of None \<Rightarrow> [] | Some e \<Rightarrow> eValue e)
             (case prev of None \<Rightarrow> 0 | Some e \<Rightarrow> eVersion e)
             (case prev of None \<Rightarrow> 0 | Some e \<Rightarrow> eExpires e) (prev \<noteq> None) = (s2, None)
           \<and> (\<forall>k. live_entry content now s2 k = live_entry content now s k)"
proof -
  have b: "badger B content seen" using assms(1) by (rule reliable_badger.axioms(1))
  from PutCAS_step [OF b assms(2)] obtain e where
    c: "content (sdb s1) = (content (sdb s))(key \<mapsto> marshal_kvEntry e)" and e: "eVersion e = expected + 1"
    by blast
  have "expected + 1 \<noteq> 0" using assms(3) by (metis add.commute eq_neg_iff_add_eq_0)
  moreover have "stored content s1 key = Some e" using c by (simp add: stored_def codec_simps)
  ultimately obtain s2 where r: "RollbackCASMutation B s1 key (expected + 1)
             (case prev of None \<Rightarrow> [] | Some e \<Rightarrow> eValue e)
             (case prev of None \<Rightarrow> 0 | Some e \<Rightarrow> eVersion e)
             (case prev of None \<Rightarrow> 0 | Some e \<Rightarrow> eExpires e) (prev \<noteq> None) = (s2, None)"
    using reliable_badger.Rollback_complete [OF assms(1) _ e] by blast
  have "live_entry content now s2 k = live_entry content now s k" for k
  proof (cases "k = key")
    case True
    then show ?thesis
      using badger.Rollback_ok(1) [OF b r] assms(4)
      by (cases prev) (auto simp: live_entry_def stored_def codec_simps split: option.splits if_splits)
  next
    case False
    then show ?thesis
      using badger.Rollback_ok(1) [OF b r] c by (simp add: live_entry_def stored_def)
  qed
  with r show ?thesis by blast
qed

theorem Rollback_undoes_PutCAS_witness:
  "\<exists>s2. RollbackCASMutation (mem_badger [])
      (fst (PutCASWithTTL (mem_badger []) 40 demo_store ''a'' ''z'' 3 90)) ''a'' 4 ''x'' 3 50 True
      = (s2, None)
    \<and> (\<forall>k. live_entry map_of 40 s2 k = live_entry map_of 40 demo_store k)"
proof -
  have r: "snd (PutCASWithTTL (mem_badger []) 40 demo_store ''a'' ''z'' 3 90) = Inr (''x'', PutCASOK)"
    and p: "live_entry map_of 40 demo_store ''a'' = Some \<lparr> eValue = ''x'', eVersion = 3, eExpires = 50 \<rparr>"
    by code_simp+
  have "PutCASWithTTL (mem_badger []) 40 demo_store ''a'' ''z'' 3 90
      = (fst (PutCASWithTTL (mem_badger []) 40 demo_store ''a'' ''z'' 3 90), Inr (''x'', PutCASOK))"
    using r by (metis prod.collapse)
  from Rollback_undoes_PutCAS [OF reliable_mem.reliable_badger_axioms this _ p [symmetric]]
  show ?thesis by simp
qed



text \<open>
  The keys \<open>PeekExpiredKeys\<close> returns are those of the heap items it removes, least
  expiry time first and none of them after the cutoff, except that the first item of a key with
  a tombstone is skipped; it returns at most the limit, stops early only when everything left
  is after the cutoff, and keeps the heap ordered.
\<close>

theorem PeekExpiredKeys_correct:
  assumes "heap_ok s" "PeekExpiredKeys cutoff limit s = (s', ks)"
  shows "\<exists>xs. mset (expiryHeap s) = mset xs + mset (expiryHeap s')
           \<and> sorted (map expiry_key xs) \<and> (\<forall>x \<in> set xs. expiry_key x \<le> sint cutoff)
           \<and> ks = survivors (tombstones s) xs \<and> length ks \<le> scan_limit limit
           \<and> (length ks < scan_limit limit
                \<longrightarrow> (\<forall>y \<in> set (expiryHeap s'). expiry_key y > sint cutoff))
           \<and> heap_ok s' \<and> sdb s' = sdb s"
  using peek_loop_correct [OF assms(1) assms(2) [unfolded PeekExpiredKeys_def]]
    peek_loop_limit [OF assms(2) [unfolded PeekExpiredKeys_def]]
  by auto

definition demo_heap :: "mem_db Store" where
  "demo_heap = markTombstone (trackExpiry (trackExpiry (trackExpiry (NewStore [])
     ''a'' 30) ''b'' 10) ''c'' 20) ''c''"

theorem PeekExpiredKeys_correct_witness:
  "snd (PeekExpiredKeys 25 0 demo_heap) = [''b''] \<and> heap_ok (fst (PeekExpiredKeys 25 0 demo_heap))"
proof -
  have "heap_ok demo_heap"
    unfolding demo_heap_def markTombstone_def heap_ok_tombstones
    by (intro trackExpiry_heap(1)) (simp add: NewStore_def heap_ok_def heap_ordered_def)
  from PeekExpiredKeys_correct [OF this prod.collapse [symmetric]]
  have "heap_ok (fst (PeekExpiredKeys 25 0 demo_heap))" by blast
  moreover have "snd (PeekExpiredKeys 25 0 demo_heap) = [''b'']" by code_simp
  ultimately show ?thesis by simp
qed

end
