(* ===== verification/Kv_Api.thy ===== *)
theory Kv_Api
  imports Store
begin

text \<open>
  The request, reply and record types of package \<open>kv\<close> (\<^verbatim>\<open>src/pkg/kv/kvapi.go\<close>) and the JSON
  form of those that are stored. A nil slice and an empty one are the same list: no code of the
  program distinguishes them, and both are read back as the empty list.
\<close>

type_synonym Tversion = goint

datatype Err =
    OK
  | ErrNoKey
  | ErrWrongLeader
  | ErrVersion
  | ErrMaybe
  | ErrWrongGroup
  | ErrTxConflict
  | ErrTxNotFound
  | ErrTxTimeout

section \<open>Requests and replies\<close>

record GetArgs = gKey :: string

record GetReply =
  grValue :: string
  grVersion :: Tversion
  grExpires :: int64
  grErr :: Err
  grHintGroupID :: goint
  grHintReplicas :: "string list"
  grHintEpoch :: int64

record PutArgs =
  pKey :: string
  pValue :: string
  pVersion :: Tversion
  pTTL :: int64

record PutReply =
  prErr :: Err
  prOldValue :: string
  prHintGroupID :: goint
  prHintReplicas :: "string list"
  prHintEpoch :: int64

record DeleteArgs = dKey :: string

record DeleteReply =
  drErr :: Err
  drOldValue :: string
  drHintGroupID :: goint
  drHintReplicas :: "string list"
  drHintEpoch :: int64

record CleanupShardKey =
  ckKey :: string
  ckExpectedVersion :: Tversion

record CleanupShardArgs =
  csShardID :: goint
  csKeys :: "CleanupShardKey list"

record CleanupShardReply =
  csDeleted :: nat
  csErr :: Err

text \<open>The state is the number of the enumeration; the reply says whether its error is set.\<close>

record SetShardStateArgs =
  ssaShardID :: goint
  ssaState :: "32 word"
  ssaTargetGroup :: goint
  ssaTopologyEpoch :: int64
  ssaTargetReplicas :: "string list"

record SetShardStateReply =
  ssrFailed :: bool

record ScanArgs =
  saPrefix :: string
  saLimit :: int

record ScanItem =
  siKey :: string
  siValue :: string
  siVersion :: Tversion
  siExpires :: int64

record ScanReply =
  srItems :: "ScanItem list"
  srErr :: Err

record ExpireArgs =
  eaKeys :: "string list"
  eaCutoff :: int64

record ExpireReply =
  erExpiredKeys :: "string list"
  erExpiredOldValues :: "string \<rightharpoonup> string"
  erErr :: Err

section \<open>Transactions\<close>

record ReadKey =
  rkKey :: string
  rkValue :: string
  rkExpectedVersion :: Tversion

record WriteKey =
  wkKey :: string
  wkValue :: string
  wkVersion :: Tversion
  wkIsDelete :: bool

record PrepareTxArgs =
  paTxID :: string
  paReadKeys :: "ReadKey list"
  paWriteKeys :: "WriteKey list"
  paTimeoutMs :: int64
  paCoordinatorGroupID :: goint
  paParticipantGroupIDs :: "goint list"

text \<open>\<open>CommitTxArgs.WriteKeys\<close> is carried by the request; \<open>Commit\<close> does not read it.\<close>

record CommitTxArgs =
  caTxID :: string
  caWriteKeys :: "WriteKey list"

text \<open>The constants of \<open>TxStatus\<close>, an \<open>int\<close> of which any value may be read from a record.\<close>

type_synonym TxStatus = goint

definition TxStatusNotFound :: TxStatus where "TxStatusNotFound = 0"
definition TxStatusPrepared :: TxStatus where "TxStatusPrepared = 1"
definition TxStatusCommitted :: TxStatus where "TxStatusCommitted = 2"
definition TxStatusAborted :: TxStatus where "TxStatusAborted = 3"
definition TxStatusUnknown :: TxStatus where "TxStatusUnknown = 4"

lemmas TxStatus_defs = TxStatusNotFound_def TxStatusPrepared_def TxStatusCommitted_def
  TxStatusAborted_def TxStatusUnknown_def

lemma TxStatus_distinct [simp]:
  "TxStatusCommitted \<noteq> TxStatusAborted" "TxStatusAborted \<noteq> TxStatusCommitted"
  "TxStatusUnknown \<noteq> TxStatusCommitted" "TxStatusUnknown \<noteq> TxStatusAborted"
  "TxStatusCommitted \<noteq> TxStatusUnknown" "TxStatusAborted \<noteq> TxStatusUnknown"
  by (simp_all add: TxStatus_defs)

record RecordTxDecisionArgs =
  raTxID :: string
  raDecision :: TxStatus
  raParticipantGroupIDs :: "goint list"
  raWriteKeys :: "WriteKey list"

record ResolveTxStatusReply =
  rrStatus :: TxStatus
  rrPreparedAt :: int64
  rrWriteKeys :: "WriteKey list"
  rrErr :: Err
  rrCoordinatorGroupID :: goint
  rrParticipantGroupIDs :: "goint list"

section \<open>The JSON form\<close>

definition marshal_ReadKey :: "ReadKey \<Rightarrow> json" where
  "marshal_ReadKey r =
     JObj [(''Key'', JStr (rkKey r)), (''Value'', JStr (rkValue r)),
           (''ExpectedVersion'', enc_int64 (rkExpectedVersion r))]"

definition unmarshal_ReadKey :: "json \<Rightarrow> ReadKey option" where
  "unmarshal_ReadKey j =
     (case dec_obj j of
        None \<Rightarrow> None
      | Some fs \<Rightarrow>
          (case (dec_str (jfield ''Key'' fs), dec_str (jfield ''Value'' fs),
                 dec_int64 (jfield ''ExpectedVersion'' fs)) of
             (Some k, Some v, Some n) \<Rightarrow>
               Some \<lparr> rkKey = k, rkValue = v, rkExpectedVersion = n \<rparr>
           | _ \<Rightarrow> None))"

interpretation ReadKey_codec: json_codec marshal_ReadKey unmarshal_ReadKey
  by unfold_locales
     (simp del: jfield.simps(2) add: marshal_ReadKey_def unmarshal_ReadKey_def jfield_eval codec_simps)

definition marshal_WriteKey :: "WriteKey \<Rightarrow> json" where
  "marshal_WriteKey w =
     JObj [(''Key'', JStr (wkKey w)), (''Value'', JStr (wkValue w)),
           (''Version'', enc_int64 (wkVersion w)), (''IsDelete'', JBool (wkIsDelete w))]"

definition unmarshal_WriteKey :: "json \<Rightarrow> WriteKey option" where
  "unmarshal_WriteKey j =
     (case dec_obj j of
        None \<Rightarrow> None
      | Some fs \<Rightarrow>
          (case (dec_str (jfield ''Key'' fs), dec_str (jfield ''Value'' fs),
                 dec_int64 (jfield ''Version'' fs), dec_bool (jfield ''IsDelete'' fs)) of
             (Some k, Some v, Some n, Some d) \<Rightarrow>
               Some \<lparr> wkKey = k, wkValue = v, wkVersion = n, wkIsDelete = d \<rparr>
           | _ \<Rightarrow> None))"

interpretation WriteKey_codec: json_codec marshal_WriteKey unmarshal_WriteKey
  by unfold_locales
     (simp del: jfield.simps(2) add: marshal_WriteKey_def unmarshal_WriteKey_def jfield_eval codec_simps)

lemmas tx_codec_laws [codec_simps] =
  ReadKey_codec.dec_enc ReadKey_codec.dec_list_enc WriteKey_codec.dec_enc WriteKey_codec.dec_list_enc

end
