(* ===== verification/Tx_Manager.thy ===== *)
theory Tx_Manager
  imports Kv_Api
begin

text \<open>
  The participant of two-phase commit in one Raft group (\<^verbatim>\<open>src/pkg/kv/tx.go\<close>): the lock
  table and the cache of prepared transactions over the durable records
  \<open>_tx:prepare:\<close>, \<open>_tx:commit:\<close>, \<open>_tx:abort:\<close> and \<open>_tx:decision:\<close> of the store.
  The operations run one after the other; the mutex \<open>tm.mu\<close> is kept as a flag so that an
  operation that returns without unlocking it shows: an operation that would lock a held mutex
  blocks for ever and has no result (\<open>None\<close>). A read of a record ignores the error, as the code
  does. The router is a parameter: what a remote coordinator answers, and the group of a key.
\<close>

section \<open>Records\<close>

definition txPreparePrefix :: string where "txPreparePrefix = ''prepare:''"
definition txCommitPrefix :: string where "txCommitPrefix = ''commit:''"
definition txAbortPrefix :: string where "txAbortPrefix = ''abort:''"
definition txDecisionPrefix :: string where "txDecisionPrefix = ''decision:''"

lemmas txPrefix_defs = txPreparePrefix_def txCommitPrefix_def txAbortPrefix_def txDecisionPrefix_def

record preparedTxRecord =
  rTxID :: string
  rReadKeys :: "ReadKey list"
  rWriteKeys :: "WriteKey list"
  rPreparedAt :: int64
  rTimeoutMs :: int64
  rCoordinatorGroupID :: goint
  rParticipantGroupIDs :: "goint list"

definition marshal_prepared :: "preparedTxRecord \<Rightarrow> raw" where
  "marshal_prepared r =
     JObj [(''tx_id'', JStr (rTxID r)), (''read_keys'', JArr (map marshal_ReadKey (rReadKeys r))),
           (''write_keys'', JArr (map marshal_WriteKey (rWriteKeys r))),
           (''prepared_at'', enc_int64 (rPreparedAt r)), (''timeout_ms'', enc_int64 (rTimeoutMs r)),
           (''coordinator_group_id'', enc_int64 (rCoordinatorGroupID r)),
           (''participant_group_ids'', JArr (map enc_int64 (rParticipantGroupIDs r)))]"

definition unmarshal_prepared :: "raw \<Rightarrow> preparedTxRecord option" where
  "unmarshal_prepared j =
     (case dec_obj j of
        None \<Rightarrow> None
      | Some fs \<Rightarrow>
          (case (dec_str (jfield ''tx_id'' fs),
                 dec_list unmarshal_ReadKey (jfield ''read_keys'' fs),
                 dec_list unmarshal_WriteKey (jfield ''write_keys'' fs),
                 dec_int64 (jfield ''prepared_at'' fs), dec_int64 (jfield ''timeout_ms'' fs),
                 dec_int64 (jfield ''coordinator_group_id'' fs),
                 dec_list dec_int64 (jfield ''participant_group_ids'' fs)) of
             (Some t, Some rs, Some ws, Some p, Some m, Some c, Some gs) \<Rightarrow>
               Some \<lparr> rTxID = t, rReadKeys = rs, rWriteKeys = ws, rPreparedAt = p, rTimeoutMs = m,
                      rCoordinatorGroupID = c, rParticipantGroupIDs = gs \<rparr>
           | _ \<Rightarrow> None))"

interpretation prepared_codec: json_codec marshal_prepared unmarshal_prepared
  by unfold_locales
     (simp del: jfield.simps(2) add: marshal_prepared_def unmarshal_prepared_def jfield_eval codec_simps)

record txDecisionRecord =
  tdDecision :: TxStatus
  tdParticipantGroupIDs :: "goint list"
  tdWriteKeys :: "WriteKey list"

definition marshal_decision :: "txDecisionRecord \<Rightarrow> raw" where
  "marshal_decision d =
     JObj ((''decision'', enc_int64 (tdDecision d))
           # (''participant_group_ids'', JArr (map enc_int64 (tdParticipantGroupIDs d)))
           # omitempty (tdWriteKeys d = []) ''write_keys'' (JArr (map marshal_WriteKey (tdWriteKeys d))))"

definition unmarshal_decision :: "raw \<Rightarrow> txDecisionRecord option" where
  "unmarshal_decision j =
     (case dec_obj j of
        None \<Rightarrow> None
      | Some fs \<Rightarrow>
          (case (dec_int64 (jfield ''decision'' fs),
                 dec_list dec_int64 (jfield ''participant_group_ids'' fs),
                 dec_list unmarshal_WriteKey (jfield ''write_keys'' fs)) of
             (Some d, Some gs, Some ws) \<Rightarrow>
               Some \<lparr> tdDecision = d, tdParticipantGroupIDs = gs, tdWriteKeys = ws \<rparr>
           | _ \<Rightarrow> None))"

interpretation decision_codec: json_codec marshal_decision unmarshal_decision
  by unfold_locales
     (simp del: jfield.simps(2) add: marshal_decision_def unmarshal_decision_def omitempty_def jfield_eval codec_simps)

declare prepared_codec.dec_enc [codec_simps] decision_codec.dec_enc [codec_simps]

text \<open>\<open>[]byte("1")\<close>, the text of the JSON number 1.\<close>

definition mark_data :: raw where "mark_data = JNum 1"

section \<open>State\<close>

record Router =
  QueryTxDecisionToGroup :: "goint \<Rightarrow> string \<Rightarrow> string option"
    \<comment> \<open>the decision a remote coordinator answers, \<open>None\<close> when it cannot be reached\<close>
  Resolve :: "string \<Rightarrow> goint"

record 'db TxManager =
  txStore :: "'db Store"
  lockTable :: "string \<rightharpoonup> string"
  preparedTxs :: "string \<rightharpoonup> preparedTxRecord"
  txGroupID :: goint
  txRouter :: "Router option"
  muHeld :: bool

definition NewTxManager :: "'db Store \<Rightarrow> goint \<Rightarrow> Router option \<Rightarrow> 'db TxManager" where
  "NewTxManager s groupID router =
     \<lparr> txStore = s, lockTable = Map.empty, preparedTxs = Map.empty, txGroupID = groupID,
       txRouter = router, muHeld = False \<rparr>"

text \<open>\<open>val, found, _ := store.GetTxRecord(key)\<close>\<close>

definition found_record :: "('db, 'txn) badger \<Rightarrow> 'db TxManager \<Rightarrow> string \<Rightarrow> raw option" where
  "found_record B tm k = (case GetTxRecord B (txStore tm) k of Inl _ \<Rightarrow> None | Inr r \<Rightarrow> r)"

definition put_record :: "('db, 'txn) badger \<Rightarrow> 'db TxManager \<Rightarrow> string \<Rightarrow> raw \<Rightarrow> 'db TxManager \<times> bool" where
  "put_record B tm k v =
     (case PutTxRecord B (txStore tm) k v of (s, err) \<Rightarrow> (tm\<lparr> txStore := s \<rparr>, err = None))"

text \<open>\<open>_ = store.DeleteTxRecord(key)\<close>\<close>

definition del_record :: "('db, 'txn) badger \<Rightarrow> 'db TxManager \<Rightarrow> string \<Rightarrow> 'db TxManager" where
  "del_record B tm k = tm\<lparr> txStore := fst (DeleteTxRecord B (txStore tm) k) \<rparr>"

definition lock_keys :: "WriteKey list \<Rightarrow> string \<Rightarrow> (string \<rightharpoonup> string) \<Rightarrow> (string \<rightharpoonup> string)" where
  "lock_keys wks txID L = fold (\<lambda>k m. m(k \<mapsto> txID)) (map wkKey wks) L"

definition unlock_keys :: "WriteKey list \<Rightarrow> (string \<rightharpoonup> string) \<Rightarrow> (string \<rightharpoonup> string)" where
  "unlock_keys wks L = fold (\<lambda>k m. m(k := None)) (map wkKey wks) L"

definition write_ops :: "preparedTxRecord \<Rightarrow> WriteBatchOp list" where
  "write_ops rec =
     map (\<lambda>wk. \<lparr> wKey = wkKey wk, wValue = wkValue wk, wExpectedVersion = wkVersion wk,
                 wExpires = 0, wIsDelete = wkIsDelete wk \<rparr>) (rWriteKeys rec)"

section \<open>Recovery and lock resolution\<close>

definition queryCoordinatorDecision ::
  "('db, 'txn) badger \<Rightarrow> 'db TxManager \<Rightarrow> preparedTxRecord \<Rightarrow> TxStatus" where
  "queryCoordinatorDecision B tm rec =
     (if rCoordinatorGroupID rec = txGroupID tm
      then (case found_record B tm (txDecisionPrefix @ rTxID rec) of
              None \<Rightarrow> TxStatusUnknown
            | Some decision \<Rightarrow>
                (case unmarshal_decision decision of
                   None \<Rightarrow> TxStatusUnknown | Some d \<Rightarrow> tdDecision d))
      else case txRouter tm of
             None \<Rightarrow> TxStatusUnknown
           | Some router \<Rightarrow>
               (case QueryTxDecisionToGroup router (rCoordinatorGroupID rec) (rTxID rec) of
                  None \<Rightarrow> TxStatusUnknown
                | Some d \<Rightarrow> if d = ''COMMITTED'' then TxStatusCommitted
                            else if d = ''ABORTED'' then TxStatusAborted
                            else TxStatusUnknown))"

definition cleanup_tx :: "('db, 'txn) badger \<Rightarrow> 'db TxManager \<Rightarrow> preparedTxRecord \<Rightarrow> 'db TxManager" where
  "cleanup_tx B tm rec =
     del_record B
       (tm\<lparr> lockTable := unlock_keys (rWriteKeys rec) (lockTable tm),
            preparedTxs := (preparedTxs tm)(rTxID rec := None) \<rparr>)
       (txPreparePrefix @ rTxID rec)"

definition executeCommit ::
  "('db, 'txn) badger \<Rightarrow> 'db TxManager \<Rightarrow> preparedTxRecord \<Rightarrow> 'db TxManager" where
  "executeCommit B tm rec =
     (case WriteBatchWithCASAndRecord B (txStore tm) (write_ops rec)
             (txCommitPrefix @ rTxID rec) mark_data of
        (s, Some e) \<Rightarrow> tm\<lparr> txStore := s \<rparr>
      | (s, None) \<Rightarrow> cleanup_tx B (tm\<lparr> txStore := s \<rparr>) rec)"

definition executeAbort ::
  "('db, 'txn) badger \<Rightarrow> 'db TxManager \<Rightarrow> preparedTxRecord \<Rightarrow> 'db TxManager" where
  "executeAbort B tm rec =
     (case put_record B tm (txAbortPrefix @ rTxID rec) mark_data of
        (tm', ok) \<Rightarrow> if ok then cleanup_tx B tm' rec else tm')"

text \<open>The body of the loop of \<open>RebuildLockTable\<close> for one record.\<close>

definition rebuild_one ::
  "('db, 'txn) badger \<Rightarrow> string \<times> raw \<Rightarrow> 'db TxManager \<Rightarrow> 'db TxManager" where
  "rebuild_one B kr tm =
     (case unmarshal_prepared (snd kr) of
        None \<Rightarrow> tm
      | Some rec \<Rightarrow>
          if found_record B tm (txCommitPrefix @ rTxID rec) \<noteq> None
          then del_record B tm (txPreparePrefix @ rTxID rec)
          else if found_record B tm (txAbortPrefix @ rTxID rec) \<noteq> None
          then del_record B tm (txPreparePrefix @ rTxID rec)
          else let decision = queryCoordinatorDecision B tm rec
               in if decision = TxStatusCommitted then executeCommit B tm rec
                  else if decision = TxStatusAborted then executeAbort B tm rec
                  else tm\<lparr> lockTable := lock_keys (rWriteKeys rec) (rTxID rec) (lockTable tm),
                           preparedTxs := (preparedTxs tm)(rTxID rec \<mapsto> rec) \<rparr>)"

text \<open>
  \<open>order\<close> is the order in which the loop visits the map of the records, which Go leaves open.
\<close>

definition RebuildLockTable ::
  "('db, 'txn) badger \<Rightarrow> ((string \<times> raw) list \<Rightarrow> (string \<times> raw) list) \<Rightarrow> 'db TxManager
   \<Rightarrow> ('db TxManager \<times> serr option) option" where
  "RebuildLockTable B order tm =
     (if muHeld tm then None
      else let tm0 = tm\<lparr> lockTable := Map.empty, preparedTxs := Map.empty \<rparr>
           in case ScanTxRecordsByPrefix B (txStore tm) txPreparePrefix of
                Inl e \<Rightarrow> Some (tm0, Some e)
              | Inr records \<Rightarrow> Some (fold (rebuild_one B) (order records) tm0, None))"

definition releaseLocksForTxLocked :: "string \<Rightarrow> 'db TxManager \<Rightarrow> 'db TxManager" where
  "releaseLocksForTxLocked txID tm =
     tm\<lparr> lockTable := (\<lambda>k. if lockTable tm k = Some txID then None else lockTable tm k) \<rparr>"

text \<open>Tail of \<open>resolveLockLocked\<close>, once the record of the holder is known.\<close>

definition resolve_decided ::
  "('db, 'txn) badger \<Rightarrow> 'db TxManager \<Rightarrow> preparedTxRecord \<Rightarrow> 'db TxManager \<times> bool" where
  "resolve_decided B tm rec =
     (let decision = queryCoordinatorDecision B tm rec
      in if decision = TxStatusCommitted then (executeCommit B tm rec, True)
         else if decision = TxStatusAborted then (executeAbort B tm rec, True)
         else (tm, False))"

definition resolveLockLocked ::
  "('db, 'txn) badger \<Rightarrow> 'db TxManager \<Rightarrow> string \<Rightarrow> 'db TxManager \<times> bool" where
  "resolveLockLocked B tm txID =
     (if found_record B tm (txCommitPrefix @ txID) \<noteq> None
      then (releaseLocksForTxLocked txID tm, True)
      else if found_record B tm (txAbortPrefix @ txID) \<noteq> None
      then (releaseLocksForTxLocked txID tm, True)
      else case preparedTxs tm txID of
             Some rec \<Rightarrow> resolve_decided B tm rec
           | None \<Rightarrow>
               (case Option.bind (found_record B tm (txPreparePrefix @ txID)) unmarshal_prepared of
                  None \<Rightarrow> (releaseLocksForTxLocked txID tm, True)
                | Some diskRec \<Rightarrow>
                    resolve_decided B (tm\<lparr> preparedTxs := (preparedTxs tm)(txID \<mapsto> diskRec) \<rparr>) diskRec))"

section \<open>Prepare\<close>

text \<open>Step 1: a lock held by another transaction is resolved or refuses the transaction.\<close>

fun check_locks ::
  "('db, 'txn) badger \<Rightarrow> string \<Rightarrow> WriteKey list \<Rightarrow> 'db TxManager \<Rightarrow> 'db TxManager \<times> bool" where
  "check_locks B txID [] tm = (tm, True)"
| "check_locks B txID (wk # wks) tm =
     (case lockTable tm (wkKey wk) of
        None \<Rightarrow> check_locks B txID wks tm
      | Some lockHolder \<Rightarrow>
          if lockHolder = txID then check_locks B txID wks tm
          else case resolveLockLocked B tm lockHolder of
                 (tm', resolved) \<Rightarrow>
                   if \<not> resolved then (tm', False)
                   else case lockTable tm' (wkKey wk) of
                          None \<Rightarrow> check_locks B txID wks tm'
                        | Some holder \<Rightarrow>
                            if holder \<noteq> txID then (tm', False) else check_locks B txID wks tm')"

text \<open>Step 2: the versions of the read set, an expired entry counting as absent.\<close>

fun check_reads ::
  "('db, 'txn) badger \<Rightarrow> int64 \<Rightarrow> 'db Store \<Rightarrow> ReadKey list \<Rightarrow> Err" where
  "check_reads B now s [] = OK"
| "check_reads B now s (rk # rks) =
     (case Get B s (rkKey rk) of
        Inl e \<Rightarrow> ErrWrongLeader
      | Inr cur \<Rightarrow>
          (case (case cur of None \<Rightarrow> None
                 | Some e \<Rightarrow> if expired_at (eExpires e) now then None else Some (eVersion e)) of
             None \<Rightarrow> if rkExpectedVersion rk \<noteq> 0 then ErrTxConflict else check_reads B now s rks
           | Some v \<Rightarrow> if rkExpectedVersion rk \<noteq> v then ErrTxConflict else check_reads B now s rks))"

definition prepare_record :: "int64 \<Rightarrow> PrepareTxArgs \<Rightarrow> preparedTxRecord" where
  "prepare_record now args =
     \<lparr> rTxID = paTxID args, rReadKeys = paReadKeys args, rWriteKeys = paWriteKeys args,
       rPreparedAt = now,
       rTimeoutMs = (if sint (paTimeoutMs args) \<le> 0 then 10000 else paTimeoutMs args),
       rCoordinatorGroupID = paCoordinatorGroupID args,
       rParticipantGroupIDs = paParticipantGroupIDs args \<rparr>"

definition Prepare ::
  "('db, 'txn) badger \<Rightarrow> int64 \<Rightarrow> 'db TxManager \<Rightarrow> PrepareTxArgs \<Rightarrow> ('db TxManager \<times> Err) option" where
  "Prepare B now tm args =
     (if muHeld tm then None
      else case check_locks B (paTxID args) (paWriteKeys args) tm of
             (tm1, free) \<Rightarrow>
               if \<not> free then Some (tm1, ErrTxConflict)
               else let err = check_reads B now (txStore tm1) (paReadKeys args)
                    in if err \<noteq> OK then Some (tm1, err)
                       else let tm2 = tm1\<lparr> lockTable := lock_keys (paWriteKeys args) (paTxID args) (lockTable tm1) \<rparr>;
                                rec = prepare_record now args
                            in case put_record B tm2 (txPreparePrefix @ paTxID args) (marshal_prepared rec) of
                                 (tm3, ok) \<Rightarrow>
                                   if \<not> ok
                                   then Some (tm3\<lparr> lockTable := unlock_keys (paWriteKeys args) (lockTable tm3) \<rparr>,
                                              ErrWrongLeader)
                                   else Some (tm3\<lparr> preparedTxs := (preparedTxs tm3)(paTxID args \<mapsto> rec) \<rparr>, OK))"

section \<open>The decision, commit and abort\<close>

definition RecordDecision ::
  "('db, 'txn) badger \<Rightarrow> 'db TxManager \<Rightarrow> RecordTxDecisionArgs \<Rightarrow> 'db TxManager \<times> Err" where
  "RecordDecision B tm args =
     (if raDecision args \<noteq> TxStatusCommitted \<and> raDecision args \<noteq> TxStatusAborted
      then (tm, ErrTxConflict)
      else case found_record B tm (txDecisionPrefix @ raTxID args) of
             Some raw \<Rightarrow>
               (case unmarshal_decision raw of
                  Some existing \<Rightarrow>
                    if tdDecision existing = raDecision args then (tm, OK) else (tm, ErrTxConflict)
                | None \<Rightarrow> (tm, ErrTxConflict))
           | None \<Rightarrow>
               (case put_record B tm (txDecisionPrefix @ raTxID args)
                       (marshal_decision \<lparr> tdDecision = raDecision args,
                          tdParticipantGroupIDs = raParticipantGroupIDs args,
                          tdWriteKeys = raWriteKeys args \<rparr>) of
                  (tm', ok) \<Rightarrow> (tm', if ok then OK else ErrWrongLeader)))"

text \<open>
  Whether \<open>Commit\<close> refuses because this group coordinates the transaction and has no decision
  to commit on record.
\<close>

definition commit_undecided :: "('db, 'txn) badger \<Rightarrow> 'db TxManager \<Rightarrow> string \<Rightarrow> bool" where
  "commit_undecided B tm txID =
     (case Option.bind (found_record B tm (txPreparePrefix @ txID)) unmarshal_prepared of
        None \<Rightarrow> False
      | Some pending \<Rightarrow>
          rParticipantGroupIDs pending \<noteq> [] \<and> txGroupID tm = rCoordinatorGroupID pending \<and>
          (case Option.bind (found_record B tm (txDecisionPrefix @ txID)) unmarshal_decision of
             None \<Rightarrow> True
           | Some d \<Rightarrow> tdDecision d \<noteq> TxStatusCommitted))"

text \<open>Steps 2 to 4 of \<open>Commit\<close>, with the record of the transaction at hand.\<close>

definition commit_apply ::
  "('db, 'txn) badger \<Rightarrow> 'db TxManager \<Rightarrow> string \<Rightarrow> preparedTxRecord \<Rightarrow> 'db TxManager \<times> Err" where
  "commit_apply B tm txID rec =
     (case WriteBatchWithCASAndRecord B (txStore tm) (write_ops rec) (txCommitPrefix @ txID) mark_data of
        (s, Some e) \<Rightarrow> (tm\<lparr> txStore := s \<rparr>, ErrTxConflict)
      | (s, None) \<Rightarrow>
          (del_record B
             (tm\<lparr> txStore := s,
                  lockTable := unlock_keys (rWriteKeys rec) (lockTable tm),
                  preparedTxs := (preparedTxs tm)(txID := None) \<rparr>)
             (txPreparePrefix @ txID), OK))"

text \<open>The two early returns of the check on the decision leave \<open>tm.mu\<close> locked.\<close>

definition Commit ::
  "('db, 'txn) badger \<Rightarrow> 'db TxManager \<Rightarrow> CommitTxArgs \<Rightarrow> ('db TxManager \<times> Err) option" where
  "Commit B tm args =
     (let txID = caTxID args in
      if muHeld tm then None
      else if found_record B tm (txCommitPrefix @ txID) \<noteq> None then Some (tm, OK)
      else if found_record B tm (txAbortPrefix @ txID) \<noteq> None then Some (tm, ErrTxConflict)
      else if commit_undecided B tm txID then Some (tm\<lparr> muHeld := True \<rparr>, ErrTxConflict)
      else case preparedTxs tm txID of
             Some rec \<Rightarrow> Some (commit_apply B tm txID rec)
           | None \<Rightarrow>
               (case Option.bind (found_record B tm (txPreparePrefix @ txID)) unmarshal_prepared of
                  None \<Rightarrow> Some (tm, ErrTxNotFound)
                | Some diskRec \<Rightarrow>
                    Some (commit_apply B
                      (tm\<lparr> preparedTxs := (preparedTxs tm)(txID \<mapsto> diskRec),
                           lockTable := lock_keys (rWriteKeys diskRec) (rTxID diskRec) (lockTable tm) \<rparr>)
                      txID diskRec)))"

definition Abort ::
  "('db, 'txn) badger \<Rightarrow> 'db TxManager \<Rightarrow> string \<Rightarrow> ('db TxManager \<times> Err) option" where
  "Abort B tm txID =
     (if muHeld tm then None
      else if found_record B tm (txCommitPrefix @ txID) \<noteq> None then Some (tm, ErrTxConflict)
      else if found_record B tm (txAbortPrefix @ txID) \<noteq> None then Some (tm, OK)
      else case put_record B tm (txAbortPrefix @ txID) mark_data of
             (tm1, ok) \<Rightarrow>
               if \<not> ok then Some (tm1, ErrWrongLeader)
               else let tm2 = (case preparedTxs tm1 txID of
                        None \<Rightarrow> tm1
                      | Some rec \<Rightarrow>
                          tm1\<lparr> lockTable :=
                                 (\<lambda>k. if k \<in> wkKey ` set (rWriteKeys rec) \<and> lockTable tm1 k = Some txID
                                      then None else lockTable tm1 k),
                               preparedTxs := (preparedTxs tm1)(txID := None) \<rparr>)
                    in Some (del_record B tm2 (txPreparePrefix @ txID), OK))"

section \<open>Status\<close>

definition plain_status :: "TxStatus \<Rightarrow> Err \<Rightarrow> ResolveTxStatusReply" where
  "plain_status st err =
     \<lparr> rrStatus = st, rrPreparedAt = 0, rrWriteKeys = [], rrErr = err, rrCoordinatorGroupID = 0,
       rrParticipantGroupIDs = [] \<rparr>"

definition tx_timed_out :: "int64 \<Rightarrow> preparedTxRecord \<Rightarrow> bool" where
  "tx_timed_out now rec \<longleftrightarrow>
     rParticipantGroupIDs rec = [] \<and> sint (rTimeoutMs rec) > 0
     \<and> sint now > sint (rPreparedAt rec + rTimeoutMs rec * 1000000)"

definition ResolveTxStatus ::
  "('db, 'txn) badger \<Rightarrow> int64 \<Rightarrow> 'db TxManager \<Rightarrow> string
   \<Rightarrow> ('db TxManager \<times> ResolveTxStatusReply) option" where
  "ResolveTxStatus B now tm txID =
     (case Option.bind (found_record B tm (txDecisionPrefix @ txID)) unmarshal_decision of
        Some d \<Rightarrow> Some (tm, (plain_status (tdDecision d) OK)
                              \<lparr> rrParticipantGroupIDs := tdParticipantGroupIDs d \<rparr>)
      | None \<Rightarrow>
          if found_record B tm (txCommitPrefix @ txID) \<noteq> None
          then Some (tm, plain_status TxStatusCommitted OK)
          else if found_record B tm (txAbortPrefix @ txID) \<noteq> None
          then Some (tm, plain_status TxStatusAborted OK)
          else case found_record B tm (txPreparePrefix @ txID) of
                 None \<Rightarrow> Some (tm, plain_status TxStatusNotFound ErrTxNotFound)
               | Some raw \<Rightarrow>
                   (case unmarshal_prepared raw of
                      None \<Rightarrow> Some (tm, plain_status TxStatusNotFound ErrTxNotFound)
                    | Some rec \<Rightarrow>
                        if tx_timed_out now rec
                        then (if muHeld tm then None
                              else let tm1 = releaseLocksForTxLocked txID tm;
                                       tm2 = tm1\<lparr> preparedTxs := (preparedTxs tm1)(txID := None) \<rparr>;
                                       tm3 = fst (put_record B tm2 (txAbortPrefix @ txID) mark_data)
                                   in Some (del_record B tm3 (txPreparePrefix @ txID),
                                            plain_status TxStatusAborted OK))
                        else Some (tm, \<lparr> rrStatus = TxStatusPrepared, rrPreparedAt = rPreparedAt rec,
                                         rrWriteKeys = rWriteKeys rec, rrErr = OK,
                                         rrCoordinatorGroupID = rCoordinatorGroupID rec,
                                         rrParticipantGroupIDs = rParticipantGroupIDs rec \<rparr>)))"

section \<open>Recovery of the coordinator\<close>

text \<open>A call of \<open>retryCommitForRecoveredTx\<close> that the recovery starts in the background.\<close>

record retryTask =
  tkTxID :: string
  tkParticipants :: "goint list"
  tkWriteKeysByGroup :: "goint \<Rightarrow> WriteKey list"

definition all_completed :: "('db, 'txn) badger \<Rightarrow> 'db TxManager \<Rightarrow> string \<Rightarrow> goint list \<Rightarrow> bool" where
  "all_completed B tm txID gids =
     list_all (\<lambda>gid. gid = txGroupID tm \<and> found_record B tm (txCommitPrefix @ txID) \<noteq> None) gids"

definition recover_one ::
  "('db, 'txn) badger \<Rightarrow> 'db TxManager \<Rightarrow> Router \<Rightarrow> string \<times> raw \<Rightarrow> retryTask option" where
  "recover_one B tm router kr =
     (let txID = drop (length (txKeyPrefix @ txDecisionPrefix)) (fst kr) in
      case unmarshal_decision (snd kr) of
        None \<Rightarrow> None
      | Some rec \<Rightarrow>
          if tdDecision rec \<noteq> TxStatusCommitted then None
          else if all_completed B tm txID (tdParticipantGroupIDs rec) then None
          else map_option (\<lambda>wks. \<lparr> tkTxID = txID, tkParticipants = tdParticipantGroupIDs rec,
                                   tkWriteKeysByGroup = (\<lambda>g. filter (\<lambda>wk. Resolve router (wkKey wk) = g) wks) \<rparr>)
                 (if tdWriteKeys rec \<noteq> [] then Some (tdWriteKeys rec)
                  else map_option rWriteKeys
                         (Option.bind (found_record B tm (txPreparePrefix @ txID)) unmarshal_prepared)))"

definition RecoverCoordinatorTransactions ::
  "('db, 'txn) badger \<Rightarrow> ((string \<times> raw) list \<Rightarrow> (string \<times> raw) list) \<Rightarrow> 'db TxManager \<Rightarrow> Router
   \<Rightarrow> retryTask list" where
  "RecoverCoordinatorTransactions B order tm router =
     (case ScanTxRecordsByPrefix B (txStore tm) txDecisionPrefix of
        Inl e \<Rightarrow> []
      | Inr decisions \<Rightarrow> List.map_filter (recover_one B tm router) (order decisions))"

definition SetRouterAndRecover ::
  "('db, 'txn) badger \<Rightarrow> ((string \<times> raw) list \<Rightarrow> (string \<times> raw) list) \<Rightarrow> 'db TxManager \<Rightarrow> Router
   \<Rightarrow> ('db TxManager \<times> retryTask list) option" where
  "SetRouterAndRecover B order tm router =
     (if muHeld tm then None
      else case txRouter tm of
             Some _ \<Rightarrow> Some (tm, [])
           | None \<Rightarrow>
               let tm' = tm\<lparr> txRouter := Some router \<rparr>
               in Some (tm', RecoverCoordinatorTransactions B order tm' router))"

end
