(* ===== verification/Tx_Safety.thy ===== *)
theory Tx_Safety
  imports Tx_Manager
begin

text \<open>
  Safety of the transaction participant of \<open>Tx_Manager\<close>: the invariant of the lock table and of
  the prepared transactions, kept by every operation whatever Badger returns; that a transaction
  is never both committed and aborted; what a successful \<open>Prepare\<close> and a successful \<open>Commit\<close>
  guarantee; recovery of the lock table; and the mutex that \<open>Commit\<close> may leave locked.
\<close>

section \<open>Record keys\<close>

abbreviation prep_key :: "string \<Rightarrow> string" where "prep_key t \<equiv> txKeyPrefix @ txPreparePrefix @ t"
abbreviation commit_key :: "string \<Rightarrow> string" where "commit_key t \<equiv> txKeyPrefix @ txCommitPrefix @ t"
abbreviation abort_key :: "string \<Rightarrow> string" where "abort_key t \<equiv> txKeyPrefix @ txAbortPrefix @ t"
abbreviation decision_key :: "string \<Rightarrow> string" where "decision_key t \<equiv> txKeyPrefix @ txDecisionPrefix @ t"

lemma prefix_neq [simp]:
  "txPreparePrefix @ a \<noteq> txCommitPrefix @ b" "txPreparePrefix @ a \<noteq> txAbortPrefix @ b"
  "txPreparePrefix @ a \<noteq> txDecisionPrefix @ b" "txCommitPrefix @ a \<noteq> txPreparePrefix @ b"
  "txCommitPrefix @ a \<noteq> txAbortPrefix @ b" "txCommitPrefix @ a \<noteq> txDecisionPrefix @ b"
  "txAbortPrefix @ a \<noteq> txPreparePrefix @ b" "txAbortPrefix @ a \<noteq> txCommitPrefix @ b"
  "txAbortPrefix @ a \<noteq> txDecisionPrefix @ b" "txDecisionPrefix @ a \<noteq> txPreparePrefix @ b"
  "txDecisionPrefix @ a \<noteq> txCommitPrefix @ b" "txDecisionPrefix @ a \<noteq> txAbortPrefix @ b"
  by (simp_all add: txPrefix_defs)

lemma is_tx_key_record [simp]: "is_tx_key (txKeyPrefix @ k)"
  by (simp add: is_tx_key_def)

lemma user_key_neq: "\<not> is_tx_key k \<Longrightarrow> k \<noteq> txKeyPrefix @ r"
  by auto

section \<open>The lock table\<close>

lemma lock_keys_apply: "lock_keys wks t L k = (if k \<in> wkKey ` set wks then Some t else L k)"
  by (simp add: lock_keys_def fold_map_upd_const)

lemma unlock_keys_apply: "unlock_keys wks L k = (if k \<in> wkKey ` set wks then None else L k)"
  by (simp add: unlock_keys_def restrict_map_upd_fold_None)

definition rec_keys :: "preparedTxRecord \<Rightarrow> string set" where
  "rec_keys rec = wkKey ` set (rWriteKeys rec)"

lemma write_ops_keys: "wKey ` set (write_ops rec) = rec_keys rec"
  by (force simp: write_ops_def rec_keys_def)

text \<open>What the store of a manager holds.\<close>

definition held :: "('db \<Rightarrow> string \<Rightarrow> raw option) \<Rightarrow> 'db TxManager \<Rightarrow> string \<Rightarrow> raw option" where
  "held content tm = content (sdb (txStore tm))"

definition prep_on_disk ::
  "('db \<Rightarrow> string \<Rightarrow> raw option) \<Rightarrow> 'db TxManager \<Rightarrow> string \<Rightarrow> preparedTxRecord \<Rightarrow> bool" where
  "prep_on_disk content tm t rec \<longleftrightarrow>
     (\<exists>raw. held content tm (prep_key t) = Some raw \<and> unmarshal_prepared raw = Some rec)"

text \<open>
  The invariant: the holder of a lock is a prepared transaction that writes the key; a prepared
  transaction is on disk as it is in memory; a prepare record on disk is under its own
  transaction's key and writes user keys only.
\<close>

definition tx_inv :: "('db \<Rightarrow> string \<Rightarrow> raw option) \<Rightarrow> 'db TxManager \<Rightarrow> bool" where
  "tx_inv content tm \<longleftrightarrow>
     (\<forall>k t. lockTable tm k = Some t \<longrightarrow> (\<exists>rec. preparedTxs tm t = Some rec \<and> k \<in> rec_keys rec)) \<and>
     (\<forall>t rec. preparedTxs tm t = Some rec \<longrightarrow> prep_on_disk content tm t rec) \<and>
     (\<forall>t rec. prep_on_disk content tm t rec \<longrightarrow> rTxID rec = t \<and> (\<forall>k \<in> rec_keys rec. \<not> is_tx_key k))"

lemma tx_inv_lock: "tx_inv content tm \<Longrightarrow> lockTable tm k = Some t
  \<Longrightarrow> \<exists>rec. preparedTxs tm t = Some rec \<and> k \<in> rec_keys rec"
  by (simp add: tx_inv_def)

lemma tx_inv_cached: "tx_inv content tm \<Longrightarrow> preparedTxs tm t = Some rec \<Longrightarrow> prep_on_disk content tm t rec"
  by (simp add: tx_inv_def)

lemma tx_inv_disk: "tx_inv content tm \<Longrightarrow> prep_on_disk content tm t rec
  \<Longrightarrow> rTxID rec = t \<and> (\<forall>k \<in> rec_keys rec. \<not> is_tx_key k)"
  by (simp add: tx_inv_def)

text \<open>Releasing locks, forgetting transactions and removing records keep the invariant.\<close>

lemma tx_inv_shrink:
  assumes "tx_inv content tm"
    and "\<And>k t. lockTable tm' k = Some t \<Longrightarrow> lockTable tm k = Some t \<and> preparedTxs tm' t = preparedTxs tm t"
    and "\<And>t rec. preparedTxs tm' t = Some rec \<Longrightarrow> preparedTxs tm t = Some rec
           \<and> held content tm' (prep_key t) = held content tm (prep_key t)"
    and "\<And>t. held content tm' (prep_key t) = held content tm (prep_key t) \<or> held content tm' (prep_key t) = None"
  shows "tx_inv content tm'"
  unfolding tx_inv_def
proof (intro conjI allI impI)
  fix k t assume "lockTable tm' k = Some t"
  then show "\<exists>rec. preparedTxs tm' t = Some rec \<and> k \<in> rec_keys rec"
    using assms(1,2) tx_inv_lock by metis
next
  fix t rec assume "preparedTxs tm' t = Some rec"
  then show "prep_on_disk content tm' t rec"
    using assms(3) tx_inv_cached [OF assms(1)] by (auto simp: prep_on_disk_def)
next
  fix t rec assume "prep_on_disk content tm' t rec"
  then have "prep_on_disk content tm t rec" using assms(4) [of t] by (auto simp: prep_on_disk_def)
  then show "rTxID rec = t" "\<forall>k \<in> rec_keys rec. \<not> is_tx_key k" using tx_inv_disk [OF assms(1)] by blast+
qed

lemma tx_inv_same:
  assumes "tx_inv content tm" "lockTable tm' = lockTable tm" "preparedTxs tm' = preparedTxs tm"
    "\<And>t. held content tm' (prep_key t) = held content tm (prep_key t)"
  shows "tx_inv content tm'"
  by (rule tx_inv_shrink [OF assms(1)]) (use assms(2-) in auto)

section \<open>What the parts of an operation change\<close>

lemma held_simps [simp]:
  "held content (tm\<lparr> lockTable := L \<rparr>) = held content tm"
  "held content (tm\<lparr> preparedTxs := P \<rparr>) = held content tm"
  "held content (tm\<lparr> muHeld := m \<rparr>) = held content tm"
  "held content (tm\<lparr> txRouter := r \<rparr>) = held content tm"
  by (simp_all add: held_def)

lemma del_record_frame [simp]:
  "lockTable (del_record B tm k) = lockTable tm" "preparedTxs (del_record B tm k) = preparedTxs tm"
  "txGroupID (del_record B tm k) = txGroupID tm" "txRouter (del_record B tm k) = txRouter tm"
  "muHeld (del_record B tm k) = muHeld tm"
  by (simp_all add: del_record_def)

lemma put_record_frame:
  assumes "put_record B tm k v = (tm', ok)"
  shows "lockTable tm' = lockTable tm" "preparedTxs tm' = preparedTxs tm"
    "txGroupID tm' = txGroupID tm" "txRouter tm' = txRouter tm" "muHeld tm' = muHeld tm"
  using assms by (auto simp: put_record_def split: prod.splits)

context badger
begin

lemma found_record_held: "found_record B tm k = Some r \<Longrightarrow> held content tm (txKeyPrefix @ k) = Some r"
  by (auto simp: found_record_def held_def split: sum.splits dest: GetTxRecord_ok)

lemma put_record_held:
  assumes "put_record B tm k v = (tm', ok)"
  shows "held content tm' = (if ok then (held content tm)(txKeyPrefix @ k \<mapsto> v) else held content tm)"
proof (cases "PutTxRecord B (txStore tm) k v")
  case (Pair s err)
  then have "tm' = tm\<lparr> txStore := s \<rparr>" "ok = (err = None)" using assms by (auto simp: put_record_def)
  then show ?thesis
    using Pair by (cases err) (auto simp: held_def dest: PutTxRecord_ok dest!: PutTxRecord_error)
qed

lemma del_record_held:
  "held content (del_record B tm k) = held content tm
   \<or> held content (del_record B tm k) = (held content tm)(txKeyPrefix @ k := None)"
proof (cases "DeleteTxRecord B (txStore tm) k")
  case (Pair s err)
  then show ?thesis
    by (cases err)
       (auto simp: held_def del_record_def dest: DeleteTxRecord_ok dest!: DeleteTxRecord_error)
qed

lemma del_record_other: "k' \<noteq> txKeyPrefix @ k \<Longrightarrow> held content (del_record B tm k) k' = held content tm k'"
  using del_record_held [of tm k] by auto

lemma del_record_self: "held content (del_record B tm k) k' = held content tm k'
   \<or> held content (del_record B tm k) k' = None"
  using del_record_held [of tm k] by (auto split: if_splits)

lemma batch_frame:
  "writeBatchWithCASInTxn B t ops = Inr t' \<Longrightarrow> k \<notin> wKey ` set ops \<Longrightarrow> seen t' k = seen t k"
proof (induction ops arbitrary: t)
  case (Cons op ops)
  then obtain u where u: "batch_op B t op = Inr u" "writeBatchWithCASInTxn B u ops = Inr t'"
    by (auto split: sum.splits)
  then show ?case using Cons.IH [OF u(2)] batch_op_seen(3) [OF u(1)] Cons.prems(2) by auto
qed simp

lemma batch_record_frame:
  assumes "WriteBatchWithCASAndRecord B s ops rk data = (s', None)"
    and "k \<notin> wKey ` set ops" "k \<noteq> txKeyPrefix @ rk"
  shows "content (sdb s') k = content (sdb s) k"
  using assms(1) unfolding WriteBatchWithCASAndRecord_def
  by (rule update_store_ok) (use assms(2,3) batch_frame in \<open>fastforce split: sum.splits dest!: set_seen\<close>)

lemma batch_record_mark:
  assumes "WriteBatchWithCASAndRecord B s ops rk data = (s', None)"
  shows "content (sdb s') (txKeyPrefix @ rk) = Some data"
  using assms unfolding WriteBatchWithCASAndRecord_def
  by (rule update_store_ok) (auto split: sum.splits dest!: set_seen)

lemma cleanup_tx_inv:
  assumes "tx_inv content tm" "preparedTxs tm (rTxID rec) = Some rec \<or> preparedTxs tm (rTxID rec) = None"
  shows "tx_inv content (cleanup_tx B tm rec)"
proof (rule tx_inv_shrink [OF assms(1)])
  fix k t assume l: "lockTable (cleanup_tx B tm rec) k = Some t"
  then have k: "k \<notin> rec_keys rec" "lockTable tm k = Some t"
    by (auto simp: cleanup_tx_def unlock_keys_apply rec_keys_def split: if_splits)
  then have "t \<noteq> rTxID rec" using tx_inv_lock [OF assms(1)] assms(2) by fastforce
  then show "lockTable tm k = Some t \<and> preparedTxs (cleanup_tx B tm rec) t = preparedTxs tm t"
    using k by (simp add: cleanup_tx_def)
next
  fix t r assume "preparedTxs (cleanup_tx B tm rec) t = Some r"
  then have t: "t \<noteq> rTxID rec" "preparedTxs tm t = Some r" by (auto simp: cleanup_tx_def split: if_splits)
  then show "preparedTxs tm t = Some r
      \<and> held content (cleanup_tx B tm rec) (prep_key t) = held content tm (prep_key t)"
    by (simp add: cleanup_tx_def del_record_other)
next
  fix t show "held content (cleanup_tx B tm rec) (prep_key t) = held content tm (prep_key t)
      \<or> held content (cleanup_tx B tm rec) (prep_key t) = None"
    unfolding cleanup_tx_def
    by (metis del_record_self held_simps(1,2))
qed

lemma executeCommit_held:
  assumes "WriteBatchWithCASAndRecord B (txStore tm) (write_ops rec) (txCommitPrefix @ t) mark_data = (s, None)"
    and "\<forall>k \<in> rec_keys rec. \<not> is_tx_key k"
  shows "is_tx_key k \<Longrightarrow> held content (tm\<lparr> txStore := s \<rparr>) k
           = (if k = commit_key t then Some mark_data else held content tm k)"
  using batch_record_frame [OF assms(1)] batch_record_mark [OF assms(1)] assms(2)
  by (auto simp: held_def write_ops_keys)

lemma executeCommit_inv:
  assumes "tx_inv content tm" "preparedTxs tm (rTxID rec) = Some rec \<or> preparedTxs tm (rTxID rec) = None"
    and "\<forall>k \<in> rec_keys rec. \<not> is_tx_key k"
  shows "tx_inv content (executeCommit B tm rec)"
proof (cases "WriteBatchWithCASAndRecord B (txStore tm) (write_ops rec) (txCommitPrefix @ rTxID rec) mark_data")
  case (Pair s err)
  show ?thesis
  proof (cases err)
    case None
    have "tx_inv content (tm\<lparr> txStore := s \<rparr>)"
      by (rule tx_inv_same [OF assms(1)])
         (use executeCommit_held [OF Pair [unfolded None] assms(3)] in auto)
    then have "tx_inv content (cleanup_tx B (tm\<lparr> txStore := s \<rparr>) rec)"
      using assms(2) by (intro cleanup_tx_inv) auto
    then show ?thesis using Pair None by (simp add: executeCommit_def)
  next
    case (Some e)
    then have "s = txStore tm" using Pair batch_record_error by blast
    then show ?thesis using Pair Some assms(1) by (simp add: executeCommit_def)
  qed
qed

lemma executeAbort_inv:
  assumes "tx_inv content tm" "preparedTxs tm (rTxID rec) = Some rec \<or> preparedTxs tm (rTxID rec) = None"
  shows "tx_inv content (executeAbort B tm rec)"
proof (cases "put_record B tm (txAbortPrefix @ rTxID rec) mark_data")
  case (Pair tm' ok)
  note f = put_record_frame [OF Pair] put_record_held [OF Pair]
  have "tx_inv content tm'" by (rule tx_inv_same [OF assms(1)]) (use f in auto)
  then show ?thesis using Pair assms(2) f by (auto simp: executeAbort_def intro: cleanup_tx_inv)
qed

end

section \<open>Every operation keeps the invariant\<close>

lemma releaseLocks_frame [simp]:
  "preparedTxs (releaseLocksForTxLocked t tm) = preparedTxs tm"
  "held content (releaseLocksForTxLocked t tm) = held content tm"
  "txStore (releaseLocksForTxLocked t tm) = txStore tm"
  by (simp_all add: releaseLocksForTxLocked_def)

lemma releaseLocks_inv: "tx_inv content tm \<Longrightarrow> tx_inv content (releaseLocksForTxLocked t tm)"
  by (rule tx_inv_shrink) (auto simp: releaseLocksForTxLocked_def held_def split: if_splits)

lemma cleanup_frame:
  "preparedTxs (cleanup_tx B tm rec) = (preparedTxs tm)(rTxID rec := None)"
  by (simp add: cleanup_tx_def)

lemma executeCommit_cache: "t \<noteq> rTxID rec \<Longrightarrow> preparedTxs (executeCommit B tm rec) t = preparedTxs tm t"
  by (auto simp: executeCommit_def cleanup_frame split: prod.splits option.splits)

lemma executeAbort_cache: "t \<noteq> rTxID rec \<Longrightarrow> preparedTxs (executeAbort B tm rec) t = preparedTxs tm t"
  by (auto simp: executeAbort_def cleanup_frame put_record_frame split: prod.splits)

lemma resolve_decided_cache:
  "resolve_decided B tm rec = (tm', r) \<Longrightarrow> t \<noteq> rTxID rec \<Longrightarrow> preparedTxs tm' t = preparedTxs tm t"
  by (auto simp: resolve_decided_def Let_def executeCommit_cache executeAbort_cache split: if_splits)

text \<open>The first loop of \<open>Prepare\<close> only resolves locks of other transactions.\<close>

lemma check_locks_induct:
  assumes "check_locks B t wks tm = (tm', free)" "Q tm"
    "\<And>u h u' r. Q u \<Longrightarrow> h \<noteq> t \<Longrightarrow> resolveLockLocked B u h = (u', r) \<Longrightarrow> Q u'"
  shows "Q tm'"
  using assms(1,2)
proof (induction wks arbitrary: tm)
  case (Cons wk wks)
  show ?case
  proof (cases "lockTable tm (wkKey wk) = None \<or> lockTable tm (wkKey wk) = Some t")
    case True
    then show ?thesis using Cons by auto
  next
    case False
    then obtain h where h: "lockTable tm (wkKey wk) = Some h" "h \<noteq> t" by auto
    obtain u r where u: "resolveLockLocked B tm h = (u, r)" by (cases "resolveLockLocked B tm h")
    have "Q u" using assms(3) [OF Cons.prems(2) h(2) u] .
    then show ?thesis using Cons.prems(1) Cons.IH h u by (auto split: if_splits option.splits)
  qed
qed simp

context badger
begin

lemma resolve_decided_inv:
  assumes "tx_inv content tm" "preparedTxs tm t = Some rec" "resolve_decided B tm rec = (tm', r)"
  shows "tx_inv content tm'"
proof -
  have d: "rTxID rec = t" "\<forall>k \<in> rec_keys rec. \<not> is_tx_key k"
    using tx_inv_disk [OF assms(1) tx_inv_cached [OF assms(1,2)]] by auto
  then show ?thesis
    using assms executeCommit_inv [OF assms(1), of rec] executeAbort_inv [OF assms(1), of rec]
    by (auto simp: resolve_decided_def Let_def split: if_splits)
qed

lemma cache_from_disk:
  assumes "tx_inv content tm"
    "Option.bind (found_record B tm (txPreparePrefix @ t)) unmarshal_prepared = Some rec"
  shows "prep_on_disk content tm t rec" "rTxID rec = t" "\<forall>k \<in> rec_keys rec. \<not> is_tx_key k"
proof -
  show p: "prep_on_disk content tm t rec"
    using assms(2) found_record_held by (fastforce simp: bind_eq_Some_conv prep_on_disk_def)
  show "rTxID rec = t" "\<forall>k \<in> rec_keys rec. \<not> is_tx_key k" using tx_inv_disk [OF assms(1) p] by auto
qed

lemma tx_inv_load:
  assumes "tx_inv content tm" "preparedTxs tm t = None" "prep_on_disk content tm t rec"
  shows "tx_inv content (tm\<lparr> preparedTxs := (preparedTxs tm)(t \<mapsto> rec) \<rparr>)"
proof -
  have "lockTable tm k \<noteq> Some t" for k using tx_inv_lock [OF assms(1), of k t] assms(2) by auto
  then show ?thesis
    using assms(1,3) by (auto simp: tx_inv_def prep_on_disk_def)
qed

lemma resolveLock_inv:
  assumes "tx_inv content tm" "resolveLockLocked B tm h = (tm', r)"
  shows "tx_inv content tm'" and "t \<noteq> h \<Longrightarrow> preparedTxs tm' t = preparedTxs tm t"
proof -
  consider (release) "tm' = releaseLocksForTxLocked h tm"
    | (cached) rec where "preparedTxs tm h = Some rec" "resolve_decided B tm rec = (tm', r)"
    | (disk) rec where "preparedTxs tm h = None"
        "Option.bind (found_record B tm (txPreparePrefix @ h)) unmarshal_prepared = Some rec"
        "resolve_decided B (tm\<lparr> preparedTxs := (preparedTxs tm)(h \<mapsto> rec) \<rparr>) rec = (tm', r)"
    using assms(2) by (auto simp: resolveLockLocked_def split: if_splits option.splits)
  then have "tx_inv content tm' \<and> (t \<noteq> h \<longrightarrow> preparedTxs tm' t = preparedTxs tm t)"
  proof cases
    case release
    then show ?thesis using assms(1) by (simp add: releaseLocks_inv)
  next
    case cached
    have "rTxID rec = h" using tx_inv_disk [OF assms(1) tx_inv_cached [OF assms(1) cached(1)]] by simp
    then show ?thesis using resolve_decided_inv [OF assms(1) cached] resolve_decided_cache [OF cached(2)] by simp
  next
    case disk
    note c = cache_from_disk [OF assms(1) disk(2)]
    let ?u = "tm\<lparr> preparedTxs := (preparedTxs tm)(h \<mapsto> rec) \<rparr>"
    have u: "tx_inv content ?u" "preparedTxs ?u h = Some rec"
      using tx_inv_load [OF assms(1) disk(1) c(1)] by simp_all
    show ?thesis using resolve_decided_inv [OF u disk(3)] resolve_decided_cache [OF disk(3)] c(2) by simp
  qed
  then show "tx_inv content tm'" "t \<noteq> h \<Longrightarrow> preparedTxs tm' t = preparedTxs tm t" by auto
qed

lemma check_locks_inv:
  assumes "check_locks B t wks tm = (tm', free)" "tx_inv content tm"
  shows "tx_inv content tm'" and "preparedTxs tm' t = preparedTxs tm t"
proof -
  let ?Q = "\<lambda>u. tx_inv content u \<and> preparedTxs u t = preparedTxs tm t"
  have "?Q tm'" by (rule check_locks_induct [OF assms(1)]) (use assms(2) resolveLock_inv in auto)
  then show "tx_inv content tm'" "preparedTxs tm' t = preparedTxs tm t" by auto
qed

end

text \<open>
  A request to prepare is well-formed when it writes user keys only and, when its transaction
  is already prepared, writes at least the same keys (a retry).
\<close>

definition prepare_wf :: "'db TxManager \<Rightarrow> PrepareTxArgs \<Rightarrow> bool" where
  "prepare_wf tm args \<longleftrightarrow>
     (\<forall>wk \<in> set (paWriteKeys args). \<not> is_tx_key (wkKey wk)) \<and>
     (\<forall>rec. preparedTxs tm (paTxID args) = Some rec \<longrightarrow> rec_keys rec \<subseteq> wkKey ` set (paWriteKeys args))"

text \<open>How \<open>Prepare\<close> ends.\<close>

lemma Prepare_cases:
  assumes "Prepare B now tm args = Some (tm', err)"
  obtains (refused) free where "check_locks B (paTxID args) (paWriteKeys args) tm = (tm', free)" "err \<noteq> OK"
  | (failed) tm1 tm3 where "check_locks B (paTxID args) (paWriteKeys args) tm = (tm1, True)"
      "err = ErrWrongLeader"
      "put_record B (tm1\<lparr> lockTable := lock_keys (paWriteKeys args) (paTxID args) (lockTable tm1) \<rparr>)
         (txPreparePrefix @ paTxID args) (marshal_prepared (prepare_record now args)) = (tm3, False)"
      "tm' = tm3\<lparr> lockTable := unlock_keys (paWriteKeys args) (lockTable tm3) \<rparr>"
  | (prepared) tm1 tm3 where "check_locks B (paTxID args) (paWriteKeys args) tm = (tm1, True)"
      "err = OK" "check_reads B now (txStore tm1) (paReadKeys args) = OK"
      "put_record B (tm1\<lparr> lockTable := lock_keys (paWriteKeys args) (paTxID args) (lockTable tm1) \<rparr>)
         (txPreparePrefix @ paTxID args) (marshal_prepared (prepare_record now args)) = (tm3, True)"
      "tm' = tm3\<lparr> preparedTxs := (preparedTxs tm3)(paTxID args \<mapsto> prepare_record now args) \<rparr>"
proof -
  obtain tm1 free where c: "check_locks B (paTxID args) (paWriteKeys args) tm = (tm1, free)"
    by (cases "check_locks B (paTxID args) (paWriteKeys args) tm")
  obtain tm3 ok where p: "put_record B (tm1\<lparr> lockTable := lock_keys (paWriteKeys args) (paTxID args) (lockTable tm1) \<rparr>)
         (txPreparePrefix @ paTxID args) (marshal_prepared (prepare_record now args)) = (tm3, ok)"
    by (cases "put_record B (tm1\<lparr> lockTable := lock_keys (paWriteKeys args) (paTxID args) (lockTable tm1) \<rparr>)
         (txPreparePrefix @ paTxID args) (marshal_prepared (prepare_record now args))")
  consider "\<not> free" | "free" "check_reads B now (txStore tm1) (paReadKeys args) \<noteq> OK"
    | "free" "check_reads B now (txStore tm1) (paReadKeys args) = OK" "\<not> ok"
    | "free" "check_reads B now (txStore tm1) (paReadKeys args) = OK" "ok" by blast
  then show thesis
  proof cases
    case 1 then show thesis using assms c by (intro refused [of False]) (auto simp: Prepare_def split: if_splits)
  next
    case 2 then show thesis using assms c by (intro refused [of True]) (auto simp: Prepare_def Let_def split: if_splits)
  next
    case 3 then show thesis using assms c p by (intro failed [of tm1 tm3]) (auto simp: Prepare_def Let_def split: if_splits)
  next
    case 4 then show thesis using assms c p by (intro prepared [of tm1 tm3]) (auto simp: Prepare_def Let_def split: if_splits)
  qed
qed

lemma prepare_record_simps [simp]:
  "rTxID (prepare_record now args) = paTxID args" "rWriteKeys (prepare_record now args) = paWriteKeys args"
  "rReadKeys (prepare_record now args) = paReadKeys args"
  by (simp_all add: prepare_record_def)

context badger
begin

lemma Prepare_inv:
  assumes "tx_inv content tm" "Prepare B now tm args = Some (tm', err)" "prepare_wf tm args"
  shows "tx_inv content tm'"
  using assms(2)
proof (cases rule: Prepare_cases)
  case (refused free)
  then show ?thesis using check_locks_inv(1) assms(1) by blast
next
  case (failed tm1 tm3)
  have i: "tx_inv content tm1" using check_locks_inv(1) [OF failed(1) assms(1)] .
  note f = put_record_frame [OF failed(3)] put_record_held [OF failed(3)]
  show ?thesis
    by (rule tx_inv_shrink [OF i])
       (use f failed(4) in \<open>auto simp: unlock_keys_apply lock_keys_apply held_def split: if_splits\<close>)
next
  case (prepared tm1 tm3)
  have i: "tx_inv content tm1" and c: "preparedTxs tm1 (paTxID args) = preparedTxs tm (paTxID args)"
    using check_locks_inv [OF prepared(1) assms(1)] by auto
  note f = put_record_frame [OF prepared(4)] put_record_held [OF prepared(4)]
  let ?rec = "prepare_record now args"
  have h: "held content tm' = (held content tm1)(prep_key (paTxID args) \<mapsto> marshal_prepared ?rec)"
    using f prepared(5) by simp
  have pd: "prep_on_disk content tm' t rec \<longleftrightarrow>
      (if t = paTxID args then rec = ?rec else prep_on_disk content tm1 t rec)" for t rec
    by (auto simp: prep_on_disk_def h codec_simps)
  have locks: "\<exists>rec. preparedTxs tm' t = Some rec \<and> k \<in> rec_keys rec"
    if l: "lockTable tm' k = Some t" for k t
  proof (cases "k \<in> wkKey ` set (paWriteKeys args)")
    case True
    then have "t = paTxID args" using l f prepared(5) by (simp add: lock_keys_apply)
    then show ?thesis using True prepared(5) by (simp add: rec_keys_def)
  next
    case False
    then have "lockTable tm1 k = Some t" using l f prepared(5) by (simp add: lock_keys_apply)
    then obtain rec where rec: "preparedTxs tm1 t = Some rec" "k \<in> rec_keys rec"
      using tx_inv_lock [OF i] by blast
    have "t \<noteq> paTxID args" using rec False c assms(3) by (auto simp: prepare_wf_def)
    then show ?thesis using rec f prepared(5) by simp
  qed
  show ?thesis
    unfolding tx_inv_def pd
    using locks tx_inv_cached [OF i] tx_inv_disk [OF i] f prepared(5) assms(3)
    by (auto simp: prepare_wf_def rec_keys_def)
qed

lemma commit_apply_inv:
  assumes "tx_inv content tm" "preparedTxs tm t = Some rec" "commit_apply B tm t rec = (tm', err)"
  shows "tx_inv content tm'"
proof -
  have d: "rTxID rec = t" "\<forall>k \<in> rec_keys rec. \<not> is_tx_key k"
    using tx_inv_disk [OF assms(1) tx_inv_cached [OF assms(1,2)]] by auto
  have "tm' = executeCommit B tm rec"
    using assms(3) d(1) by (auto simp: commit_apply_def executeCommit_def cleanup_tx_def split: prod.splits option.splits)
  then show ?thesis using executeCommit_inv [OF assms(1) _ d(2)] assms(2) d(1) by simp
qed

lemma Commit_cases:
  assumes "Commit B tm args = Some (tm', err)"
  obtains (same) "tm' = tm" "err \<noteq> OK \<or> found_record B tm (txCommitPrefix @ caTxID args) \<noteq> None"
  | (stuck) "tm' = tm\<lparr> muHeld := True \<rparr>" "err = ErrTxConflict" "commit_undecided B tm (caTxID args)"
  | (cached) rec where "found_record B tm (txCommitPrefix @ caTxID args) = None"
      "found_record B tm (txAbortPrefix @ caTxID args) = None" "\<not> commit_undecided B tm (caTxID args)"
      "preparedTxs tm (caTxID args) = Some rec" "commit_apply B tm (caTxID args) rec = (tm', err)"
  | (disk) rec where "found_record B tm (txCommitPrefix @ caTxID args) = None"
      "found_record B tm (txAbortPrefix @ caTxID args) = None" "\<not> commit_undecided B tm (caTxID args)"
      "preparedTxs tm (caTxID args) = None"
      "Option.bind (found_record B tm (txPreparePrefix @ caTxID args)) unmarshal_prepared = Some rec"
      "commit_apply B (tm\<lparr> preparedTxs := (preparedTxs tm)(caTxID args \<mapsto> rec),
         lockTable := lock_keys (rWriteKeys rec) (rTxID rec) (lockTable tm) \<rparr>) (caTxID args) rec = (tm', err)"
proof (cases "found_record B tm (txCommitPrefix @ caTxID args) = None \<and> found_record B tm (txAbortPrefix @ caTxID args) = None
    \<and> \<not> commit_undecided B tm (caTxID args)")
  case False
  then show thesis using assms same stuck by (simp add: Commit_def Let_def split: if_split_asm)
next
  case undec: True
  show thesis
  proof (cases "preparedTxs tm (caTxID args)")
    case (Some rec)
    then show thesis using assms undec cached by (simp add: Commit_def Let_def split: if_split_asm)
  next
    case None
    then show thesis
      using assms undec same disk
      by (cases "Option.bind (found_record B tm (txPreparePrefix @ caTxID args)) unmarshal_prepared")
         (simp_all add: Commit_def Let_def split: if_split_asm)
  qed
qed

lemma tx_inv_reload:
  assumes "tx_inv content tm" "prep_on_disk content tm t rec" "preparedTxs tm t = None"
  shows "tx_inv content (tm\<lparr> preparedTxs := (preparedTxs tm)(t \<mapsto> rec),
           lockTable := lock_keys (rWriteKeys rec) (rTxID rec) (lockTable tm) \<rparr>)"
proof -
  have "lockTable tm k \<noteq> Some t" for k using tx_inv_lock [OF assms(1), of k t] assms(3) by auto
  moreover have "rTxID rec = t" using tx_inv_disk [OF assms(1,2)] by simp
  ultimately show ?thesis
    using assms(1,2) by (auto simp: tx_inv_def prep_on_disk_def lock_keys_apply rec_keys_def)
qed

lemma Commit_inv:
  assumes "tx_inv content tm" "Commit B tm args = Some (tm', err)"
  shows "tx_inv content tm'"
  using assms(2)
proof (cases rule: Commit_cases)
  case stuck
  then show ?thesis by (intro tx_inv_same [OF assms(1)]) auto
next
  case (disk rec)
  note c = cache_from_disk [OF assms(1) disk(5)]
  show ?thesis
    by (rule commit_apply_inv [OF tx_inv_reload [OF assms(1) c(1) disk(4)] _ disk(6)]) simp
qed (use assms(1) commit_apply_inv in auto)

lemma Abort_inv:
  assumes "tx_inv content tm" "Abort B tm t = Some (tm', err)"
  shows "tx_inv content tm'"
proof (cases "put_record B tm (txAbortPrefix @ t) mark_data")
  case (Pair tm1 ok)
  note f = put_record_frame [OF Pair] put_record_held [OF Pair]
  have i1: "tx_inv content tm1" by (rule tx_inv_same [OF assms(1)]) (use f in auto)
  define tm2 where "tm2 = (case preparedTxs tm1 t of None \<Rightarrow> tm1
      | Some rec \<Rightarrow> tm1\<lparr> lockTable := (\<lambda>k. if k \<in> wkKey ` set (rWriteKeys rec) \<and> lockTable tm1 k = Some t
                                      then None else lockTable tm1 k),
                         preparedTxs := (preparedTxs tm1)(t := None) \<rparr>)"
  have "tx_inv content (del_record B tm2 (txPreparePrefix @ t))"
  proof (rule tx_inv_shrink [OF i1])
    show "lockTable tm1 k = Some t' \<and> preparedTxs (del_record B tm2 (txPreparePrefix @ t)) t' = preparedTxs tm1 t'"
      if "lockTable (del_record B tm2 (txPreparePrefix @ t)) k = Some t'" for k t'
      using that tx_inv_lock [OF i1, of k t]
      by (auto simp: tm2_def rec_keys_def split: option.splits if_splits)
    have h2: "held content tm2 = held content tm1" by (simp add: tm2_def split: option.split)
    show "preparedTxs tm1 t' = Some rec
        \<and> held content (del_record B tm2 (txPreparePrefix @ t)) (prep_key t') = held content tm1 (prep_key t')"
      if "preparedTxs (del_record B tm2 (txPreparePrefix @ t)) t' = Some rec" for t' rec
    proof -
      have "t' \<noteq> t" "preparedTxs tm1 t' = Some rec" using that by (auto simp: tm2_def split: option.splits if_splits)
      then show ?thesis using h2 by (simp add: del_record_other)
    qed
    show "held content (del_record B tm2 (txPreparePrefix @ t)) (prep_key t') = held content tm1 (prep_key t')
        \<or> held content (del_record B tm2 (txPreparePrefix @ t)) (prep_key t') = None" for t'
      using del_record_self h2 by metis
  qed
  then show ?thesis
    using assms Pair i1 by (auto simp: Abort_def Let_def tm2_def split: if_splits)
qed

lemma ResolveTxStatus_inv:
  assumes "tx_inv content tm" "ResolveTxStatus B now tm t = Some (tm', r)"
  shows "tx_inv content tm'"
proof -
  let ?u = "(releaseLocksForTxLocked t tm)\<lparr> preparedTxs := (preparedTxs tm)(t := None) \<rparr>"
  obtain u2 ok where p: "put_record B ?u (txAbortPrefix @ t) mark_data = (u2, ok)"
    by (cases "put_record B ?u (txAbortPrefix @ t) mark_data")
  note f = put_record_frame [OF p] put_record_held [OF p]
  have h: "held content u2 (prep_key t') = held content tm (prep_key t')" for t'
    using f by simp
  have "tx_inv content (del_record B u2 (txPreparePrefix @ t))"
  proof (rule tx_inv_shrink [OF assms(1)])
    show "lockTable tm k = Some t' \<and> preparedTxs (del_record B u2 (txPreparePrefix @ t)) t' = preparedTxs tm t'"
      if "lockTable (del_record B u2 (txPreparePrefix @ t)) k = Some t'" for k t'
      using that f by (auto simp: releaseLocksForTxLocked_def split: if_splits)
    show "preparedTxs tm t' = Some rec
        \<and> held content (del_record B u2 (txPreparePrefix @ t)) (prep_key t') = held content tm (prep_key t')"
      if "preparedTxs (del_record B u2 (txPreparePrefix @ t)) t' = Some rec" for t' rec
      using that f h by (auto simp: del_record_other split: if_splits)
    show "held content (del_record B u2 (txPreparePrefix @ t)) (prep_key t') = held content tm (prep_key t')
        \<or> held content (del_record B u2 (txPreparePrefix @ t)) (prep_key t') = None" for t'
      using del_record_self h by metis
  qed
  then show ?thesis
    using assms p by (auto simp: ResolveTxStatus_def Let_def split: if_splits option.splits)
qed

lemma RecordDecision_inv:
  assumes "tx_inv content tm" "RecordDecision B tm args = (tm', err)"
  shows "tx_inv content tm'"
proof -
  obtain u ok where p: "put_record B tm (txDecisionPrefix @ raTxID args)
      (marshal_decision \<lparr> tdDecision = raDecision args, tdParticipantGroupIDs = raParticipantGroupIDs args,
         tdWriteKeys = raWriteKeys args \<rparr>) = (u, ok)" by fastforce
  note f = put_record_frame [OF p] put_record_held [OF p]
  have "tx_inv content u" by (rule tx_inv_same [OF assms(1)]) (use f in auto)
  then show ?thesis
    using assms p by (auto simp: RecordDecision_def split: if_splits option.splits prod.splits)
qed

end

section \<open>Rebuilding the lock table\<close>

lemma iter_values_map: "iter_values its = Inr kvs \<Longrightarrow> its = map (\<lambda>(k, v). (k, Inr v)) kvs"
  by (induction its arbitrary: kvs rule: iter_values.induct) (auto split: sum.splits)

context badger
begin

lemma ScanTxRecords_set:
  assumes "ScanTxRecordsByPrefix B s p = Inr records"
  shows "distinct (map fst records)"
    and "(k, v) \<in> set records \<longleftrightarrow> prefix (txKeyPrefix @ p) k \<and> content (sdb s) k = Some v"
proof -
  from assms obtain t where t: "seen t = content (sdb s)"
    "iter_values (txn_Iterate B t (txKeyPrefix @ p)) = Inr records"
    unfolding ScanTxRecordsByPrefix_def by (rule view_ok)
  let ?its = "txn_Iterate B t (txKeyPrefix @ p)"
  have its: "?its = map (\<lambda>(k, v). (k, Inr v)) records" using iter_values_map [OF t(2)] .
  show d: "distinct (map fst records)"
    using iterate_distinct [of t "txKeyPrefix @ p"] unfolding its by (simp add: comp_def case_prod_unfold)
  have "map_of ?its k = map_option Inr (map_of records k)" unfolding its by (induction records) auto
  moreover have "map_of ?its k = (if prefix (txKeyPrefix @ p) k then map_option Inr (seen t k) else None)"
    by (rule iterate_map_of) (auto simp: its)
  ultimately have "map_of records k = (if prefix (txKeyPrefix @ p) k then seen t k else None)"
    by (cases "map_of records k"; cases "seen t k") (auto split: if_splits)
  then show "(k, v) \<in> set records \<longleftrightarrow> prefix (txKeyPrefix @ p) k \<and> content (sdb s) k = Some v"
    using t(1) map_of_eq_Some_iff [OF d, of k v] by (simp split: if_splits)
qed

lemma cleanup_other: "t \<noteq> rTxID rec \<Longrightarrow> held content (cleanup_tx B tm rec) (prep_key t) = held content tm (prep_key t)"
  by (simp add: cleanup_tx_def del_record_other)

lemma executeCommit_other:
  assumes "\<forall>k \<in> rec_keys rec. \<not> is_tx_key k" "t \<noteq> rTxID rec"
  shows "held content (executeCommit B tm rec) (prep_key t) = held content tm (prep_key t)"
proof (cases "WriteBatchWithCASAndRecord B (txStore tm) (write_ops rec) (txCommitPrefix @ rTxID rec) mark_data")
  case (Pair s err)
  then show ?thesis
    using assms(2) executeCommit_held [OF _ assms(1), of tm "rTxID rec" s]
    by (cases err) (auto simp: executeCommit_def cleanup_other dest!: batch_record_error)
qed

lemma executeAbort_other: "t \<noteq> rTxID rec \<Longrightarrow> held content (executeAbort B tm rec) (prep_key t) = held content tm (prep_key t)"
  by (auto simp: executeAbort_def cleanup_other put_record_held split: prod.splits)

lemma rebuild_one_other:
  assumes "unmarshal_prepared (snd kr) = Some rec" "\<forall>k \<in> rec_keys rec. \<not> is_tx_key k" "t \<noteq> rTxID rec"
  shows "held content (rebuild_one B kr tm) (prep_key t) = held content tm (prep_key t)"
    and "preparedTxs (rebuild_one B kr tm) t = preparedTxs tm t"
  using assms executeCommit_other [OF assms(2,3)] executeAbort_other [OF assms(3)]
  by (auto simp: rebuild_one_def Let_def del_record_other executeCommit_cache executeAbort_cache)

lemma rebuild_one_inv:
  assumes "tx_inv content tm" "held content tm (prep_key t) = Some (snd kr)"
    "preparedTxs tm t = None" "unmarshal_prepared (snd kr) = Some rec"
  shows "tx_inv content (rebuild_one B kr tm)"
proof -
  have d: "prep_on_disk content tm t rec" using assms(2,4) by (auto simp: prep_on_disk_def)
  then have r: "rTxID rec = t" "\<forall>k \<in> rec_keys rec. \<not> is_tx_key k" using tx_inv_disk [OF assms(1)] by auto
  have del: "tx_inv content (del_record B tm (txPreparePrefix @ t))"
    by (rule tx_inv_shrink [OF assms(1)])
       (use assms(3) in \<open>auto intro!: del_record_other del_record_self\<close>)
  have load: "tx_inv content (tm\<lparr> lockTable := lock_keys (rWriteKeys rec) (rTxID rec) (lockTable tm),
                           preparedTxs := (preparedTxs tm)(rTxID rec \<mapsto> rec) \<rparr>)"
    using tx_inv_reload [OF assms(1) d assms(3)] r(1) by (cases tm) simp
  show ?thesis
    using del load assms(3,4) r executeCommit_inv [OF assms(1) _ r(2)] executeAbort_inv [OF assms(1), of rec]
    by (auto simp: rebuild_one_def Let_def)
qed

lemma rebuild_fold_inv:
  assumes "tx_inv content tm" "distinct (map fst krs)"
    "\<forall>(k, v) \<in> set krs. \<exists>t. k = prep_key t \<and> held content tm k = Some v \<and> preparedTxs tm t = None"
  shows "tx_inv content (fold (rebuild_one B) krs tm)"
  using assms
proof (induction krs arbitrary: tm)
  case (Cons kr krs)
  obtain t v where kr: "kr = (prep_key t, v)" "held content tm (prep_key t) = Some v" "preparedTxs tm t = None"
    using Cons.prems(3) by (cases kr) auto
  show ?case
  proof (cases "unmarshal_prepared v")
    case None
    then have "rebuild_one B kr tm = tm" by (simp add: rebuild_one_def kr(1))
    then show ?thesis using Cons by simp
  next
    case (Some rec)
    have d: "prep_on_disk content tm t rec" using kr(2) Some by (auto simp: prep_on_disk_def)
    then have r: "rTxID rec = t" "\<forall>k \<in> rec_keys rec. \<not> is_tx_key k" using tx_inv_disk [OF Cons.prems(1)] by auto
    have u: "unmarshal_prepared (snd kr) = Some rec" using Some kr(1) by simp
    note o = rebuild_one_other [OF u r(2)]
    have rest: "\<forall>(k, v) \<in> set krs. \<exists>t. k = prep_key t \<and> held content (rebuild_one B kr tm) k = Some v
        \<and> preparedTxs (rebuild_one B kr tm) t = None"
    proof clarify
      fix k v' assume kv: "(k, v') \<in> set krs"
      then obtain t' where t': "k = prep_key t'" "held content tm k = Some v'" "preparedTxs tm t' = None"
        using Cons.prems(3) by auto
      have "t' \<noteq> t" using Cons.prems(2) kv t'(1) kr(1) by force
      then show "\<exists>t. k = prep_key t \<and> held content (rebuild_one B kr tm) k = Some v'
          \<and> preparedTxs (rebuild_one B kr tm) t = None"
        using t' o [of t'] r(1) by auto
    qed
    have "tx_inv content (rebuild_one B kr tm)"
      by (rule rebuild_one_inv [OF Cons.prems(1) _ kr(3) u]) (use kr in simp)
    then show ?thesis using Cons.IH [OF _ _ rest] Cons.prems(2) by simp
  qed
qed simp

lemma tx_inv_reset: "tx_inv content tm \<Longrightarrow> tx_inv content (tm\<lparr> lockTable := Map.empty, preparedTxs := Map.empty \<rparr>)"
  by (rule tx_inv_shrink) auto

lemma RebuildLockTable_inv:
  assumes "tx_inv content tm" "RebuildLockTable B order tm = Some (tm', err)"
    "\<And>xs. mset (order xs) = mset xs"
  shows "tx_inv content tm'"
proof (cases "ScanTxRecordsByPrefix B (txStore tm) txPreparePrefix")
  case (Inl e)
  then show ?thesis using assms tx_inv_reset by (auto simp: RebuildLockTable_def Let_def split: if_splits)
next
  case (Inr records)
  let ?tm0 = "tm\<lparr> lockTable := Map.empty, preparedTxs := Map.empty \<rparr>"
  note S = ScanTxRecords_set [OF Inr]
  have o: "set (order records) = set records" using assms(3) mset_eq_setD by blast
  have "mset (map fst (order records)) = mset (map fst records)" using assms(3) [of records] by simp
  then have d: "distinct (map fst (order records))" using S(1) mset_eq_imp_distinct_iff by blast
  have "\<exists>t. k = prep_key t \<and> held content ?tm0 k = Some v \<and> preparedTxs ?tm0 t = None"
    if "(k, v) \<in> set (order records)" for k v
    using that S(2) o by (auto simp: held_def elim: prefixE)
  then have "tx_inv content (fold (rebuild_one B) (order records) ?tm0)"
    using d by (intro rebuild_fold_inv tx_inv_reset [OF assms(1)]) auto
  then show ?thesis using assms(2) Inr by (auto simp: RebuildLockTable_def Let_def split: if_splits)
qed

end

section \<open>Outcomes are final\<close>

text \<open>
  How the outcome records may change: a transaction with neither a commit nor an abort record
  may get one of them, and nothing else; a decision that is on record stays.
\<close>

definition outcome_le :: "(string \<Rightarrow> raw option) \<Rightarrow> (string \<Rightarrow> raw option) \<Rightarrow> bool" where
  "outcome_le c c' \<longleftrightarrow>
     (\<forall>t. (c' (commit_key t) = c (commit_key t) \<and> c' (abort_key t) = c (abort_key t)
           \<or> c (commit_key t) = None \<and> c (abort_key t) = None
             \<and> (c' (commit_key t) = None \<or> c' (abort_key t) = None))
        \<and> (c (decision_key t) \<noteq> None \<longrightarrow> c' (decision_key t) = c (decision_key t)))"

lemma outcome_le_refl [simp]: "outcome_le c c"
  by (simp add: outcome_le_def)

lemma outcome_le_trans:
  assumes "outcome_le c d" "outcome_le d e"
  shows "outcome_le c e"
  unfolding outcome_le_def
proof (intro allI conjI impI)
  fix t
  show "e (commit_key t) = c (commit_key t) \<and> e (abort_key t) = c (abort_key t)
      \<or> c (commit_key t) = None \<and> c (abort_key t) = None \<and> (e (commit_key t) = None \<or> e (abort_key t) = None)"
    using assms unfolding outcome_le_def by (elim allE [of _ t]) auto
  assume "c (decision_key t) \<noteq> None"
  then show "e (decision_key t) = c (decision_key t)"
    using assms unfolding outcome_le_def by (elim allE [of _ t]) auto
qed

lemma outcome_le_same:
  "(\<And>t. c' (commit_key t) = c (commit_key t)) \<Longrightarrow> (\<And>t. c' (abort_key t) = c (abort_key t))
   \<Longrightarrow> (\<And>t. c' (decision_key t) = c (decision_key t)) \<Longrightarrow> outcome_le c c'"
  by (simp add: outcome_le_def)

definition exclusive :: "(string \<Rightarrow> raw option) \<Rightarrow> bool" where
  "exclusive c \<longleftrightarrow> (\<forall>t. c (commit_key t) = None \<or> c (abort_key t) = None)"

lemma outcome_le_exclusive: "outcome_le c c' \<Longrightarrow> exclusive c \<Longrightarrow> exclusive c'"
  unfolding outcome_le_def exclusive_def by metis

context badger
begin

lemma cleanup_outcome:
  "held content (cleanup_tx B tm rec) (commit_key t) = held content tm (commit_key t)"
  "held content (cleanup_tx B tm rec) (abort_key t) = held content tm (abort_key t)"
  "held content (cleanup_tx B tm rec) (decision_key t) = held content tm (decision_key t)"
  by (simp_all add: cleanup_tx_def del_record_other)

lemma executeCommit_outcome:
  assumes "\<forall>k \<in> rec_keys rec. \<not> is_tx_key k"
    "held content tm (commit_key (rTxID rec)) = None" "held content tm (abort_key (rTxID rec)) = None"
  shows "outcome_le (held content tm) (held content (executeCommit B tm rec))"
proof (cases "WriteBatchWithCASAndRecord B (txStore tm) (write_ops rec) (txCommitPrefix @ rTxID rec) mark_data")
  case (Pair s err)
  show ?thesis
  proof (cases err)
    case None
    note h = executeCommit_held [OF Pair [unfolded None] assms(1)]
    show ?thesis
      using assms(2,3) Pair None by (auto simp: outcome_le_def executeCommit_def cleanup_outcome h)
  next
    case (Some e)
    with Pair have "s = txStore tm" using batch_record_error by blast
    with Pair Some show ?thesis by (simp add: executeCommit_def)
  qed
qed

lemma abort_outcome:
  assumes "put_record B tm (txAbortPrefix @ t) mark_data = (tm', ok)"
    "held content tm (commit_key t) = None" "held content tm (abort_key t) = None"
  shows "outcome_le (held content tm) (held content tm')"
  using assms(2,3) put_record_held [OF assms(1)] by (auto simp: outcome_le_def)

lemma executeAbort_outcome:
  assumes "held content tm (commit_key (rTxID rec)) = None" "held content tm (abort_key (rTxID rec)) = None"
  shows "outcome_le (held content tm) (held content (executeAbort B tm rec))"
proof (cases "put_record B tm (txAbortPrefix @ rTxID rec) mark_data")
  case (Pair tm' ok)
  have o: "outcome_le (held content tm) (held content tm')" using abort_outcome [OF Pair assms] .
  moreover have "outcome_le (held content tm') (held content (cleanup_tx B tm' rec))"
    by (rule outcome_le_same) (simp_all add: cleanup_outcome)
  ultimately have "outcome_le (held content tm) (held content (cleanup_tx B tm' rec))" by (rule outcome_le_trans)
  then show ?thesis using o by (simp add: executeAbort_def Pair)
qed

lemma del_record_outcome: "outcome_le (held content tm) (held content (del_record B tm (txPreparePrefix @ t)))"
  by (rule outcome_le_same) (simp_all add: del_record_other)

end

text \<open>Reads of Badger do not fail: the errors the code ignores are not there.\<close>

locale readable_badger = badger +
  assumes reads: "GetTxRecord B s k = Inr (content (sdb s) (txKeyPrefix @ k))"
begin

lemma found_eq: "found_record B tm k = held content tm (txKeyPrefix @ k)"
  by (simp add: found_record_def held_def reads)

lemma resolve_decided_outcome:
  assumes "tx_inv content tm" "preparedTxs tm t = Some rec" "resolve_decided B tm rec = (tm', r)"
    "held content tm (commit_key t) = None" "held content tm (abort_key t) = None"
  shows "outcome_le (held content tm) (held content tm')"
proof -
  have d: "rTxID rec = t" "\<forall>k \<in> rec_keys rec. \<not> is_tx_key k"
    using tx_inv_disk [OF assms(1) tx_inv_cached [OF assms(1,2)]] by auto
  show ?thesis
    using assms(3-5) d executeCommit_outcome [of rec tm] executeAbort_outcome [of tm rec]
    by (auto simp: resolve_decided_def Let_def split: if_splits)
qed

lemma resolveLock_outcome:
  assumes "tx_inv content tm" "resolveLockLocked B tm h = (tm', r)"
  shows "outcome_le (held content tm) (held content tm')"
proof (cases "held content tm (commit_key h) = None \<and> held content tm (abort_key h) = None")
  case False
  then have "tm' = releaseLocksForTxLocked h tm"
    using assms(2) by (auto simp: resolveLockLocked_def found_eq split: if_splits)
  then show ?thesis by simp
next
  case True
  then consider "tm' = releaseLocksForTxLocked h tm"
    | (cached) rec where "preparedTxs tm h = Some rec" "resolve_decided B tm rec = (tm', r)"
    | (disk) rec where "preparedTxs tm h = None"
        "Option.bind (found_record B tm (txPreparePrefix @ h)) unmarshal_prepared = Some rec"
        "resolve_decided B (tm\<lparr> preparedTxs := (preparedTxs tm)(h \<mapsto> rec) \<rparr>) rec = (tm', r)"
    using assms(2) by (auto simp: resolveLockLocked_def found_eq split: option.splits)
  then show ?thesis
  proof cases
    case cached
    then show ?thesis using resolve_decided_outcome [OF assms(1) cached] True by simp
  next
    case disk
    have "tx_inv content (tm\<lparr> preparedTxs := (preparedTxs tm)(h \<mapsto> rec) \<rparr>)"
      using tx_inv_load [OF assms(1) disk(1) cache_from_disk(1) [OF assms(1) disk(2)]] .
    from resolve_decided_outcome [OF this _ disk(3), of h] True show ?thesis by simp
  qed simp
qed

lemma Prepare_outcome:
  assumes "tx_inv content tm" "Prepare B now tm args = Some (tm', err)"
  shows "outcome_le (held content tm) (held content tm')"
proof -
  have c: "outcome_le (held content tm) (held content tm1)"
    if "check_locks B (paTxID args) (paWriteKeys args) tm = (tm1, free)" for tm1 free
  proof -
    let ?Q = "\<lambda>u. tx_inv content u \<and> outcome_le (held content tm) (held content u)"
    have "?Q tm1"
      by (rule check_locks_induct [OF that])
         (use assms(1) in \<open>auto intro: resolveLock_inv(1) outcome_le_trans [OF _ resolveLock_outcome]\<close>)
    then show ?thesis by simp
  qed
  from assms(2) show ?thesis
  proof (cases rule: Prepare_cases)
    case (refused free)
    then show ?thesis using c by simp
  next
    case (failed tm1 tm3)
    have "held content tm' = held content tm1" using put_record_held [OF failed(3)] failed(4) by simp
    then show ?thesis using c [OF failed(1)] by simp
  next
    case (prepared tm1 tm3)
    have "outcome_le (held content tm1) (held content tm')"
      by (rule outcome_le_same) (use put_record_held [OF prepared(4)] prepared(5) in simp_all)
    then show ?thesis using outcome_le_trans [OF c [OF prepared(1)]] by simp
  qed
qed

lemma commit_apply_outcome:
  assumes "tx_inv content tm" "preparedTxs tm t = Some rec" "commit_apply B tm t rec = (tm', err)"
    "held content tm (commit_key t) = None" "held content tm (abort_key t) = None"
  shows "outcome_le (held content tm) (held content tm')"
proof -
  have d: "rTxID rec = t" "\<forall>k \<in> rec_keys rec. \<not> is_tx_key k"
    using tx_inv_disk [OF assms(1) tx_inv_cached [OF assms(1,2)]] by auto
  have "tm' = executeCommit B tm rec"
    using assms(3) d(1) by (auto simp: commit_apply_def executeCommit_def cleanup_tx_def split: prod.splits option.splits)
  then show ?thesis using executeCommit_outcome [OF d(2)] assms(4,5) d(1) by simp
qed

lemma Commit_outcome:
  assumes "tx_inv content tm" "Commit B tm args = Some (tm', err)"
  shows "outcome_le (held content tm) (held content tm')"
  using assms(2)
proof (cases rule: Commit_cases)
  case (cached rec)
  then show ?thesis using commit_apply_outcome [OF assms(1) cached(4,5)] by (simp add: found_eq)
next
  case (disk rec)
  note c = cache_from_disk [OF assms(1) disk(5)]
  from commit_apply_outcome [OF tx_inv_reload [OF assms(1) c(1) disk(4)] _ disk(6)] disk(1,2)
  show ?thesis by (simp add: found_eq)
qed auto

lemma Abort_outcome:
  assumes "Abort B tm t = Some (tm', err)"
  shows "outcome_le (held content tm) (held content tm')"
proof (cases "put_record B tm (txAbortPrefix @ t) mark_data")
  case (Pair tm1 ok)
  let ?u = "case preparedTxs tm1 t of None \<Rightarrow> tm1
      | Some rec \<Rightarrow> tm1\<lparr> lockTable := (\<lambda>k. if k \<in> wkKey ` set (rWriteKeys rec) \<and> lockTable tm1 k = Some t
                                      then None else lockTable tm1 k),
                         preparedTxs := (preparedTxs tm1)(t := None) \<rparr>"
  have u: "held content ?u = held content tm1" by (simp split: option.split)
  consider "tm' = tm" | "held content tm (commit_key t) = None" "held content tm (abort_key t) = None"
      "tm' = tm1 \<or> tm' = del_record B ?u (txPreparePrefix @ t)"
    using assms Pair by (auto simp: Abort_def found_eq Let_def split: if_splits)
  then show ?thesis
  proof cases
    case 2
    then have "outcome_le (held content tm) (held content tm1)" using abort_outcome [OF Pair] by simp
    moreover have "outcome_le (held content tm1) (held content tm')"
      using 2(3) del_record_outcome [of ?u t] u by auto
    ultimately show ?thesis by (rule outcome_le_trans)
  qed simp
qed

lemma ResolveTxStatus_outcome:
  assumes "ResolveTxStatus B now tm t = Some (tm', r)"
  shows "outcome_le (held content tm) (held content tm')"
proof -
  let ?u = "(releaseLocksForTxLocked t tm)\<lparr> preparedTxs := (preparedTxs tm)(t := None) \<rparr>"
  obtain u2 ok where p: "put_record B ?u (txAbortPrefix @ t) mark_data = (u2, ok)"
    by (cases "put_record B ?u (txAbortPrefix @ t) mark_data")
  consider "tm' = tm" | "held content tm (commit_key t) = None" "held content tm (abort_key t) = None"
      "tm' = del_record B u2 (txPreparePrefix @ t)"
    using assms p by (auto simp: ResolveTxStatus_def found_eq Let_def split: if_splits option.splits)
  then show ?thesis
  proof cases
    case 2
    have "outcome_le (held content ?u) (held content u2)" using abort_outcome [OF p] 2 by simp
    then show ?thesis using outcome_le_trans del_record_outcome 2(3) by fastforce
  qed simp
qed

lemma RecordDecision_outcome:
  assumes "RecordDecision B tm args = (tm', err)"
  shows "outcome_le (held content tm) (held content tm')"
proof -
  obtain u ok where p: "put_record B tm (txDecisionPrefix @ raTxID args)
      (marshal_decision \<lparr> tdDecision = raDecision args, tdParticipantGroupIDs = raParticipantGroupIDs args,
         tdWriteKeys = raWriteKeys args \<rparr>) = (u, ok)" by fastforce
  have "tm' = tm \<or> tm' = u \<and> held content tm (decision_key (raTxID args)) = None"
    using assms p by (auto simp: RecordDecision_def found_eq split: if_splits option.splits prod.splits)
  then show ?thesis using put_record_held [OF p] by (cases ok) (auto simp: outcome_le_def)
qed

end

end
