(* ===== verification/Tx_Protocol.thy ===== *)
theory Tx_Protocol
  imports Tx_Safety
begin

text \<open>
  The transaction participant as a transition system: the operations of \<open>Tx_Manager\<close> in any
  order and with any result, crashes, and writes of user data in between. It interprets
  \<open>invariant_system\<close> twice, for the lock invariant (whatever Badger does) and for the exclusion
  of commit and abort (where reads do not fail), and states the properties of the protocol.
\<close>

lemma prefix_consts_neq [simp]:
  "txCommitPrefix \<noteq> txPreparePrefix" "txAbortPrefix \<noteq> txPreparePrefix" "txCommitPrefix \<noteq> txAbortPrefix"
  "txPreparePrefix \<noteq> txCommitPrefix" "txPreparePrefix \<noteq> txAbortPrefix" "txAbortPrefix \<noteq> txCommitPrefix"
  by (simp_all add: txPrefix_defs)

section \<open>The steps\<close>

inductive tx_step ::
  "('db, 'txn) badger \<Rightarrow> ('db \<Rightarrow> string \<Rightarrow> raw option) \<Rightarrow> 'db TxManager \<Rightarrow> 'db TxManager \<Rightarrow> bool"
  for B content where
  t_prepare: "Prepare B now tm args = Some (tm', err) \<Longrightarrow> prepare_wf tm args \<Longrightarrow> tx_step B content tm tm'"
| t_commit: "Commit B tm cargs = Some (tm', err) \<Longrightarrow> tx_step B content tm tm'"
| t_abort: "Abort B tm t = Some (tm', err) \<Longrightarrow> tx_step B content tm tm'"
| t_resolve: "ResolveTxStatus B now tm t = Some (tm', reply) \<Longrightarrow> tx_step B content tm tm'"
| t_decide: "RecordDecision B tm dargs = (tm', err) \<Longrightarrow> tx_step B content tm tm'"
| t_rebuild: "RebuildLockTable B order tm = Some (tm', serr) \<Longrightarrow> \<forall>xs. mset (order xs) = mset xs
    \<Longrightarrow> tx_step B content tm tm'"
| t_crash: "tm' = NewTxManager (txStore tm) (txGroupID tm) router \<Longrightarrow> tx_step B content tm tm'"
| t_user: "\<forall>k. is_tx_key k \<longrightarrow> content (sdb s) k = content (sdb (txStore tm)) k
    \<Longrightarrow> tx_step B content tm (tm\<lparr> txStore := s \<rparr>)"

inductive_cases tx_stepE: "tx_step B content tm tm'"

definition tx_init :: "('db \<Rightarrow> string \<Rightarrow> raw option) \<Rightarrow> 'db TxManager \<Rightarrow> bool" where
  "tx_init content tm \<longleftrightarrow>
     lockTable tm = Map.empty \<and> preparedTxs tm = Map.empty \<and> (\<forall>k. is_tx_key k \<longrightarrow> held content tm k = None)"

lemma held_new [simp]: "held content (NewTxManager (txStore tm) g r) = held content tm"
  by (simp add: NewTxManager_def held_def)

lemma tx_init_inv: "tx_init content tm \<Longrightarrow> tx_inv content tm"
  by (simp add: tx_init_def tx_inv_def prep_on_disk_def)

context badger
begin

lemma tx_step_inv: "tx_step B content tm tm' \<Longrightarrow> tx_inv content tm \<Longrightarrow> tx_inv content tm'"
proof (induction rule: tx_step.induct)
  case (t_crash tm' tm router)
  then show ?case by (intro tx_inv_shrink [OF t_crash(2)]) (auto simp: NewTxManager_def held_def)
next
  case (t_user s tm)
  then show ?case by (intro tx_inv_same [OF t_user(2)]) (auto simp: held_def)
qed (blast intro: Prepare_inv Commit_inv Abort_inv ResolveTxStatus_inv RecordDecision_inv
       RebuildLockTable_inv)+

end

sublocale badger \<subseteq> participant: invariant_system "tx_init content" "tx_step B content" "tx_inv content"
  by unfold_locales (auto intro: tx_init_inv tx_step_inv)

context badger
begin

lemma reach_tx_inv: "reach (tx_init content) (tx_step B content) tm \<Longrightarrow> tx_inv content tm"
  by (rule participant.reach_inv)

end

context readable_badger
begin

lemma rebuild_one_outcome:
  assumes "\<And>rec. unmarshal_prepared (snd kr) = Some rec \<Longrightarrow> \<forall>k \<in> rec_keys rec. \<not> is_tx_key k"
  shows "outcome_le (held content tm) (held content (rebuild_one B kr tm))"
proof (cases "unmarshal_prepared (snd kr)")
  case None
  then show ?thesis by (simp add: rebuild_one_def)
next
  case (Some rec)
  note e = executeCommit_outcome [OF assms [OF Some], of tm] executeAbort_outcome [of tm rec]
  show ?thesis
  proof (cases "held content tm (commit_key (rTxID rec)) = None \<and> held content tm (abort_key (rTxID rec)) = None")
    case True
    then show ?thesis using Some e by (simp add: rebuild_one_def found_eq Let_def)
  next
    case False
    then have "rebuild_one B kr tm = del_record B tm (txPreparePrefix @ rTxID rec)"
      using Some by (auto simp: rebuild_one_def found_eq)
    then show ?thesis using del_record_outcome by simp
  qed
qed

lemma rebuild_fold_outcome:
  assumes "\<And>k v rec. (k, v) \<in> set krs \<Longrightarrow> unmarshal_prepared v = Some rec \<Longrightarrow> \<forall>k \<in> rec_keys rec. \<not> is_tx_key k"
  shows "outcome_le (held content tm) (held content (fold (rebuild_one B) krs tm))"
  using assms
proof (induction krs arbitrary: tm)
  case (Cons kr krs)
  have "outcome_le (held content tm) (held content (rebuild_one B kr tm))"
    by (rule rebuild_one_outcome) (use Cons.prems [of "fst kr" "snd kr"] in auto)
  moreover have "outcome_le (held content (rebuild_one B kr tm)) (held content (fold (rebuild_one B) (kr # krs) tm))"
    using Cons.IH [of "rebuild_one B kr tm"] Cons.prems by auto
  ultimately show ?case by (rule outcome_le_trans)
qed simp

lemma Rebuild_outcome:
  assumes "tx_inv content tm" "RebuildLockTable B order tm = Some (tm', err)" "\<forall>xs. mset (order xs) = mset xs"
  shows "outcome_le (held content tm) (held content tm')"
proof (cases "ScanTxRecordsByPrefix B (txStore tm) txPreparePrefix")
  case (Inl e)
  then show ?thesis using assms by (auto simp: RebuildLockTable_def Let_def split: if_splits)
next
  case (Inr records)
  let ?tm0 = "tm\<lparr> lockTable := Map.empty, preparedTxs := Map.empty \<rparr>"
  note S = ScanTxRecords_set(2) [OF Inr]
  have o: "set (order records) = set records" using assms(3) mset_eq_setD by blast
  have "\<forall>k \<in> rec_keys rec. \<not> is_tx_key k"
    if kv: "(k, v) \<in> set (order records)" "unmarshal_prepared v = Some rec" for k v rec
  proof -
    obtain t where "k = prep_key t" "held content tm k = Some v"
      using kv(1) S o by (auto simp: held_def elim: prefixE)
    then have "prep_on_disk content tm t rec" using kv(2) by (auto simp: prep_on_disk_def)
    then show ?thesis using tx_inv_disk [OF assms(1)] by blast
  qed
  then have "outcome_le (held content ?tm0) (held content (fold (rebuild_one B) (order records) ?tm0))"
    by (rule rebuild_fold_outcome)
  then show ?thesis using assms(2) Inr by (auto simp: RebuildLockTable_def Let_def split: if_splits)
qed

lemma tx_step_outcome: "tx_step B content tm tm' \<Longrightarrow> tx_inv content tm \<Longrightarrow> outcome_le (held content tm) (held content tm')"
proof (induction rule: tx_step.induct)
  case (t_user s tm)
  then show ?case by (intro outcome_le_same) (auto simp: held_def)
qed (auto intro: Prepare_outcome Commit_outcome Abort_outcome ResolveTxStatus_outcome
       RecordDecision_outcome Rebuild_outcome simp: held_new)

end

sublocale readable_badger \<subseteq> outcomes: invariant_system "tx_init content" "tx_step B content"
  "\<lambda>tm. tx_inv content tm \<and> exclusive (held content tm)"
proof unfold_locales
  fix s assume "tx_init content s"
  then show "tx_inv content s \<and> exclusive (held content s)"
    using tx_init_inv by (auto simp: tx_init_def exclusive_def)
next
  fix s t assume "tx_inv content s \<and> exclusive (held content s)" "tx_step B content s t"
  then show "tx_inv content t \<and> exclusive (held content t)"
    using tx_step_inv tx_step_outcome outcome_le_exclusive by blast
qed

sublocale reliable_badger \<subseteq> readable_badger
proof unfold_locales
  fix s :: "'a Store" and k
  obtain t where "NewTransaction B (sdb s) = Inr t" using new_ok by blast
  then show "GetTxRecord B s k = Inr (content (sdb s) (txKeyPrefix @ k))"
    using new_seen [of "sdb s" t] by (simp add: GetTxRecord_def db_View_def get_eq)
qed

context readable_badger
begin

lemma reach_exclusive: "reach (tx_init content) (tx_step B content) tm \<Longrightarrow> exclusive (held content tm)"
  using outcomes.reach_inv by blast

lemma steps_outcome:
  "(tx_step B content)\<^sup>*\<^sup>* tm tm' \<Longrightarrow> tx_inv content tm \<Longrightarrow> outcome_le (held content tm) (held content tm')"
proof (induction rule: rtranclp_induct)
  case (step u v)
  have "tx_inv content u" using step.hyps(1) step.prems by (rule participant.steps_inv)
  then show ?case using outcome_le_trans step tx_step_outcome by blast
qed simp

end

section \<open>Prepare and commit in detail\<close>

text \<open>The version a read or a write of a transaction expects of the live entry.\<close>

definition live_version ::
  "('db \<Rightarrow> string \<Rightarrow> raw option) \<Rightarrow> int64 \<Rightarrow> 'db Store \<Rightarrow> string \<Rightarrow> Tversion" where
  "live_version content now s k =
     (case live_entry content now s k of None \<Rightarrow> 0 | Some e \<Rightarrow> eVersion e)"

text \<open>A transaction whose coordinator has not decided, as far as this group can tell.\<close>

definition undecided :: "('db, 'txn) badger \<Rightarrow> 'db TxManager \<Rightarrow> string \<Rightarrow> bool" where
  "undecided B tm t \<longleftrightarrow>
     found_record B tm (txCommitPrefix @ t) = None \<and> found_record B tm (txAbortPrefix @ t) = None \<and>
     (\<exists>rec. preparedTxs tm t = Some rec
        \<and> queryCoordinatorDecision B tm rec \<noteq> TxStatusCommitted
        \<and> queryCoordinatorDecision B tm rec \<noteq> TxStatusAborted)"

lemma resolve_undecided: "undecided B tm h \<Longrightarrow> resolveLockLocked B tm h = (tm, False)"
  by (auto simp: undecided_def resolveLockLocked_def resolve_decided_def Let_def)

lemma check_locks_refuses:
  assumes "\<forall>wk \<in> set wks. \<forall>h. lockTable tm (wkKey wk) = Some h \<longrightarrow> h = t \<or> undecided B tm h"
    "wk \<in> set wks" "lockTable tm (wkKey wk) = Some h" "h \<noteq> t"
  shows "check_locks B t wks tm = (tm, False)"
  using assms
proof (induction wks)
  case (Cons w wks)
  then show ?case by (auto simp: resolve_undecided split: option.splits)
qed simp

context badger
begin

lemma check_reads_ok:
  assumes "check_reads B now s rks = OK" "rk \<in> set rks"
  shows "rkExpectedVersion rk = live_version content now s (rkKey rk)"
  using assms
proof (induction rks)
  case (Cons r rks)
  from Cons.prems(1) obtain cur where g: "Get B s (rkKey r) = Inr cur"
    by (auto split: sum.splits)
  have c: "cur = stored content s (rkKey r)" using Get_ok [OF g] .
  show ?case
    using Cons g by (auto simp: live_version_def live_entry_def c split: option.splits if_splits)
qed simp

lemma live_version_cong: "content (sdb s) k = content (sdb s') k
  \<Longrightarrow> live_version content now s k = live_version content now s' k"
  by (simp add: live_version_def live_entry_def stored_def)

lemma Prepare_ok:
  assumes "Prepare B now tm args = Some (tm', OK)"
  shows "\<forall>wk \<in> set (paWriteKeys args). lockTable tm' (wkKey wk) = Some (paTxID args)"
    and "preparedTxs tm' (paTxID args) = Some (prepare_record now args)"
    and "prep_on_disk content tm' (paTxID args) (prepare_record now args)"
    and "\<forall>rk \<in> set (paReadKeys args). \<not> is_tx_key (rkKey rk)
           \<longrightarrow> rkExpectedVersion rk = live_version content now (txStore tm') (rkKey rk)"
proof -
  from assms obtain tm1 tm3 where prepared:
    "check_locks B (paTxID args) (paWriteKeys args) tm = (tm1, True)"
    "OK = OK" "check_reads B now (txStore tm1) (paReadKeys args) = OK"
    "put_record B (tm1\<lparr> lockTable := lock_keys (paWriteKeys args) (paTxID args) (lockTable tm1) \<rparr>)
       (txPreparePrefix @ paTxID args) (marshal_prepared (prepare_record now args)) = (tm3, True)"
    "tm' = tm3\<lparr> preparedTxs := (preparedTxs tm3)(paTxID args \<mapsto> prepare_record now args) \<rparr>"
    by (rule Prepare_cases) auto
  note f = put_record_frame [OF prepared(4)] put_record_held [OF prepared(4)]
  show "\<forall>wk \<in> set (paWriteKeys args). lockTable tm' (wkKey wk) = Some (paTxID args)"
    "preparedTxs tm' (paTxID args) = Some (prepare_record now args)"
    using f prepared(5) by (auto simp: lock_keys_apply)
  show "prep_on_disk content tm' (paTxID args) (prepare_record now args)"
    using f prepared(5) by (simp add: prep_on_disk_def codec_simps)
  have "content (sdb (txStore tm')) k = content (sdb (txStore tm1)) k" if "\<not> is_tx_key k" for k
    using f(6) prepared(5) that by (auto simp: held_def fun_eq_iff split: if_splits)
  then show "\<forall>rk \<in> set (paReadKeys args). \<not> is_tx_key (rkKey rk)
           \<longrightarrow> rkExpectedVersion rk = live_version content now (txStore tm') (rkKey rk)"
    using check_reads_ok [OF prepared(3)] live_version_cong by metis
qed

lemma commit_apply_ok:
  assumes "tx_inv content tm" "preparedTxs tm t = Some rec" "commit_apply B tm t rec = (tm', OK)"
    "distinct (map wkKey (rWriteKeys rec))"
  shows "\<forall>op \<in> set (write_ops rec). op_expects op (stored content (txStore tm) (wKey op))
           \<and> stored content (txStore tm') (wKey op) = op_effect op (stored content (txStore tm) (wKey op))"
    and "\<And>k. k \<notin> rec_keys rec \<Longrightarrow> \<not> is_tx_key k \<Longrightarrow> held content tm' k = held content tm k"
    and "held content tm' (commit_key t) = Some mark_data"
    and "\<And>k. lockTable tm' k \<noteq> Some t" and "preparedTxs tm' t = None"
proof -
  have d: "rTxID rec = t" "\<forall>k \<in> rec_keys rec. \<not> is_tx_key k"
    using tx_inv_disk [OF assms(1) tx_inv_cached [OF assms(1,2)]] by auto
  obtain s where s: "WriteBatchWithCASAndRecord B (txStore tm) (write_ops rec) (txCommitPrefix @ t) mark_data = (s, None)"
    and tm': "tm' = del_record B (tm\<lparr> txStore := s, lockTable := unlock_keys (rWriteKeys rec) (lockTable tm),
                  preparedTxs := (preparedTxs tm)(t := None) \<rparr>) (txPreparePrefix @ t)"
    using assms(3) by (auto simp: commit_apply_def split: prod.splits option.splits)
  have dk: "distinct (map wKey (write_ops rec))" using assms(4) by (simp add: write_ops_def comp_def)
  have rk: "txKeyPrefix @ txCommitPrefix @ t \<notin> wKey ` set (write_ops rec)"
    using d(2) by (auto simp: write_ops_keys)
  note b = batch_record_ok [OF s dk rk]
  let ?u = "tm\<lparr> txStore := s, lockTable := unlock_keys (rWriteKeys rec) (lockTable tm),
                  preparedTxs := (preparedTxs tm)(t := None) \<rparr>"
  have h: "held content tm' k = content (sdb s) k" if "k \<noteq> prep_key t" for k
    using del_record_other [of k "txPreparePrefix @ t" ?u] that tm' by (simp add: held_def)
  have "stored content (txStore tm') (wKey op) = stored content s (wKey op)" if "op \<in> set (write_ops rec)" for op
  proof -
    have "wKey op \<in> rec_keys rec" using that write_ops_keys by blast
    then have "wKey op \<noteq> prep_key t" using d(2) by auto
    then show ?thesis using h [of "wKey op"] by (simp add: stored_def held_def)
  qed
  then show "\<forall>op \<in> set (write_ops rec). op_expects op (stored content (txStore tm) (wKey op))
           \<and> stored content (txStore tm') (wKey op) = op_effect op (stored content (txStore tm) (wKey op))"
    using b(1) by simp
  show "held content tm' k = held content tm k" if "k \<notin> rec_keys rec" "\<not> is_tx_key k" for k
    using that h [of k] b(3) [of k] user_key_neq [OF that(2)] by (simp add: write_ops_keys held_def)
  show "held content tm' (commit_key t) = Some mark_data" using h [of "commit_key t"] b(2) by simp
  show "lockTable tm' k \<noteq> Some t" for k
    using tx_inv_lock [OF assms(1), of k t] assms(2) tm' by (auto simp: unlock_keys_apply rec_keys_def)
  show "preparedTxs tm' t = None" using tm' by simp
qed

text \<open>A commit that is new: the record it used, in the state it was applied to.\<close>

lemma Commit_new:
  assumes "tx_inv content tm" "Commit B tm args = Some (tm', OK)"
    "found_record B tm (txCommitPrefix @ caTxID args) = None"
  obtains u rec where "tx_inv content u" "txStore u = txStore tm" "preparedTxs u (caTxID args) = Some rec"
    "prep_on_disk content tm (caTxID args) rec" "commit_apply B u (caTxID args) rec = (tm', OK)"
    "\<not> commit_undecided B tm (caTxID args)"
  using assms(2)
proof (cases rule: Commit_cases)
  case (cached rec)
  then show ?thesis using that assms(1) tx_inv_cached [OF assms(1)] by blast
next
  case (disk rec)
  note c = cache_from_disk [OF assms(1) disk(5)]
  show ?thesis by (rule that [OF tx_inv_reload [OF assms(1) c(1) disk(4)] _ _ c(1) disk(6) disk(3)]) auto
qed (use assms(3) in auto)

end

section \<open>Recovery\<close>

text \<open>A prepare record whose transaction has no outcome this group could know.\<close>

definition in_doubt :: "('db, 'txn) badger \<Rightarrow> 'db TxManager \<Rightarrow> preparedTxRecord \<Rightarrow> bool" where
  "in_doubt B tm rec \<longleftrightarrow>
     found_record B tm (txCommitPrefix @ rTxID rec) = None
     \<and> found_record B tm (txAbortPrefix @ rTxID rec) = None
     \<and> queryCoordinatorDecision B tm rec \<noteq> TxStatusCommitted
     \<and> queryCoordinatorDecision B tm rec \<noteq> TxStatusAborted"

lemma in_doubt_tables [simp]:
  "in_doubt B (tm\<lparr> lockTable := L, preparedTxs := P \<rparr>) rec = in_doubt B tm rec"
  by (simp add: in_doubt_def found_record_def queryCoordinatorDecision_def)

lemma rebuild_fold_in_doubt:
  assumes "\<forall>kr \<in> set krs. \<forall>rec. unmarshal_prepared (snd kr) = Some rec \<longrightarrow> in_doubt B tm rec"
    "distinct (map fst krs)"
    "\<forall>kr \<in> set krs. \<forall>rec. unmarshal_prepared (snd kr) = Some rec \<longrightarrow> fst kr = prep_key (rTxID rec)"
  shows "\<exists>L P. fold (rebuild_one B) krs tm = tm\<lparr> lockTable := L, preparedTxs := P \<rparr>
     \<and> (\<forall>t rec. P t = Some rec \<longleftrightarrow> (\<exists>v. (prep_key t, v) \<in> set krs \<and> unmarshal_prepared v = Some rec)
                  \<or> preparedTxs tm t = Some rec \<and> (\<forall>v. (prep_key t, v) \<in> set krs \<longrightarrow> unmarshal_prepared v = None))
     \<and> (\<forall>k. L k \<noteq> None \<longleftrightarrow> lockTable tm k \<noteq> None
              \<or> (\<exists>kr \<in> set krs. \<exists>rec. unmarshal_prepared (snd kr) = Some rec \<and> k \<in> rec_keys rec))"
  using assms
proof (induction krs arbitrary: tm)
  case Nil
  show ?case by (rule exI [of _ "lockTable tm"], rule exI [of _ "preparedTxs tm"]) auto
next
  case (Cons kr krs)
  obtain key v where kr: "kr = (key, v)" by (cases kr)
  show ?case
  proof (cases "unmarshal_prepared v")
    case None
    then have "rebuild_one B kr tm = tm" by (simp add: rebuild_one_def kr)
    moreover obtain L P where "fold (rebuild_one B) krs tm = tm\<lparr> lockTable := L, preparedTxs := P \<rparr>"
      "\<forall>t rec'. P t = Some rec' \<longleftrightarrow> (\<exists>v. (prep_key t, v) \<in> set krs \<and> unmarshal_prepared v = Some rec')
         \<or> preparedTxs tm t = Some rec' \<and> (\<forall>v. (prep_key t, v) \<in> set krs \<longrightarrow> unmarshal_prepared v = None)"
      "\<forall>k. L k \<noteq> None \<longleftrightarrow> lockTable tm k \<noteq> None
              \<or> (\<exists>kr \<in> set krs. \<exists>rec. unmarshal_prepared (snd kr) = Some rec \<and> k \<in> rec_keys rec)"
      using Cons.IH [of tm] Cons.prems by auto
    ultimately show ?thesis using kr None by (intro exI [of _ L] exI [of _ P]) auto
  next
    case (Some rec)
    let ?u = "tm\<lparr> lockTable := lock_keys (rWriteKeys rec) (rTxID rec) (lockTable tm),
                  preparedTxs := (preparedTxs tm)(rTxID rec \<mapsto> rec) \<rparr>"
    have doubt: "in_doubt B tm rec" and key: "key = prep_key (rTxID rec)"
      using Cons.prems Some kr by auto
    have one: "rebuild_one B kr tm = ?u"
      using doubt Some kr by (simp add: rebuild_one_def in_doubt_def Let_def)
    from Cons.prems obtain L P where LP: "fold (rebuild_one B) krs ?u = ?u\<lparr> lockTable := L, preparedTxs := P \<rparr>"
      "\<forall>t rec'. P t = Some rec' \<longleftrightarrow> (\<exists>v. (prep_key t, v) \<in> set krs \<and> unmarshal_prepared v = Some rec')
         \<or> preparedTxs ?u t = Some rec' \<and> (\<forall>v. (prep_key t, v) \<in> set krs \<longrightarrow> unmarshal_prepared v = None)"
      "\<forall>k. L k \<noteq> None \<longleftrightarrow> lockTable ?u k \<noteq> None
              \<or> (\<exists>kr \<in> set krs. \<exists>rec. unmarshal_prepared (snd kr) = Some rec \<and> k \<in> rec_keys rec)"
      using Cons.IH [of ?u] by auto
    have notin: "(prep_key (rTxID rec), v') \<notin> set krs" for v'
      using Cons.prems(2) kr key by force
    have P: "P t = Some rec' \<longleftrightarrow> (\<exists>v'. (prep_key t, v') \<in> set (kr # krs) \<and> unmarshal_prepared v' = Some rec')
        \<or> preparedTxs tm t = Some rec' \<and> (\<forall>v'. (prep_key t, v') \<in> set (kr # krs) \<longrightarrow> unmarshal_prepared v' = None)"
      for t rec'
      using LP(2) [rule_format, of t rec'] notin kr key Some by (cases "t = rTxID rec") auto
    have L: "L k \<noteq> None \<longleftrightarrow> lockTable tm k \<noteq> None
        \<or> (\<exists>kr' \<in> set (kr # krs). \<exists>rec. unmarshal_prepared (snd kr') = Some rec \<and> k \<in> rec_keys rec)" for k
      using LP(3) [rule_format, of k] kr Some by (auto simp: lock_keys_apply rec_keys_def split: if_splits)
    show ?thesis
      using LP(1) one P L by (intro exI [of _ L] exI [of _ P]) simp
  qed
qed

context badger
begin

lemma Rebuild_in_doubt:
  assumes "tx_inv content tm" "RebuildLockTable B order tm = Some (tm', None)"
    "\<And>xs. mset (order xs) = mset xs"
    "\<And>t rec. prep_on_disk content tm t rec \<Longrightarrow> in_doubt B tm rec"
  shows "held content tm' = held content tm"
    and "preparedTxs tm' t = Some rec \<longleftrightarrow> prep_on_disk content tm t rec"
    and "lockTable tm' k \<noteq> None \<longleftrightarrow> (\<exists>t rec. prep_on_disk content tm t rec \<and> k \<in> rec_keys rec)"
proof -
  let ?tm0 = "tm\<lparr> lockTable := Map.empty, preparedTxs := Map.empty \<rparr>"
  from assms(2) obtain records where scan: "ScanTxRecordsByPrefix B (txStore tm) txPreparePrefix = Inr records"
    and tm': "tm' = fold (rebuild_one B) (order records) ?tm0"
    by (auto simp: RebuildLockTable_def Let_def split: if_splits sum.splits)
  note S = ScanTxRecords_set [OF scan]
  have o: "set (order records) = set records" using assms(3) mset_eq_setD by blast
  have "mset (map fst (order records)) = mset (map fst records)" using assms(3) [of records] by simp
  then have d: "distinct (map fst (order records))" using S(1) mset_eq_imp_distinct_iff by blast
  have mem: "(prep_key t, v) \<in> set (order records) \<longleftrightarrow> held content tm (prep_key t) = Some v" for t v
    using S(2) o by (simp add: held_def)
  have disk: "\<exists>t. fst kr = prep_key t \<and> prep_on_disk content tm t rec"
    if "kr \<in> set (order records)" "unmarshal_prepared (snd kr) = Some rec" for kr rec
  proof -
    have "(fst kr, snd kr) \<in> set records" using that(1) o by simp
    then have c: "prefix (txKeyPrefix @ txPreparePrefix) (fst kr)" "held content tm (fst kr) = Some (snd kr)"
      unfolding S(2) by (simp_all add: held_def)
    then obtain t where "fst kr = prep_key t" by (auto elim: prefixE)
    then show ?thesis using c(2) that(2) by (auto simp: prep_on_disk_def)
  qed
  have doubt: "\<forall>kr \<in> set (order records). \<forall>rec. unmarshal_prepared (snd kr) = Some rec \<longrightarrow> in_doubt B ?tm0 rec"
    using disk assms(4) by fastforce
  have keys: "\<forall>kr \<in> set (order records). \<forall>rec. unmarshal_prepared (snd kr) = Some rec \<longrightarrow> fst kr = prep_key (rTxID rec)"
    using disk tx_inv_disk [OF assms(1)] by fastforce
  from rebuild_fold_in_doubt [OF doubt d keys] obtain L P where LP: "tm' = ?tm0\<lparr> lockTable := L, preparedTxs := P \<rparr>"
    "\<forall>t rec. P t = Some rec \<longleftrightarrow> (\<exists>v. (prep_key t, v) \<in> set (order records) \<and> unmarshal_prepared v = Some rec)"
    "\<forall>k. L k \<noteq> None \<longleftrightarrow> (\<exists>kr \<in> set (order records). \<exists>rec. unmarshal_prepared (snd kr) = Some rec \<and> k \<in> rec_keys rec)"
    unfolding tm' by auto
  show "held content tm' = held content tm" using LP(1) by simp
  show "preparedTxs tm' t = Some rec \<longleftrightarrow> prep_on_disk content tm t rec"
    using LP(1,2) mem by (simp add: prep_on_disk_def)
  show "lockTable tm' k \<noteq> None \<longleftrightarrow> (\<exists>t rec. prep_on_disk content tm t rec \<and> k \<in> rec_keys rec)"
  proof
    assume "lockTable tm' k \<noteq> None"
    then show "\<exists>t rec. prep_on_disk content tm t rec \<and> k \<in> rec_keys rec"
      using LP(1,3) disk by simp blast
  next
    assume "\<exists>t rec. prep_on_disk content tm t rec \<and> k \<in> rec_keys rec"
    then obtain t rec v where "(prep_key t, v) \<in> set (order records)" "unmarshal_prepared v = Some rec" "k \<in> rec_keys rec"
      using mem by (auto simp: prep_on_disk_def)
    then show "lockTable tm' k \<noteq> None" using LP(1,3) by force
  qed
qed

end

section \<open>Properties\<close>

definition demo_tm :: "mem_db TxManager" where
  "demo_tm = NewTxManager demo_store 1 None"

definition demo_prepare :: PrepareTxArgs where
  "demo_prepare = \<lparr> paTxID = ''t1'',
     paReadKeys = [\<lparr> rkKey = ''b'', rkValue = ''y'', rkExpectedVersion = 1 \<rparr>],
     paWriteKeys = [\<lparr> wkKey = ''a'', wkValue = ''n'', wkVersion = 3, wkIsDelete = False \<rparr>],
     paTimeoutMs = 0, paCoordinatorGroupID = 2, paParticipantGroupIDs = [1, 2] \<rparr>"

definition demo_prepared :: "mem_db TxManager" where
  "demo_prepared = fst (the (Prepare (mem_badger []) 40 demo_tm demo_prepare))"

lemma demo_init: "tx_init map_of demo_tm"
proof -
  have "\<not> is_tx_key ''a''" "\<not> is_tx_key ''b''" by code_simp+
  then show ?thesis
    by (auto simp: tx_init_def demo_tm_def NewTxManager_def held_def demo_store_def NewStore_def
        split: if_splits)
qed

lemma demo_prepare_eq: "Prepare (mem_badger []) 40 demo_tm demo_prepare = Some (demo_prepared, OK)"
proof -
  have "snd (the (Prepare (mem_badger []) 40 demo_tm demo_prepare)) = OK"
    "case Prepare (mem_badger []) 40 demo_tm demo_prepare of None \<Rightarrow> False | Some _ \<Rightarrow> True"
    by code_simp+
  then show ?thesis by (auto simp: demo_prepared_def split: option.splits)
qed

lemma demo_reach: "reach (tx_init map_of) (tx_step (mem_badger []) map_of) demo_prepared"
proof (rule reach_step)
  show "reach (tx_init map_of) (tx_step (mem_badger []) map_of) demo_tm"
    by (rule reach_init) (rule demo_init)
  have "prepare_wf demo_tm demo_prepare"
    by (auto simp: prepare_wf_def demo_prepare_def demo_tm_def NewTxManager_def is_tx_key_def txKeyPrefix_def)
  then show "tx_step (mem_badger []) map_of demo_tm demo_prepared"
    by (rule t_prepare [OF demo_prepare_eq])
qed

text \<open>
  \<^bold>\<open>C6\<close>. In every reachable state of the participant, whatever Badger returned on the way and
  however often it crashed, the holder of a lock is a prepared transaction that writes the key
  and whose prepare record is on disk: no lock outlives its transaction or is lost by a restart.
\<close>

theorem lock_holder_prepared:
  assumes "badger B content seen" "reach (tx_init content) (tx_step B content) tm"
    "lockTable tm k = Some t"
  shows "\<exists>rec. preparedTxs tm t = Some rec \<and> k \<in> rec_keys rec \<and> prep_on_disk content tm t rec"
proof -
  have i: "tx_inv content tm" using badger.reach_tx_inv [OF assms(1,2)] .
  then show ?thesis using tx_inv_lock [OF i assms(3)] tx_inv_cached [OF i] by blast
qed

theorem lock_holder_prepared_witness:
  "\<exists>rec. preparedTxs demo_prepared ''t1'' = Some rec \<and> ''a'' \<in> rec_keys rec
     \<and> prep_on_disk map_of demo_prepared ''t1'' rec"
proof -
  have "lockTable demo_prepared ''a'' = Some ''t1''" by code_simp
  then show ?thesis by (rule lock_holder_prepared [OF mem.badger_axioms demo_reach])
qed


definition demo_committed :: "mem_db TxManager" where
  "demo_committed = fst (the (Commit (mem_badger []) demo_prepared \<lparr> caTxID = ''t1'', caWriteKeys = [] \<rparr>))"

lemma demo_commit_eq:
  "Commit (mem_badger []) demo_prepared \<lparr> caTxID = ''t1'', caWriteKeys = [] \<rparr> = Some (demo_committed, OK)"
proof -
  have "map_option snd (Commit (mem_badger []) demo_prepared \<lparr> caTxID = ''t1'', caWriteKeys = [] \<rparr>) = Some OK"
    by code_simp
  then show ?thesis by (auto simp: demo_committed_def)
qed


text \<open>
  \<^bold>\<open>C8\<close>. A \<open>Prepare\<close> that answers \<open>OK\<close> has locked every key of the write set for the
  transaction, has its record in memory and on disk, and every (user) key of the read set has,
  in the state it leaves, the live version the transaction read.
\<close>

theorem Prepare_guarantees:
  assumes "badger B content seen" "Prepare B now tm args = Some (tm', OK)"
  shows "(\<forall>wk \<in> set (paWriteKeys args). lockTable tm' (wkKey wk) = Some (paTxID args))
    \<and> preparedTxs tm' (paTxID args) = Some (prepare_record now args)
    \<and> prep_on_disk content tm' (paTxID args) (prepare_record now args)
    \<and> (\<forall>rk \<in> set (paReadKeys args). \<not> is_tx_key (rkKey rk)
         \<longrightarrow> rkExpectedVersion rk = live_version content now (txStore tm') (rkKey rk))"
  using badger.Prepare_ok [OF assms] by blast

theorem Prepare_guarantees_witness:
  "lockTable demo_prepared ''a'' = Some ''t1'' \<and> live_version map_of 40 (txStore demo_prepared) ''b'' = 1"
proof -
  have "\<not> is_tx_key ''b''" by code_simp
  then show ?thesis
    using Prepare_guarantees [OF mem.badger_axioms demo_prepare_eq] by (auto simp: demo_prepare_def)
qed

text \<open>
  Mutual exclusion of prepared transactions: when a key of the write set is locked
  by another transaction, and every other transaction that holds a key of the write set is
  prepared and undecided, \<open>Prepare\<close> answers \<open>ErrTxConflict\<close> and changes nothing.
\<close>

theorem Prepare_refuses_locked:
  assumes "\<not> muHeld tm" "wk \<in> set (paWriteKeys args)"
    "lockTable tm (wkKey wk) = Some h" "h \<noteq> paTxID args"
    "\<forall>wk \<in> set (paWriteKeys args). \<forall>h. lockTable tm (wkKey wk) = Some h
       \<longrightarrow> h = paTxID args \<or> undecided B tm h"
  shows "Prepare B now tm args = Some (tm, ErrTxConflict)"
  using assms(1) check_locks_refuses [OF assms(5,2,3,4)] by (simp add: Prepare_def)

theorem Prepare_refuses_locked_witness:
  "Prepare (mem_badger []) 41 demo_prepared (demo_prepare\<lparr> paTxID := ''t2'' \<rparr>)
     = Some (demo_prepared, ErrTxConflict)"
proof (rule Prepare_refuses_locked)
  let ?wk = "\<lparr> wkKey = ''a'', wkValue = ''n'', wkVersion = 3, wkIsDelete = False \<rparr>"
  show "?wk \<in> set (paWriteKeys (demo_prepare\<lparr> paTxID := ''t2'' \<rparr>))" by (simp add: demo_prepare_def)
  show l: "lockTable demo_prepared (wkKey ?wk) = Some ''t1''" and "\<not> muHeld demo_prepared"
    and "''t1'' \<noteq> paTxID (demo_prepare\<lparr> paTxID := ''t2'' \<rparr>)"
    by code_simp+
  have p: "preparedTxs demo_prepared ''t1'' = Some (prepare_record 40 demo_prepare)"
    and q: "queryCoordinatorDecision (mem_badger []) demo_prepared (prepare_record 40 demo_prepare) = TxStatusUnknown"
    and r: "found_record (mem_badger []) demo_prepared (txCommitPrefix @ ''t1'') = None"
      "found_record (mem_badger []) demo_prepared (txAbortPrefix @ ''t1'') = None"
    by code_simp+
  have "undecided (mem_badger []) demo_prepared ''t1''"
    unfolding undecided_def using p q r by auto
  then show "\<forall>wk \<in> set (paWriteKeys (demo_prepare\<lparr> paTxID := ''t2'' \<rparr>)).
      \<forall>h. lockTable demo_prepared (wkKey wk) = Some h \<longrightarrow>
        h = paTxID (demo_prepare\<lparr> paTxID := ''t2'' \<rparr>) \<or> undecided (mem_badger []) demo_prepared h"
    using l by (auto simp: demo_prepare_def)
qed

end
