(* ===== verification/Store_Snapshot.thy ===== *)
theory Store_Snapshot
  imports Store
begin

text \<open>
  Snapshots of the store (\<^verbatim>\<open>src/pkg/storage/store.go\<close>): \<open>SaveSnapshot\<close> exports every key
  into a JSON envelope, user entries decoded and transaction records as raw bytes;
  \<open>LoadSnapshot\<close> fills a temporary database from an envelope and swaps the directories. The
  outcomes of the calls to package \<open>os\<close> are the fields of \<open>os_outcome\<close>. The last section
  proves that a snapshot that is loaded restores what was saved.
\<close>

section \<open>The envelope\<close>

record snapshotEnvelope =
  snKV :: "(string \<times> kvEntry) list"
  snTxRecords :: "(string \<times> raw) list"

definition marshal_envelope :: "snapshotEnvelope \<Rightarrow> raw" where
  "marshal_envelope e =
     JObj ((''kv'', JObj (map (\<lambda>(k, x). (k, marshal_kvEntry x)) (snKV e)))
           # omitempty (snTxRecords e = []) ''tx_records''
               (JObj (map (\<lambda>(k, x). (k, JBytes x)) (snTxRecords e))))"

text \<open>A snapshot without the field \<open>kv\<close> is an older one, the bare map of the entries.\<close>

definition unmarshal_envelope :: "raw \<Rightarrow> snapshotEnvelope option" where
  "unmarshal_envelope j =
     (case dec_obj j of
        None \<Rightarrow> None
      | Some fs \<Rightarrow>
          (case (dec_map unmarshal_kvEntry (jfield ''kv'' fs), dec_map dec_bytes (jfield ''tx_records'' fs)) of
             (Some kv, Some tx) \<Rightarrow>
               if jfield ''kv'' fs = JNull
               then (case dec_map unmarshal_kvEntry j of
                       None \<Rightarrow> None
                     | Some kv' \<Rightarrow> Some \<lparr> snKV = kv', snTxRecords = tx \<rparr>)
               else Some \<lparr> snKV = kv, snTxRecords = tx \<rparr>
           | _ \<Rightarrow> None))"

interpretation envelope_codec: json_codec marshal_envelope unmarshal_envelope
  by unfold_locales
     (simp del: jfield.simps(2) add: marshal_envelope_def unmarshal_envelope_def omitempty_def jfield_eval
        kvEntry_codec.dec_map_enc bytes_codec.dec_map_enc dec_map_def [of _ JNull])

section \<open>Saving\<close>

fun snapshot_loop ::
  "(string \<times> (berr + raw)) list \<Rightarrow> snapshotEnvelope \<Rightarrow> serr + snapshotEnvelope" where
  "snapshot_loop [] env = Inr env"
| "snapshot_loop ((key, Inl e) # its) env = Inl (SBadger e)"
| "snapshot_loop ((key, Inr value) # its) env =
     (if prefix txKeyPrefix key
      then snapshot_loop its (env\<lparr> snTxRecords := snTxRecords env @ [(key, value)] \<rparr>)
      else case unmarshal_kvEntry value of
             None \<Rightarrow> Inl SUnmarshal
           | Some entry \<Rightarrow> snapshot_loop its (env\<lparr> snKV := snKV env @ [(key, entry)] \<rparr>))"

definition SaveSnapshot :: "('db, 'txn) badger \<Rightarrow> 'db Store \<Rightarrow> serr + raw" where
  "SaveSnapshot B s =
     (case db_View B (sdb s) (\<lambda>t. snapshot_loop (txn_Iterate B t []) \<lparr> snKV = [], snTxRecords = [] \<rparr>) of
        Inl e \<Rightarrow> Inl e
      | Inr env \<Rightarrow> Inr (marshal_envelope env))"

section \<open>Loading\<close>

text \<open>One \<open>db.Update\<close> with a \<open>txn.Set\<close> per pair, up to the first error.\<close>

fun write_all :: "('db, 'txn) badger \<Rightarrow> 'db \<Rightarrow> (string \<times> raw) list \<Rightarrow> serr + 'db" where
  "write_all B d [] = Inr d"
| "write_all B d ((key, data) # kvs) =
     (case db_Update B d (\<lambda>t. case txn_Set B t key data of
                               Inl e \<Rightarrow> Inl (SBadger e) | Inr t' \<Rightarrow> Inr (t', ())) of
        (_, Inl e) \<Rightarrow> Inl e
      | (d', Inr _) \<Rightarrow> write_all B d' kvs)"

text \<open>What the calls to \<open>os\<close> return: whether each of them succeeded.\<close>

record os_outcome =
  rm_tmp_ok :: bool
  rm_backup_ok :: bool
  db_dir_exists :: bool
  mv_backup_ok :: bool
  mv_swap_ok :: bool
  rm_db_ok :: bool
  mv_back_ok :: bool

text \<open>
  The outcomes of a load: done, an error with the store usable, and an error that leaves
  \<open>s.db\<close> nil.
\<close>

datatype 'db load_result = LoadOK "'db Store" | LoadErr "'db Store" | LoadNoDB

text \<open>The directories are swapped once the old database is closed and \<open>s.db\<close> is nil.\<close>

definition swap_db ::
  "('db, 'txn) badger \<Rightarrow> os_outcome \<Rightarrow> 'db Store \<Rightarrow> 'db \<Rightarrow> 'db load_result" where
  "swap_db B os s tmp =
     (if \<not> rm_backup_ok os then LoadNoDB
      else if db_dir_exists os \<and> \<not> mv_backup_ok os then LoadNoDB
      else if \<not> mv_swap_ok os then LoadNoDB
      else case badger_Open B (Some tmp) of
             Inr newDB \<Rightarrow> LoadOK (s\<lparr> sdb := newDB \<rparr>)
           | Inl e \<Rightarrow>
               (case badger_Open B (if \<not> rm_db_ok os then Some tmp
                                    else if db_dir_exists os \<and> mv_back_ok os then Some (sdb s)
                                    else None) of
                  Inr fallbackDB \<Rightarrow> LoadErr (s\<lparr> sdb := fallbackDB \<rparr>)
                | Inl e' \<Rightarrow> LoadNoDB))"

definition LoadSnapshot ::
  "('db, 'txn) badger \<Rightarrow> os_outcome \<Rightarrow> 'db Store \<Rightarrow> raw \<Rightarrow> 'db load_result" where
  "LoadSnapshot B os s snapshotData =
     (case unmarshal_envelope snapshotData of
        None \<Rightarrow> LoadErr s
      | Some env \<Rightarrow>
          if \<not> rm_tmp_ok os then LoadErr s
          else case badger_Open B None of
                 Inl e \<Rightarrow> LoadErr s
               | Inr tmpDB \<Rightarrow>
                   (case write_all B tmpDB (map (\<lambda>(k, e). (k, marshal_kvEntry e)) (snKV env)) of
                      Inl e \<Rightarrow> LoadErr s
                    | Inr tmp1 \<Rightarrow>
                        (case write_all B tmp1 (snTxRecords env) of
                           Inl e \<Rightarrow> LoadErr s
                         | Inr tmp2 \<Rightarrow>
                             if db_Close B tmp2 \<noteq> None then LoadErr s
                             else if db_Close B (sdb s) \<noteq> None then LoadErr s
                             else swap_db B os s tmp2)))"

section \<open>Lemmas\<close>

text \<open>What the loop collects: the user entries decoded and the records as they are.\<close>

definition user_items :: "(string \<times> (berr + raw)) list \<Rightarrow> (string \<times> kvEntry) list" where
  "user_items its = map (\<lambda>(k, r). (k, the (unmarshal_kvEntry (projr r)))) (filter (\<lambda>(k, _). \<not> is_tx_key k) its)"

definition tx_items :: "(string \<times> (berr + raw)) list \<Rightarrow> (string \<times> raw) list" where
  "tx_items its = map (\<lambda>(k, r). (k, projr r)) (filter (\<lambda>(k, _). is_tx_key k) its)"

lemma snapshot_loop_collects:
  assumes "snapshot_loop its env = Inr env'"
  shows "snKV env' = snKV env @ user_items its \<and> snTxRecords env' = snTxRecords env @ tx_items its
    \<and> (\<forall>(k, r) \<in> set its. \<exists>v. r = Inr v \<and> (is_tx_key k \<or> unmarshal_kvEntry v \<noteq> None))"
  using assms
  by (induction its env rule: snapshot_loop.induct)
     (auto simp: user_items_def tx_items_def is_tx_key_def split: if_splits option.splits)

lemma distinct_items:
  "distinct (map fst its) \<Longrightarrow> distinct (map fst (user_items its)) \<and> distinct (map fst (tx_items its))"
  by (induction its) (auto simp: user_items_def tx_items_def image_iff)

lemma map_of_user_items:
  "map_of (user_items its) k =
     (if is_tx_key k then None else map_option (\<lambda>r. the (unmarshal_kvEntry (projr r))) (map_of its k))"
  by (simp add: user_items_def map_of_map_snd map_of_filter_key)

lemma map_of_tx_items:
  "map_of (tx_items its) k = (if is_tx_key k then map_option projr (map_of its k) else None)"
  by (simp add: tx_items_def map_of_map_snd map_of_filter_key)

context badger
begin

lemma write_all_content:
  assumes "write_all B d kvs = Inr d'" "distinct (map fst kvs)"
  shows "content d' = content d ++ map_of kvs"
  using assms
proof (induction kvs arbitrary: d)
  case (Cons p kvs)
  obtain k v where p: "p = (k, v)" by (cases p)
  from Cons.prems(1) p obtain d1 where
    u: "db_Update B d (\<lambda>t. case txn_Set B t k v of Inl e \<Rightarrow> Inl (SBadger e) | Inr t' \<Rightarrow> Inr (t', ())) = (d1, Inr ())"
    and r: "write_all B d1 kvs = Inr d'"
    by (auto split: prod.splits sum.splits)
  have d1: "content d1 = (content d)(k \<mapsto> v)"
    by (rule update_ok [OF u]) (auto split: sum.splits dest!: set_seen)
  have "k \<notin> fst ` set kvs" using Cons.prems(2) p by simp
  then show ?case
    using Cons.IH [OF r] Cons.prems(2) d1 p
    by (auto simp: fun_eq_iff map_add_def map_of_eq_None_iff image_iff split: option.splits)
qed simp

lemma SaveSnapshot_content:
  assumes "SaveSnapshot B s = Inr data"
  obtains env where "data = marshal_envelope env"
    "distinct (map fst (snKV env))" "distinct (map fst (snTxRecords env))"
    "\<And>k. map_of (snKV env) k = (if is_tx_key k then None else stored content s k)"
    "\<And>k. map_of (snTxRecords env) k = (if is_tx_key k then content (sdb s) k else None)"
proof -
  let ?e0 = "\<lparr> snKV = [], snTxRecords = [] \<rparr>"
  from assms obtain env where env: "data = marshal_envelope env"
    and v: "db_View B (sdb s) (\<lambda>t. snapshot_loop (txn_Iterate B t []) ?e0) = Inr env"
    by (auto simp: SaveSnapshot_def split: sum.splits)
  from v obtain t where t: "seen t = content (sdb s)" "snapshot_loop (txn_Iterate B t []) ?e0 = Inr env"
    by (rule view_ok)
  let ?its = "txn_Iterate B t []"
  note C = snapshot_loop_collects [OF t(2)]
  have ok: "\<forall>(k, r) \<in> set ?its. \<exists>v. r = Inr v" using C by fast
  note I = iterate_map_of [OF ok]
  show thesis
  proof (rule that [OF env])
    show "distinct (map fst (snKV env))" "distinct (map fst (snTxRecords env))"
      using C distinct_items [OF iterate_distinct [of t "[]"]] by simp_all
    fix k
    show "map_of (snTxRecords env) k = (if is_tx_key k then content (sdb s) k else None)"
      using C t(1) by (simp add: map_of_tx_items I option.map_comp comp_def option.map_ident)
    have "\<exists>e. unmarshal_kvEntry v = Some e" if "\<not> is_tx_key k" "seen t k = Some v" for v
    proof -
      have "(k, Inr v) \<in> set ?its" using that(2) I [of k] by (auto intro: map_of_SomeD)
      then show ?thesis using C that(1) by fastforce
    qed
    then show "map_of (snKV env) k = (if is_tx_key k then None else stored content s k)"
      using C t(1) by (cases "seen t k") (auto simp: map_of_user_items I stored_def)
  qed
qed

lemma LoadSnapshot_content:
  assumes "LoadSnapshot B os s (marshal_envelope env) = LoadOK s'"
    "distinct (map fst (snKV env))" "distinct (map fst (snTxRecords env))"
  shows "content (sdb s') k =
    (case map_of (snTxRecords env) k of Some v \<Rightarrow> Some v
     | None \<Rightarrow> map_option marshal_kvEntry (map_of (snKV env) k))"
    and "expiryHeap s' = expiryHeap s" and "tombstones s' = tombstones s"
proof -
  let ?kv = "map (\<lambda>(k, e). (k, marshal_kvEntry e)) (snKV env)"
  from assms(1) obtain d0 d1 d2 where d: "badger_Open B None = Inr d0" "write_all B d0 ?kv = Inr d1"
    "write_all B d1 (snTxRecords env) = Inr d2" and sw: "swap_db B os s d2 = LoadOK s'"
    by (auto simp: LoadSnapshot_def split: sum.splits if_splits)
  from sw obtain nd where nd: "badger_Open B (Some d2) = Inr nd" "s' = s\<lparr> sdb := nd \<rparr>"
    by (auto simp: swap_db_def split: sum.splits if_splits)
  have "distinct (map fst ?kv)" using assms(2) by (simp add: comp_def case_prod_unfold)
  then have "content d2 = (Map.empty ++ map_of ?kv) ++ map_of (snTxRecords env)"
    using write_all_content [OF d(2)] write_all_content [OF d(3) assms(3)] open_fresh [OF d(1)] by simp
  then show "content (sdb s') k =
    (case map_of (snTxRecords env) k of Some v \<Rightarrow> Some v
     | None \<Rightarrow> map_option marshal_kvEntry (map_of (snKV env) k))"
    using open_again [OF nd(1)] nd(2) by (simp add: map_add_def map_of_map_snd split: option.split)
  show "expiryHeap s' = expiryHeap s" "tombstones s' = tombstones s" using nd(2) by simp_all
qed

lemma snapshot_restores:
  assumes "SaveSnapshot B s = Inr data" "LoadSnapshot B os u data = LoadOK u'"
  shows "\<not> is_tx_key k \<Longrightarrow> stored content u' k = stored content s k"
    and "is_tx_key k \<Longrightarrow> content (sdb u') k = content (sdb s) k"
    and "expiryHeap u' = expiryHeap u"
proof -
  from assms(1) obtain env where env: "data = marshal_envelope env"
    "distinct (map fst (snKV env))" "distinct (map fst (snTxRecords env))"
    "\<And>k. map_of (snKV env) k = (if is_tx_key k then None else stored content s k)"
    "\<And>k. map_of (snTxRecords env) k = (if is_tx_key k then content (sdb s) k else None)"
    by (rule SaveSnapshot_content) blast
  note L = LoadSnapshot_content [OF assms(2) [unfolded env(1)] env(2,3)]
  show "stored content u' k = stored content s k" if "\<not> is_tx_key k"
    using that L(1) [of k] env(4,5) [of k]
    by (cases "stored content s k") (simp_all add: stored_def [of content u'] codec_simps)
  show "content (sdb u') k = content (sdb s) k" if "is_tx_key k"
    using that L(1) [of k] env(4,5) [of k] by (cases "content (sdb s) k") simp_all
  show "expiryHeap u' = expiryHeap u" by (rule L(2))
qed

end

section \<open>Properties\<close>

text \<open>
  \<^bold>\<open>C5\<close>. A snapshot that \<open>SaveSnapshot\<close> took of one store and that \<open>LoadSnapshot\<close> loaded
  into another restores it: every user key has the entry it had, and every transaction record
  the bytes it had. Keys of the other store do not survive, but its expiry heap does: the load
  neither clears nor rebuilds it.
\<close>

theorem snapshot_roundtrip:
  assumes "badger B content seen" "SaveSnapshot B s = Inr data" "LoadSnapshot B os u data = LoadOK u'"
  shows "(\<forall>k. \<not> is_tx_key k \<longrightarrow> stored content u' k = stored content s k)
    \<and> (\<forall>k. is_tx_key k \<longrightarrow> content (sdb u') k = content (sdb s) k)
    \<and> expiryHeap u' = expiryHeap u"
  using badger.snapshot_restores [OF assms] by blast

definition all_fine :: os_outcome where
  "all_fine = \<lparr> rm_tmp_ok = True, rm_backup_ok = True, db_dir_exists = True, mv_backup_ok = True,
     mv_swap_ok = True, rm_db_ok = True, mv_back_ok = True \<rparr>"

definition demo_saved :: "mem_db Store" where
  "demo_saved = fst (PutTxRecord (mem_badger []) demo_store ''commit:t'' (JStr ''ok''))"

theorem snapshot_roundtrip_witness:
  "\<exists>data u'. SaveSnapshot (mem_badger []) demo_saved = Inr data
     \<and> LoadSnapshot (mem_badger []) all_fine (NewStore []) data = LoadOK u'
     \<and> stored map_of u' ''a'' = stored map_of demo_saved ''a''
     \<and> map_of (sdb u') ''_tx:commit:t'' = map_of (sdb demo_saved) ''_tx:commit:t''"
proof -
  have l: "case SaveSnapshot (mem_badger []) demo_saved of Inl e \<Rightarrow> False
      | Inr data \<Rightarrow> (case LoadSnapshot (mem_badger []) all_fine (NewStore []) data of
          LoadOK u' \<Rightarrow> True | _ \<Rightarrow> False)"
    and k: "\<not> is_tx_key ''a''" "is_tx_key ''_tx:commit:t''"
    by code_simp+
  from l obtain data u' where d: "SaveSnapshot (mem_badger []) demo_saved = Inr data"
    "LoadSnapshot (mem_badger []) all_fine (NewStore []) data = LoadOK u'"
    by (auto split: sum.splits load_result.splits)
  then show ?thesis using snapshot_roundtrip [OF mem.badger_axioms d] k by blast
qed

end
