(* ===== verification/Decimal.thy ===== *)
theory Decimal
  imports Json
begin

text \<open>
  Decimal numerals, as \<open>encoding/json\<close> writes the keys of a \<open>map[int]T\<close> (\<open>strconv.Itoa\<close>) and
  reads them back (\<open>strconv.ParseInt\<close>: an optional sign and at least one digit, in the range of
  the type), and the codec of such a map, whose later entries replace earlier ones.
\<close>

definition digit_char :: "nat \<Rightarrow> char" where
  "digit_char d = char_of (48 + d)"

definition digit_val :: "char \<Rightarrow> nat option" where
  "digit_val c = (let n = of_char c :: nat in if 48 \<le> n \<and> n \<le> 57 then Some (n - 48) else None)"

fun nat_digits :: "nat \<Rightarrow> string" where
  "nat_digits n = (if n < 10 then [digit_char n] else nat_digits (n div 10) @ [digit_char (n mod 10)])"

declare nat_digits.simps [simp del]

fun parse_digits :: "nat \<Rightarrow> string \<Rightarrow> nat option" where
  "parse_digits acc [] = Some acc"
| "parse_digits acc (c # cs) =
     (case digit_val c of None \<Rightarrow> None | Some d \<Rightarrow> parse_digits (10 * acc + d) cs)"

definition itoa :: "goint \<Rightarrow> string" where
  "itoa w = (if sint w < 0 then CHR ''-'' # nat_digits (nat (- sint w)) else nat_digits (nat (sint w)))"

definition parse_int :: "string \<Rightarrow> goint option" where
  "parse_int s =
     (let (neg, ds) = (case s of [] \<Rightarrow> (False, []) | c # cs \<Rightarrow>
            if c = CHR ''-'' then (True, cs) else if c = CHR ''+'' then (False, cs) else (False, s))
      in if ds = [] then None
         else case parse_digits 0 ds of
                None \<Rightarrow> None
              | Some n \<Rightarrow>
                  let i = (if neg then - int n else int n)
                  in if - (2 ^ 63) \<le> i \<and> i < 2 ^ 63 then Some (word_of_int i) else None)"

lemma digit_val_char: "d < 10 \<Longrightarrow> digit_val (digit_char d) = Some d"
  by (simp add: digit_val_def digit_char_def Let_def)

lemma parse_digits_append: "parse_digits acc (xs @ ys) =
  (case parse_digits acc xs of None \<Rightarrow> None | Some a \<Rightarrow> parse_digits a ys)"
  by (induction xs arbitrary: acc) (auto split: option.splits)

lemma parse_nat_digits: "parse_digits 0 (nat_digits n) = Some n"
proof (induction n rule: nat_digits.induct)
  case (1 n)
  then show ?case
    by (subst nat_digits.simps) (auto simp: digit_val_char parse_digits_append)
qed

lemma nat_digits_nonempty: "nat_digits n \<noteq> []"
  by (subst nat_digits.simps) simp

lemma nat_digits_hd: "\<exists>d < 10. hd (nat_digits n) = digit_char d"
proof (induction n rule: nat_digits.induct)
  case (1 n)
  then show ?case
    by (subst nat_digits.simps) (auto simp: hd_append nat_digits_nonempty)
qed

lemma digit_char_sign: "d < 10 \<Longrightarrow> digit_char d \<noteq> CHR ''-'' \<and> digit_char d \<noteq> CHR ''+''"
proof -
  assume "d < 10"
  then have "(of_char (digit_char d) :: nat) = 48 + d" by (simp add: digit_char_def)
  then show ?thesis by auto
qed

lemma parse_itoa: "parse_int (itoa w) = Some w"
proof -
  obtain d ds where nd: "nat_digits (nat (sint w)) = digit_char d # ds" "d < 10"
    using nat_digits_hd [of "nat (sint w)"] nat_digits_nonempty [of "nat (sint w)"]
    by (metis list.collapse)
  show ?thesis
  proof (cases "sint w < 0")
    case True
    then show ?thesis
      using sint_range64 [of w]
      by (simp add: parse_int_def itoa_def parse_nat_digits nat_digits_nonempty Let_def)
  next
    case False
    have p: "parse_digits 0 (digit_char d # ds) = Some (nat (sint w))"
      using parse_nat_digits [of "nat (sint w)"] nd by simp
    show ?thesis
      using False sint_range64 [of w] nd(1) digit_char_sign [OF nd(2)] p
      by (simp add: parse_int_def itoa_def Let_def del: parse_digits.simps)
  qed
qed

section \<open>Maps keyed by integers\<close>

definition enc_int_map :: "('a \<Rightarrow> json) \<Rightarrow> (goint \<times> 'a) list \<Rightarrow> json" where
  "enc_int_map enc kvs = JObj (map (\<lambda>(k, v). (itoa k, enc v)) kvs)"

definition dec_int_map :: "(json \<Rightarrow> 'a option) \<Rightarrow> json \<Rightarrow> (goint \<times> 'a) list option" where
  "dec_int_map dec j =
     (case dec_obj j of
        None \<Rightarrow> None
      | Some kvs \<Rightarrow>
          map_option (\<lambda>xs. fold (\<lambda>(k, v) m. AList.update k v m) xs [])
            (map_opt (\<lambda>(k, v). case (parse_int k, dec v) of (Some i, Some x) \<Rightarrow> Some (i, x) | _ \<Rightarrow> None) kvs))"

lemma fold_alist_update:
  "distinct (map fst (acc @ xs)) \<Longrightarrow> fold (\<lambda>(k, v) m. AList.update k v m) xs acc = acc @ xs"
proof (induction xs arbitrary: acc)
  case (Cons x xs)
  have upd: "AList.update (fst x) (snd x) acc = acc @ [x]" if "fst x \<notin> fst ` set acc"
    using that by (induction acc) auto
  from Cons.prems have "fst x \<notin> fst ` set acc" "distinct (map fst ((acc @ [x]) @ xs))" by auto
  then show ?case using Cons.IH [of "acc @ [x]"] upd by (simp add: case_prod_unfold)
qed simp

context json_codec
begin

lemma dec_int_map_enc:
  assumes "distinct (map fst kvs)"
  shows "dec_int_map dec (enc_int_map enc kvs) = Some kvs"
proof -
  have "map_opt (\<lambda>(k, v). case (parse_int k, dec v) of (Some i, Some x) \<Rightarrow> Some (i, x) | _ \<Rightarrow> None)
      (map (\<lambda>(k, v). (itoa k, enc v)) kvs) = Some (map id kvs)"
    by (rule map_opt_map) (auto simp: parse_itoa)
  then show ?thesis
    using fold_alist_update [of "[]" kvs] assms by (simp add: dec_int_map_def enc_int_map_def)
qed

end

end
