(* ===== verification/Shard_State.thy ===== *)
theory Shard_State
  imports Decimal
begin

text \<open>
  The states of the shards on one node (\<^verbatim>\<open>src/pkg/kv/shard_state.go\<close>), set by the migration
  coordinator, and the forwarding of writes to the target group of a migrating shard. A Go map
  is an association list with distinct keys; an iteration over it takes the order as a parameter.
  Dialling a replica and the calls of the generated gRPC client are parameters.
\<close>

section \<open>States\<close>

type_synonym ShardState = "32 word"

text \<open>The values of the protocol enumeration; any other \<open>int32\<close> may arrive on the wire.\<close>

definition OWNED :: ShardState where "OWNED = 0"
definition MIGRATING :: ShardState where "MIGRATING = 1"
definition IMPORTING :: ShardState where "IMPORTING = 2"
definition ABSENT :: ShardState where "ABSENT = 3"

lemmas ShardState_defs = OWNED_def MIGRATING_def IMPORTING_def ABSENT_def

lemma ShardState_distinct [simp]:
  "MIGRATING \<noteq> ABSENT" "ABSENT \<noteq> MIGRATING" "OWNED \<noteq> ABSENT" "OWNED \<noteq> MIGRATING"
  "IMPORTING \<noteq> ABSENT" "IMPORTING \<noteq> MIGRATING"
  by (simp_all add: ShardState_defs)

record shardMeta =
  smState :: ShardState
  smTargetGroup :: goint
  smTargetReplicas :: "string list"

record shardStateSnapshot =
  snEpoch :: int64
  snStates :: "(goint \<times> shardMeta) list"

text \<open>\<open>forwardClients\<close>: the target group and the address its connection was made to.\<close>

record shardStateManager =
  ssStates :: "(goint \<times> shardMeta) list"
  ssEpoch :: int64
  ssGroupID :: goint
  ssNumShards :: nat
  ssForwardClients :: "(goint \<times> string) list"

definition newShardStateManager :: "goint \<Rightarrow> nat \<Rightarrow> shardStateManager" where
  "newShardStateManager groupID numShards =
     \<lparr> ssStates = map (\<lambda>i. (word_of_nat i, \<lparr> smState = OWNED, smTargetGroup = 0, smTargetReplicas = [] \<rparr>))
                    [0..<numShards],
       ssEpoch = 1, ssGroupID = groupID, ssNumShards = numShards, ssForwardClients = [] \<rparr>"

definition validateShardID :: "shardStateManager \<Rightarrow> goint \<Rightarrow> bool" where
  "validateShardID ssm shardID \<longleftrightarrow> \<not> (sint shardID < 0 \<or> sint shardID \<ge> int (ssNumShards ssm))"

text \<open>\<open>None\<close> is the error of an id out of range.\<close>

definition SetShardState ::
  "shardStateManager \<Rightarrow> goint \<Rightarrow> ShardState \<Rightarrow> goint \<Rightarrow> int64 \<Rightarrow> string list \<Rightarrow> shardStateManager option"
where
  "SetShardState ssm shardID state targetGroup epoch targetReplicas =
     (if \<not> validateShardID ssm shardID then None
      else Some (ssm\<lparr> ssEpoch := (if sint epoch > sint (ssEpoch ssm) then epoch else ssEpoch ssm),
                      ssStates := AList.update shardID
                        \<lparr> smState = state, smTargetGroup = targetGroup, smTargetReplicas = targetReplicas \<rparr>
                        (ssStates ssm) \<rparr>))"

definition GetShardState :: "shardStateManager \<Rightarrow> goint \<Rightarrow> shardMeta option" where
  "GetShardState ssm shardID = map_of (ssStates ssm) shardID"

definition GetEpoch :: "shardStateManager \<Rightarrow> int64" where
  "GetEpoch ssm = ssEpoch ssm"

definition AllStates :: "shardStateManager \<Rightarrow> (goint \<times> shardMeta) list" where
  "AllStates ssm = ssStates ssm"

definition shard_Snapshot :: "shardStateManager \<Rightarrow> shardStateSnapshot" where
  "shard_Snapshot ssm = \<lparr> snEpoch = ssEpoch ssm, snStates = ssStates ssm \<rparr>"

text \<open>\<open>None\<close> is the error of a snapshot of another size or with an id out of range.\<close>

definition shard_Restore :: "shardStateManager \<Rightarrow> shardStateSnapshot \<Rightarrow> shardStateManager option" where
  "shard_Restore ssm snapshot =
     (if length (snStates snapshot) \<noteq> ssNumShards ssm then None
      else if \<not> list_all (\<lambda>(shardID, _). validateShardID ssm shardID) (snStates snapshot) then None
      else Some (ssm\<lparr> ssStates := snStates snapshot, ssEpoch := snEpoch snapshot \<rparr>))"

section \<open>The JSON form of a snapshot\<close>

definition marshal_shardMeta :: "shardMeta \<Rightarrow> json" where
  "marshal_shardMeta m =
     JObj ((''state'', enc_int32 (smState m)) # (''target_group'', enc_int64 (smTargetGroup m))
           # omitempty (smTargetReplicas m = []) ''target_replicas'' (JArr (map JStr (smTargetReplicas m))))"

definition unmarshal_shardMeta :: "json \<Rightarrow> shardMeta option" where
  "unmarshal_shardMeta j =
     (case dec_obj j of
        None \<Rightarrow> None
      | Some fs \<Rightarrow>
          (case (dec_int32 (jfield ''state'' fs), dec_int64 (jfield ''target_group'' fs),
                 dec_list dec_str (jfield ''target_replicas'' fs)) of
             (Some s, Some g, Some rs) \<Rightarrow>
               Some \<lparr> smState = s, smTargetGroup = g, smTargetReplicas = rs \<rparr>
           | _ \<Rightarrow> None))"

interpretation shardMeta_codec: json_codec marshal_shardMeta unmarshal_shardMeta
  by unfold_locales
     (simp del: jfield.simps(2) add: marshal_shardMeta_def unmarshal_shardMeta_def omitempty_def jfield_eval codec_simps)

definition marshal_shards :: "shardStateSnapshot \<Rightarrow> json" where
  "marshal_shards s =
     JObj [(''epoch'', enc_int64 (snEpoch s)), (''states'', enc_int_map marshal_shardMeta (snStates s))]"

definition unmarshal_shards :: "json \<Rightarrow> shardStateSnapshot option" where
  "unmarshal_shards j =
     (case dec_obj j of
        None \<Rightarrow> None
      | Some fs \<Rightarrow>
          (case (dec_int64 (jfield ''epoch'' fs), dec_int_map unmarshal_shardMeta (jfield ''states'' fs)) of
             (Some e, Some st) \<Rightarrow> Some \<lparr> snEpoch = e, snStates = st \<rparr>
           | _ \<Rightarrow> None))"

lemma unmarshal_marshal_shards:
  "distinct (map fst (snStates s)) \<Longrightarrow> unmarshal_shards (marshal_shards s) = Some s"
  by (simp del: jfield.simps(2) add: marshal_shards_def unmarshal_shards_def jfield_eval codec_simps
      shardMeta_codec.dec_int_map_enc enc_int_map_def [of _ "snStates s"]
      shardMeta_codec.dec_int_map_enc [unfolded enc_int_map_def])

section \<open>Forwarding\<close>

text \<open>
  What the network answers: whether an address can be dialled, and the error string of the
  response of \<open>Put\<close> and \<open>Delete\<close> at an address (\<open>None\<close> when the call fails).
\<close>

record fwd_net =
  net_dial :: "string \<Rightarrow> bool"
  net_Put :: "string \<Rightarrow> string \<Rightarrow> string \<Rightarrow> int64 \<Rightarrow> string option"
  net_Delete :: "string \<Rightarrow> string \<Rightarrow> string option"

definition ensureForwardClient ::
  "fwd_net \<Rightarrow> shardStateManager \<Rightarrow> goint \<Rightarrow> string list \<Rightarrow> shardStateManager \<times> string option" where
  "ensureForwardClient net ssm targetGroup replicas =
     (case map_of (ssForwardClients ssm) targetGroup of
        Some c \<Rightarrow> (ssm, Some c)
      | None \<Rightarrow>
          (case find (net_dial net) replicas of
             None \<Rightarrow> (ssm, None)
           | Some addr \<Rightarrow>
               (ssm\<lparr> ssForwardClients := (targetGroup, addr) # ssForwardClients ssm \<rparr>, Some addr)))"

text \<open>The client for a group, dialled when some migrating shard names its replicas.\<close>

definition forward_client ::
  "fwd_net \<Rightarrow> ((goint \<times> shardMeta) list \<Rightarrow> (goint \<times> shardMeta) list) \<Rightarrow> shardStateManager \<Rightarrow> goint
   \<Rightarrow> shardStateManager \<times> string option" where
  "forward_client net order ssm targetGroup =
     (case map_of (ssForwardClients ssm) targetGroup of
        Some c \<Rightarrow> (ssm, Some c)
      | None \<Rightarrow>
          let replicas = (case find (\<lambda>(_, m). smTargetGroup m = targetGroup \<and> smState m = MIGRATING)
                                   (order (ssStates ssm)) of
                            None \<Rightarrow> [] | Some (_, m) \<Rightarrow> smTargetReplicas m)
          in if replicas = [] then (ssm, None) else ensureForwardClient net ssm targetGroup replicas)"

definition resp_ok :: "string option \<Rightarrow> bool" where
  "resp_ok r = (case r of None \<Rightarrow> False | Some e \<Rightarrow> e = '''' \<or> e = ''OK'' \<or> e = ''ErrNoKey'')"

definition ForwardWrite ::
  "fwd_net \<Rightarrow> ((goint \<times> shardMeta) list \<Rightarrow> (goint \<times> shardMeta) list) \<Rightarrow> shardStateManager \<Rightarrow> goint
   \<Rightarrow> string \<Rightarrow> string \<Rightarrow> int64 \<Rightarrow> shardStateManager \<times> bool" where
  "ForwardWrite net order ssm targetGroup key value version =
     (case forward_client net order ssm targetGroup of
        (ssm', None) \<Rightarrow> (ssm', False)
      | (ssm', Some client) \<Rightarrow> (ssm', resp_ok (net_Put net client key value version)))"

definition ForwardDelete ::
  "fwd_net \<Rightarrow> ((goint \<times> shardMeta) list \<Rightarrow> (goint \<times> shardMeta) list) \<Rightarrow> shardStateManager \<Rightarrow> goint
   \<Rightarrow> string \<Rightarrow> shardStateManager \<times> bool" where
  "ForwardDelete net order ssm targetGroup key =
     (case forward_client net order ssm targetGroup of
        (ssm', None) \<Rightarrow> (ssm', False)
      | (ssm', Some client) \<Rightarrow> (ssm', resp_ok (net_Delete net client key)))"

definition ssm_Close :: "shardStateManager \<Rightarrow> shardStateManager" where
  "ssm_Close ssm = ssm\<lparr> ssForwardClients := [] \<rparr>"

section \<open>Lemmas\<close>

text \<open>Every shard of the node has exactly one state.\<close>

definition shards_ok :: "shardStateManager \<Rightarrow> bool" where
  "shards_ok ssm \<longleftrightarrow> distinct (map fst (ssStates ssm)) \<and> ssNumShards ssm < 2 ^ 63
     \<and> set (map fst (ssStates ssm)) = {w. validateShardID ssm w}"

lemma valid_ids:
  assumes "n < 2 ^ 63"
  shows "{w :: goint. 0 \<le> sint w \<and> sint w < int n} = word_of_nat ` {0..<n}"
proof (intro set_eqI iffI)
  fix w :: goint assume w: "w \<in> {w. 0 \<le> sint w \<and> sint w < int n}"
  then have "w = word_of_nat (nat (sint w))" by simp
  then show "w \<in> word_of_nat ` {0..<n}" using w by (intro image_eqI [of _ _ "nat (sint w)"]) auto
next
  fix w :: goint assume "w \<in> word_of_nat ` {0..<n}"
  then obtain i where i: "i < n" "w = word_of_nat i" by auto
  then have "sint w = int i" using assms by (simp add: sint_of_nat64)
  then show "w \<in> {w. 0 \<le> sint w \<and> sint w < int n}" using i by simp
qed

lemma shards_ok_new: "n < 2 ^ 63 \<Longrightarrow> shards_ok (newShardStateManager g n)"
proof -
  assume n: "n < 2 ^ 63"
  have "inj_on (word_of_nat :: nat \<Rightarrow> goint) {0..<n}"
    by (rule inj_on_inverseI [of _ "\<lambda>w. nat (sint w)"]) (use n in \<open>simp add: sint_of_nat64\<close>)
  moreover have "{w. validateShardID (newShardStateManager g n) w} = word_of_nat ` {0..<n}"
    using valid_ids [OF n] by (simp add: validateShardID_def newShardStateManager_def not_less not_le)
  ultimately show ?thesis
    using n by (auto simp: shards_ok_def newShardStateManager_def comp_def distinct_map)
qed

lemma SetShardState_ok:
  assumes "shards_ok ssm" "SetShardState ssm i st g ep rs = Some ssm'"
  shows "shards_ok ssm'" and "sint (ssEpoch ssm) \<le> sint (ssEpoch ssm')" and "sint ep \<le> sint (ssEpoch ssm')"
    and "GetShardState ssm' j = (if j = i then Some \<lparr> smState = st, smTargetGroup = g, smTargetReplicas = rs \<rparr>
           else GetShardState ssm j)"
proof -
  have v: "validateShardID ssm i"
    and s: "ssm' = ssm\<lparr> ssEpoch := (if sint ep > sint (ssEpoch ssm) then ep else ssEpoch ssm),
      ssStates := AList.update i \<lparr> smState = st, smTargetGroup = g, smTargetReplicas = rs \<rparr> (ssStates ssm) \<rparr>"
    using assms(2) by (auto simp: SetShardState_def split: if_splits)
  show "sint (ssEpoch ssm) \<le> sint (ssEpoch ssm')" "sint ep \<le> sint (ssEpoch ssm')" using s by auto
  show "GetShardState ssm' j = (if j = i then Some \<lparr> smState = st, smTargetGroup = g, smTargetReplicas = rs \<rparr>
           else GetShardState ssm j)"
    using s by (simp add: GetShardState_def AList.update_conv')
  have "fst ` set (AList.update i x (ssStates ssm)) = insert i (fst ` set (ssStates ssm))" for x
    by (simp add: AList.dom_update)
  moreover have "validateShardID ssm' = validateShardID ssm" using s by (simp add: fun_eq_iff validateShardID_def)
  ultimately show "shards_ok ssm'"
    using assms(1) v s by (auto simp: shards_ok_def AList.distinct_update)
qed

lemma shard_Restore_ok:
  assumes "shards_ok ssm" "shard_Restore ssm sn = Some ssm'" "distinct (map fst (snStates sn))"
  shows "shards_ok ssm'" and "GetShardState ssm' = map_of (snStates sn)" and "ssEpoch ssm' = snEpoch sn"
proof -
  have l: "length (snStates sn) = ssNumShards ssm" "\<forall>x \<in> set (snStates sn). validateShardID ssm (fst x)"
    and s: "ssm' = ssm\<lparr> ssStates := snStates sn, ssEpoch := snEpoch sn \<rparr>"
    using assms(2) by (auto simp: shard_Restore_def list_all_iff split: if_splits)
  show "GetShardState ssm' = map_of (snStates sn)" "ssEpoch ssm' = snEpoch sn"
    using s by (simp_all add: fun_eq_iff GetShardState_def)
  let ?K = "set (map fst (snStates sn))" let ?V = "{w. validateShardID ssm w}"
  have n: "ssNumShards ssm < 2 ^ 63" using assms(1) by (simp add: shards_ok_def)
  have V: "?V = word_of_nat ` {0..<ssNumShards ssm}"
    using valid_ids [OF n] by (simp add: validateShardID_def not_less not_le)
  have "card ?V \<le> ssNumShards ssm" unfolding V using card_image_le [of "{0..<ssNumShards ssm}"] by simp
  moreover have "card ?K = ssNumShards ssm" using assms(3) l(1) distinct_card by fastforce
  moreover have "?K \<subseteq> ?V" "finite ?V" using l(2) V by auto
  ultimately have "?K = ?V" using card_seteq by metis
  moreover have "validateShardID ssm' = validateShardID ssm" using s by (simp add: fun_eq_iff validateShardID_def)
  ultimately show "shards_ok ssm'" using assms(3) n s by (simp add: shards_ok_def)
qed

lemma shard_Restore_complete:
  assumes "shards_ok ssm" "shards_ok src" "ssNumShards ssm = ssNumShards src"
  shows "\<exists>ssm'. shard_Restore ssm (shard_Snapshot src) = Some ssm'"
proof -
  have v: "validateShardID ssm = validateShardID src" using assms(3) by (simp add: fun_eq_iff validateShardID_def)
  have n: "ssNumShards src < 2 ^ 63" using assms(2) by (simp add: shards_ok_def)
  have "inj_on (word_of_nat :: nat \<Rightarrow> goint) {0..<ssNumShards src}"
    by (rule inj_on_inverseI [of _ "\<lambda>w. nat (sint w)"]) (use n in \<open>simp add: sint_of_nat64\<close>)
  then have "card {w. validateShardID src w} = ssNumShards src"
    using valid_ids [OF n] by (simp add: validateShardID_def not_less not_le card_image)
  then have "length (ssStates src) = ssNumShards src"
    using assms(2) unfolding shards_ok_def by (metis distinct_card length_map)
  moreover have "\<forall>x \<in> set (ssStates src). validateShardID ssm (fst x)"
    using assms(2) v unfolding shards_ok_def by (metis imageI mem_Collect_eq set_map)
  ultimately show ?thesis
    using assms(3) by (auto simp: shard_Restore_def shard_Snapshot_def list_all_iff)
qed

text \<open>The replicated operations on the states, and what they keep.\<close>

inductive shard_step :: "shardStateManager \<Rightarrow> shardStateManager \<Rightarrow> bool" where
  "SetShardState ssm i st g ep rs = Some ssm' \<Longrightarrow> shard_step ssm ssm'"
| "ensureForwardClient net ssm g rs = (ssm', c) \<Longrightarrow> shard_step ssm ssm'"
| "ForwardWrite net order ssm g k v n = (ssm', ok) \<Longrightarrow> shard_step ssm ssm'"
| "ForwardDelete net order ssm g k = (ssm', ok) \<Longrightarrow> shard_step ssm ssm'"
| "shard_step ssm (ssm_Close ssm)"

lemma ensureForwardClient_frame:
  "ensureForwardClient net ssm g rs = (ssm', c) \<Longrightarrow> ssStates ssm' = ssStates ssm \<and> ssEpoch ssm' = ssEpoch ssm
    \<and> ssNumShards ssm' = ssNumShards ssm"
  by (auto simp: ensureForwardClient_def split: option.splits)

lemma forward_client_frame:
  "forward_client net order ssm g = (ssm', c) \<Longrightarrow> ssStates ssm' = ssStates ssm \<and> ssEpoch ssm' = ssEpoch ssm
    \<and> ssNumShards ssm' = ssNumShards ssm"
  by (auto simp: forward_client_def Let_def split: option.splits if_splits dest: ensureForwardClient_frame)

lemma ForwardWrite_frame:
  "ForwardWrite net order ssm g k v n = (ssm', ok) \<Longrightarrow> ssStates ssm' = ssStates ssm \<and> ssEpoch ssm' = ssEpoch ssm
    \<and> ssNumShards ssm' = ssNumShards ssm"
  by (auto simp: ForwardWrite_def split: prod.splits option.splits dest: forward_client_frame)

lemma ForwardDelete_frame:
  "ForwardDelete net order ssm g k = (ssm', ok) \<Longrightarrow> ssStates ssm' = ssStates ssm \<and> ssEpoch ssm' = ssEpoch ssm
    \<and> ssNumShards ssm' = ssNumShards ssm"
  by (auto simp: ForwardDelete_def split: prod.splits option.splits dest: forward_client_frame)

lemma shards_ok_cong:
  "shards_ok ssm \<Longrightarrow> ssStates ssm' = ssStates ssm \<Longrightarrow> ssNumShards ssm' = ssNumShards ssm \<Longrightarrow> shards_ok ssm'"
  by (simp add: shards_ok_def validateShardID_def)

lemma shard_step_ok: "shard_step ssm ssm' \<Longrightarrow> shards_ok ssm \<Longrightarrow> shards_ok ssm'"
  by (induction rule: shard_step.induct)
     (auto intro: SetShardState_ok(1) shards_ok_cong simp: ssm_Close_def
       dest: ensureForwardClient_frame ForwardWrite_frame ForwardDelete_frame)

lemma shard_step_epoch: "shard_step ssm ssm' \<Longrightarrow> shards_ok ssm \<Longrightarrow> sint (ssEpoch ssm) \<le> sint (ssEpoch ssm')"
  by (induction rule: shard_step.induct)
     (auto intro: SetShardState_ok(2) simp: ssm_Close_def
       dest: ensureForwardClient_frame ForwardWrite_frame ForwardDelete_frame)

interpretation shard_system: invariant_system
  "\<lambda>ssm. \<exists>g n. n < 2 ^ 63 \<and> ssm = newShardStateManager g n" shard_step shards_ok
  by unfold_locales (auto intro: shards_ok_new shard_step_ok)

section \<open>Properties\<close>

text \<open>
  \<^bold>\<open>C12\<close>. From its creation on, a node has exactly one state for every shard id in range and
  none for any other, and the topology epoch it knows never decreases, whatever is set and
  forwarded.
\<close>

theorem shard_states_total_epoch_monotone:
  assumes "n < 2 ^ 63" "shard_step\<^sup>*\<^sup>* (newShardStateManager g n) ssm" "shard_step\<^sup>*\<^sup>* ssm ssm'"
  shows "(\<forall>i. GetShardState ssm' i \<noteq> None \<longleftrightarrow> validateShardID ssm' i)
    \<and> sint (GetEpoch ssm) \<le> sint (GetEpoch ssm')"
proof -
  have ok: "shards_ok ssm" using shard_system.steps_inv [OF assms(2)] shards_ok_new [OF assms(1)] by blast
  have ok': "shards_ok ssm'" using shard_system.steps_inv [OF assms(3) ok] .
  have "sint (ssEpoch ssm) \<le> sint (ssEpoch ssm')"
    using assms(3)
  proof (induction rule: rtranclp_induct)
    case (step u v)
    have "shards_ok u" using shard_system.steps_inv [OF step.hyps(1) ok] .
    then show ?case using step shard_step_epoch by fastforce
  qed simp
  moreover have "GetShardState ssm' i \<noteq> None \<longleftrightarrow> validateShardID ssm' i" for i
  proof -
    have "GetShardState ssm' i \<noteq> None \<longleftrightarrow> i \<in> set (map fst (ssStates ssm'))"
      by (simp add: GetShardState_def map_of_eq_None_iff)
    then show ?thesis using ok' by (auto simp: shards_ok_def)
  qed
  ultimately show ?thesis by (simp add: GetEpoch_def)
qed

definition demo_shards :: shardStateManager where
  "demo_shards = the (SetShardState (newShardStateManager 1 4) 2 MIGRATING 7 9 [''h:1''])"

theorem shard_states_total_epoch_monotone_witness:
  "(\<forall>i. GetShardState demo_shards i \<noteq> None \<longleftrightarrow> validateShardID demo_shards i)
   \<and> sint (GetEpoch (newShardStateManager 1 4)) \<le> sint (GetEpoch demo_shards)"
proof -
  have "SetShardState (newShardStateManager 1 4) 2 MIGRATING 7 9 [''h:1''] = Some demo_shards"
    by code_simp
  then have "shard_step (newShardStateManager 1 4) demo_shards" by (rule shard_step.intros(1))
  then show ?thesis
    using shard_states_total_epoch_monotone [of 4 1 "newShardStateManager 1 4" demo_shards] by auto
qed

text \<open>
  The shard states survive a snapshot: marshalled, read back and restored into a node
  with as many shards, they are accepted and give the same state of every shard and the epoch
  of the node that took the snapshot.
\<close>

theorem shard_snapshot_roundtrip:
  assumes "shards_ok src" "shards_ok ssm" "ssNumShards ssm = ssNumShards src"
  shows "\<exists>sn ssm'. unmarshal_shards (marshal_shards (shard_Snapshot src)) = Some sn
    \<and> shard_Restore ssm sn = Some ssm' \<and> GetShardState ssm' = GetShardState src
    \<and> GetEpoch ssm' = GetEpoch src \<and> shards_ok ssm'"
proof -
  have d: "distinct (map fst (snStates (shard_Snapshot src)))"
    using assms(1) by (simp add: shards_ok_def shard_Snapshot_def)
  obtain ssm' where r: "shard_Restore ssm (shard_Snapshot src) = Some ssm'"
    using shard_Restore_complete [OF assms(2,1,3)] by blast
  note R = shard_Restore_ok [OF assms(2) r d]
  have "unmarshal_shards (marshal_shards (shard_Snapshot src)) = Some (shard_Snapshot src)"
    using unmarshal_marshal_shards [OF d] .
  moreover have "GetShardState ssm' = GetShardState src" "GetEpoch ssm' = GetEpoch src"
    using R(2,3) by (simp_all add: fun_eq_iff GetShardState_def GetEpoch_def shard_Snapshot_def)
  ultimately show ?thesis using r R(1) by blast
qed

theorem shard_snapshot_roundtrip_witness:
  "\<exists>sn ssm'. unmarshal_shards (marshal_shards (shard_Snapshot demo_shards)) = Some sn
    \<and> shard_Restore (newShardStateManager 5 4) sn = Some ssm'
    \<and> GetShardState ssm' = GetShardState demo_shards \<and> GetEpoch ssm' = 9"
proof -
  have s: "SetShardState (newShardStateManager 1 4) 2 MIGRATING 7 9 [''h:1''] = Some demo_shards"
    and e: "GetEpoch demo_shards = 9" and n: "ssNumShards (newShardStateManager 5 4) = ssNumShards demo_shards"
    by code_simp+
  have "shards_ok (newShardStateManager g 4)" for g by (rule shards_ok_new) simp
  then have "shards_ok demo_shards" "shards_ok (newShardStateManager 5 4)"
    using SetShardState_ok(1) [OF _ s] by blast+
  from shard_snapshot_roundtrip [OF this n] e show ?thesis by auto
qed

end
