(* ===== verification/Watch.thy ===== *)
theory Watch
  imports Prelude
begin

text \<open>
  The watch manager (\<^verbatim>\<open>src/pkg/watch/manager.go\<close>): subscriptions by key or by prefix, an event
  queue with a dead-letter queue behind it, and the distribution of events to the buffered
  channels of the matching watchers. A channel is the list of the events buffered in it with
  its capacity; a \<open>select\<close> takes the case chosen as a parameter and has no result when that
  case is not ready. The two goroutines are the steps \<open>process_step\<close> and \<open>cleanupExpired\<close>.
\<close>

section \<open>State\<close>

record Event =
  evKey :: string
  evOldValue :: string
  evNewValue :: string
  evNewVersion :: int64
  evEventType :: string
  evTimestamp :: int64

record Watcher =
  waID :: int64
  waKey :: string
  waIsPrefix :: bool
  waChannel :: "Event list"
  waClosed :: bool
  waCreatedAt :: int64
  waLastHeartbeat :: int64

record ManagerConfig =
  EventBufferSize :: int
  WatcherBufferSize :: int
  DLQSize :: int
  WatcherTimeout :: int
  HealthCheckTick :: int
  EnqueueTimeout :: int

record WatchStats =
  TotalEvents :: int64
  SuccessfulSends :: int64
  FailedSends :: int64
  DroppedEvents :: int64
  ActiveWatchers :: int64

record Manager =
  wmWatchers :: "(int64 \<times> Watcher) list"
  wmNextID :: int64
  wmEventCh :: "Event list"
  wmDeadLetterCh :: "Event list"
  wmDone :: bool
  wmConfig :: ManagerConfig
  wmStats :: WatchStats

text \<open>Durations are in nanoseconds.\<close>

definition DefaultConfig :: ManagerConfig where
  "DefaultConfig =
     \<lparr> EventBufferSize = 1000, WatcherBufferSize = 100, DLQSize = 500, WatcherTimeout = 0,
       HealthCheckTick = 10 * 1000000000, EnqueueTimeout = 500 * 1000000 \<rparr>"

definition orDefault :: "int \<Rightarrow> int \<Rightarrow> int" where
  "orDefault v d = (if v \<le> 0 then d else v)"

definition NewManager :: "ManagerConfig \<Rightarrow> Manager" where
  "NewManager cfg =
     \<lparr> wmWatchers = [], wmNextID = 1, wmEventCh = [], wmDeadLetterCh = [], wmDone = False,
       wmConfig =
         \<lparr> EventBufferSize = orDefault (EventBufferSize cfg) 1000,
           WatcherBufferSize = orDefault (WatcherBufferSize cfg) 100,
           DLQSize = orDefault (DLQSize cfg) 500, WatcherTimeout = WatcherTimeout cfg,
           HealthCheckTick = orDefault (HealthCheckTick cfg) (10 * 1000000000),
           EnqueueTimeout = orDefault (EnqueueTimeout cfg) (500 * 1000000) \<rparr>,
       wmStats = \<lparr> TotalEvents = 0, SuccessfulSends = 0, FailedSends = 0, DroppedEvents = 0,
                   ActiveWatchers = 0 \<rparr> \<rparr>"

section \<open>Subscriptions\<close>

text \<open>\<open>None\<close> is the error of too many watchers. The two clock readings are parameters.\<close>

definition Subscribe ::
  "int64 \<Rightarrow> int64 \<Rightarrow> Manager \<Rightarrow> string \<Rightarrow> bool \<Rightarrow> (Manager \<times> Watcher) option" where
  "Subscribe now1 now2 m key isPrefix =
     (if length (wmWatchers m) \<ge> 10000 then None
      else let wid = wmNextID m + 1;
               w = \<lparr> waID = wid, waKey = key, waIsPrefix = isPrefix, waChannel = [], waClosed = False,
                     waCreatedAt = now1, waLastHeartbeat = now2 \<rparr>
           in Some (m\<lparr> wmNextID := wid, wmWatchers := AList.update wid w (wmWatchers m),
                       wmStats := (wmStats m)\<lparr> ActiveWatchers := ActiveWatchers (wmStats m) + 1 \<rparr> \<rparr>, w))"

text \<open>The manager and, when the watcher was there, the watcher with its channel closed.\<close>

definition Unsubscribe :: "Manager \<Rightarrow> int64 \<Rightarrow> Manager \<times> Watcher option" where
  "Unsubscribe m wid =
     (case map_of (wmWatchers m) wid of
        None \<Rightarrow> (m, None)
      | Some w \<Rightarrow>
          (m\<lparr> wmWatchers := AList.delete wid (wmWatchers m),
              wmStats := (wmStats m)\<lparr> ActiveWatchers := ActiveWatchers (wmStats m) - 1 \<rparr> \<rparr>,
           Some (w\<lparr> waClosed := True \<rparr>)))"

section \<open>Publishing\<close>

datatype notify_case = SendEvent | SendDLQ | TimedOut | SeeDone

datatype notify_result = NotifyOK | QueuedToDLQ | EnqueueTimeoutErr | ManagerClosed

text \<open>
  The first \<open>select\<close> sends to the event channel or sees \<open>done\<close>; when neither is ready the second
  one may also use the dead-letter queue, or drop the event when its timer fires, which needs
  every other case to have been blocked until then.
\<close>

definition Notify ::
  "notify_case \<Rightarrow> int64 \<Rightarrow> Manager \<Rightarrow> string \<Rightarrow> string \<Rightarrow> string \<Rightarrow> int64 \<Rightarrow> string
     \<Rightarrow> (Manager \<times> notify_result) option" where
  "Notify c now m key oldVal newVal ver evType =
     (let e = \<lparr> evKey = key, evOldValue = oldVal, evNewValue = newVal, evNewVersion = ver,
                evEventType = evType, evTimestamp = now \<rparr>;
          room = int (length (wmEventCh m)) < EventBufferSize (wmConfig m);
          blocked = (\<not> room \<and> \<not> wmDone m);
          dlqRoom = int (length (wmDeadLetterCh m)) < DLQSize (wmConfig m)
      in case c of
           SendEvent \<Rightarrow> if room then Some (m\<lparr> wmEventCh := wmEventCh m @ [e] \<rparr>, NotifyOK) else None
         | SeeDone \<Rightarrow> if wmDone m then Some (m, ManagerClosed) else None
         | SendDLQ \<Rightarrow>
             if blocked \<and> dlqRoom
             then Some (m\<lparr> wmDeadLetterCh := wmDeadLetterCh m @ [e] \<rparr>, QueuedToDLQ) else None
         | TimedOut \<Rightarrow>
             if blocked \<and> \<not> dlqRoom
             then Some (m\<lparr> wmStats := (wmStats m)\<lparr> DroppedEvents := DroppedEvents (wmStats m) + 1 \<rparr> \<rparr>,
                        EnqueueTimeoutErr)
             else None)"

definition watch_matches :: "Watcher \<Rightarrow> string \<Rightarrow> bool" where
  "watch_matches w key =
     (if waIsPrefix w then length key \<ge> length (waKey w) \<and> take (length (waKey w)) key = waKey w
      else waKey w = key)"

text \<open>The non-blocking send to one watcher: the watcher and the statistics.\<close>

definition deliver :: "int64 \<Rightarrow> int \<Rightarrow> Event \<Rightarrow> Watcher \<Rightarrow> Watcher" where
  "deliver now cap e w =
     (if watch_matches w (evKey e) \<and> int (length (waChannel w)) < cap
      then w\<lparr> waChannel := waChannel w @ [e], waLastHeartbeat := now \<rparr> else w)"

definition distributeEvent :: "int64 \<Rightarrow> Event \<Rightarrow> Manager \<Rightarrow> Manager" where
  "distributeEvent now e m =
     (let cap = WatcherBufferSize (wmConfig m);
          ms = filter (\<lambda>(_, w). watch_matches w (evKey e)) (wmWatchers m);
          sent = length (filter (\<lambda>(_, w). int (length (waChannel w)) < cap) ms)
      in m\<lparr> wmWatchers := map (\<lambda>(wid, w). (wid, deliver now cap e w)) (wmWatchers m),
            wmStats := (wmStats m)
              \<lparr> SuccessfulSends := SuccessfulSends (wmStats m) + of_nat sent,
                FailedSends := FailedSends (wmStats m) + of_nat (length ms - sent) \<rparr> \<rparr>)"

text \<open>One iteration of \<open>processLoop\<close>, from the event queue or from the dead-letter queue.\<close>

definition process_step :: "bool \<Rightarrow> int64 \<Rightarrow> Manager \<Rightarrow> Manager option" where
  "process_step fromDLQ now m =
     (case (if fromDLQ then wmDeadLetterCh m else wmEventCh m) of
        [] \<Rightarrow> None
      | e # es \<Rightarrow>
          let m1 = (if fromDLQ then m\<lparr> wmDeadLetterCh := es \<rparr> else m\<lparr> wmEventCh := es \<rparr>);
              m2 = m1\<lparr> wmStats := (wmStats m1)\<lparr> TotalEvents := TotalEvents (wmStats m1) + 1 \<rparr> \<rparr>
          in Some (distributeEvent now e m2))"

definition cleanupExpired :: "int64 \<Rightarrow> Manager \<Rightarrow> Manager" where
  "cleanupExpired now m =
     (if WatcherTimeout (wmConfig m) \<le> 0 then m
      else let stale = (\<lambda>(wid, w). sint now - sint (waLastHeartbeat w) > WatcherTimeout (wmConfig m))
           in m\<lparr> wmWatchers := filter (\<lambda>x. \<not> stale x) (wmWatchers m),
                 wmStats := (wmStats m)\<lparr> ActiveWatchers := ActiveWatchers (wmStats m)
                              - of_nat (length (filter stale (wmWatchers m))) \<rparr> \<rparr>)"

text \<open>Closing a second time panics.\<close>

definition watch_Close :: "Manager \<Rightarrow> Manager option" where
  "watch_Close m = (if wmDone m then None else Some (m\<lparr> wmDone := True, wmWatchers := [] \<rparr>))"

definition watch_GetStats :: "Manager \<Rightarrow> WatchStats" where
  "watch_GetStats m = wmStats m"

definition GetWatcherCount :: "Manager \<Rightarrow> nat" where
  "GetWatcherCount m = length (wmWatchers m)"

section \<open>Lemmas\<close>

lemma watch_matches_prefix: "watch_matches w key \<longleftrightarrow> (if waIsPrefix w then prefix (waKey w) key else waKey w = key)"
  by (auto simp: watch_matches_def prefix_def) (metis append_take_drop_id)

text \<open>
  The invariant: each watcher is open and stored once, under its own id; ids are at most the
  counter, whose wrap-around is excluded; channels and queues keep to their capacities; and
  the gauge of active watchers counts them.
\<close>

definition watch_inv :: "Manager \<Rightarrow> bool" where
  "watch_inv m \<longleftrightarrow>
     distinct (map fst (wmWatchers m))
     \<and> (\<forall>(wid, w) \<in> set (wmWatchers m). waID w = wid \<and> \<not> waClosed w \<and> sint wid \<le> sint (wmNextID m)
          \<and> int (length (waChannel w)) \<le> WatcherBufferSize (wmConfig m))
     \<and> length (wmWatchers m) \<le> 10000
     \<and> int (length (wmEventCh m)) \<le> EventBufferSize (wmConfig m)
     \<and> int (length (wmDeadLetterCh m)) \<le> DLQSize (wmConfig m)
     \<and> 0 < WatcherBufferSize (wmConfig m)
     \<and> (\<not> wmDone m \<longrightarrow> ActiveWatchers (wmStats m) = of_nat (length (wmWatchers m)))"

inductive watch_step :: "Manager \<Rightarrow> Manager \<Rightarrow> bool" where
  ws_subscribe: "Subscribe n1 n2 m key p = Some (m', w) \<Longrightarrow> sint (wmNextID m) < 2 ^ 63 - 1 \<Longrightarrow> watch_step m m'"
| ws_unsubscribe: "Unsubscribe m wid = (m', ow) \<Longrightarrow> watch_step m m'"
| ws_notify: "Notify c now m key ov nv ver ty = Some (m', r) \<Longrightarrow> watch_step m m'"
| ws_process: "process_step d now m = Some m' \<Longrightarrow> watch_step m m'"
| ws_cleanup: "watch_step m (cleanupExpired now m)"
| ws_close: "watch_Close m = Some m' \<Longrightarrow> watch_step m m'"

inductive_cases watch_stepE: "watch_step m m'"

lemma update_new: "k \<notin> fst ` set xs \<Longrightarrow> AList.update k x xs = xs @ [(k, x)]"
  by (induction xs) auto

lemma deliver_frame [simp]:
  "waID (deliver now cap e w) = waID w" "waClosed (deliver now cap e w) = waClosed w"
  "waKey (deliver now cap e w) = waKey w" "waIsPrefix (deliver now cap e w) = waIsPrefix w"
  by (simp_all add: deliver_def)

lemma deliver_cap: "int (length (waChannel w)) \<le> cap \<Longrightarrow> int (length (waChannel (deliver now cap e w))) \<le> cap"
  by (simp add: deliver_def)

lemma distribute_frame [simp]:
  "wmNextID (distributeEvent now e m) = wmNextID m" "wmConfig (distributeEvent now e m) = wmConfig m"
  "wmEventCh (distributeEvent now e m) = wmEventCh m" "wmDeadLetterCh (distributeEvent now e m) = wmDeadLetterCh m"
  "wmDone (distributeEvent now e m) = wmDone m"
  "wmWatchers (distributeEvent now e m)
     = map (\<lambda>(wid, w). (wid, deliver now (WatcherBufferSize (wmConfig m)) e w)) (wmWatchers m)"
  "ActiveWatchers (wmStats (distributeEvent now e m)) = ActiveWatchers (wmStats m)"
  by (simp_all add: distributeEvent_def Let_def)

lemma distribute_inv: "watch_inv m \<Longrightarrow> watch_inv (distributeEvent now e m)"
  by (auto simp: watch_inv_def comp_def case_prod_unfold intro!: deliver_cap)

lemma Subscribe_inv:
  assumes "Subscribe n1 n2 m key p = Some (m', w)" "sint (wmNextID m) < 2 ^ 63 - 1" "watch_inv m"
  shows "watch_inv m'"
proof -
  let ?i = "wmNextID m + 1"
  have si: "sint ?i = sint (wmNextID m) + 1" using assms(2) by (rule int64_succ)
  have new: "?i \<notin> fst ` set (wmWatchers m)"
  proof
    assume "?i \<in> fst ` set (wmWatchers m)"
    then have "sint ?i \<le> sint (wmNextID m)" using assms(3) by (auto simp: watch_inv_def)
    then show False using si by simp
  qed
  then have upd: "AList.update ?i x (wmWatchers m) = wmWatchers m @ [(?i, x)]" for x
    by (rule update_new)
  have old: "\<forall>x \<in> set (wmWatchers m). sint (fst x) \<le> sint (wmNextID m) + 1"
    using assms(3) by (auto simp: watch_inv_def)
  obtain x where m': "m' = m\<lparr> wmNextID := ?i, wmWatchers := wmWatchers m @ [(?i, x)],
      wmStats := (wmStats m)\<lparr> ActiveWatchers := ActiveWatchers (wmStats m) + 1 \<rparr> \<rparr>"
      "waID x = ?i" "\<not> waClosed x" "waChannel x = []" "length (wmWatchers m) < 10000"
    using assms(1) by (auto simp: Subscribe_def Let_def upd split: if_split_asm)
  show ?thesis using old m'(2-) assms(3) new si by (simp add: m'(1) watch_inv_def case_prod_unfold)
qed

lemma delete_length_distinct:
  "distinct (map fst xs) \<Longrightarrow> map_of xs k = Some v \<Longrightarrow> Suc (length (AList.delete k xs)) = length xs"
  by (induction xs) (auto split: if_splits simp: delete_notin_dom [unfolded dom_map_of_conv_image_fst])

lemma Unsubscribe_inv:
  assumes "Unsubscribe m wid = (m', ow)" "watch_inv m"
  shows "watch_inv m'"
proof (cases "map_of (wmWatchers m) wid")
  case None
  then show ?thesis using assms by (simp add: Unsubscribe_def)
next
  case (Some w)
  have d: "distinct (map fst (wmWatchers m))" using assms(2) by (simp add: watch_inv_def)
  then have len: "Suc (length (AList.delete wid (wmWatchers m))) = length (wmWatchers m)"
    using Some by (rule delete_length_distinct)
  have sub: "\<And>x. x \<in> set (AList.delete wid (wmWatchers m)) \<Longrightarrow> x \<in> set (wmWatchers m)"
    by (auto simp: AList.delete_eq)
  have "of_nat (length (wmWatchers m)) - 1 = (of_nat (length (AList.delete wid (wmWatchers m))) :: int64)"
    unfolding len [symmetric] by simp
  then show ?thesis
    using assms Some len d
    by (auto simp: Unsubscribe_def watch_inv_def AList.distinct_delete dest!: sub)
qed

lemma Notify_inv: "Notify c now m key ov nv ver ty = Some (m', r) \<Longrightarrow> watch_inv m \<Longrightarrow> watch_inv m'"
  by (cases c) (auto simp: Notify_def Let_def watch_inv_def split: if_splits)

lemma process_inv: "process_step d now m = Some m' \<Longrightarrow> watch_inv m \<Longrightarrow> watch_inv m'"
  by (auto simp: process_step_def Let_def split: list.splits if_splits intro!: distribute_inv)
     (auto simp: watch_inv_def)

lemma filter_both_length: "length (filter P xs) + length (filter (\<lambda>x. \<not> P x) xs) = length xs"
  by (induction xs) auto

lemma cleanup_inv: "watch_inv m \<Longrightarrow> watch_inv (cleanupExpired now m)"
proof -
  assume i: "watch_inv m"
  define stale where "stale = (\<lambda>x :: int64 \<times> Watcher.
    WatcherTimeout (wmConfig m) < sint now - sint (waLastHeartbeat (snd x)))"
  have "of_nat (length (wmWatchers m)) = (of_nat (length (filter stale (wmWatchers m)))
      + of_nat (length (filter (\<lambda>x. \<not> stale x) (wmWatchers m))) :: int64)"
    unfolding of_nat_add [symmetric] filter_both_length ..
  then have len: "of_nat (length (wmWatchers m)) - of_nat (length (filter stale (wmWatchers m)))
      = (of_nat (length (filter (\<lambda>x. \<not> stale x) (wmWatchers m))) :: int64)"
    by simp
  have le: "length (filter (\<lambda>x. \<not> stale x) (wmWatchers m)) \<le> length (wmWatchers m)" by simp
  have "cleanupExpired now m = (if WatcherTimeout (wmConfig m) \<le> 0 then m
      else m\<lparr> wmWatchers := filter (\<lambda>x. \<not> stale x) (wmWatchers m),
              wmStats := (wmStats m)\<lparr> ActiveWatchers := ActiveWatchers (wmStats m)
                              - of_nat (length (filter stale (wmWatchers m))) \<rparr> \<rparr>)"
    by (simp add: cleanupExpired_def stale_def case_prod_unfold Let_def)
  then show ?thesis
    using i order_trans [OF le, of 10000] by (auto simp: watch_inv_def len distinct_map_filter)
qed

lemma watch_step_inv: "watch_step m m' \<Longrightarrow> watch_inv m \<Longrightarrow> watch_inv m'"
  by (induction rule: watch_step.induct)
     (auto intro: Subscribe_inv Unsubscribe_inv Notify_inv process_inv cleanup_inv,
      auto simp: watch_Close_def watch_inv_def split: if_splits)

lemma NewManager_inv: "watch_inv (NewManager cfg)"
  by (simp add: watch_inv_def NewManager_def orDefault_def)

interpretation watch_system: invariant_system "\<lambda>m. \<exists>cfg. m = NewManager cfg" watch_step watch_inv
  by unfold_locales (auto intro: NewManager_inv watch_step_inv)

text \<open>The event loop on a queue of events, one clock reading per event.\<close>

fun process_all :: "int64 list \<Rightarrow> Manager \<Rightarrow> Manager option" where
  "process_all [] m = Some m"
| "process_all (now # ts) m =
     (case process_step False now m of None \<Rightarrow> None | Some m' \<Rightarrow> process_all ts m')"

lemma process_all_total: "length ts = length (wmEventCh m) \<Longrightarrow> \<exists>m'. process_all ts m = Some m'"
proof (induction ts arbitrary: m)
  case (Cons now ts)
  then obtain e es where e: "wmEventCh m = e # es" by (cases "wmEventCh m") auto
  then obtain m1 where "process_step False now m = Some m1" "wmEventCh m1 = es"
    by (simp add: process_step_def Let_def)
  then show ?case using Cons e by simp
qed simp

lemma process_all_delivers:
  assumes "process_all ts m = Some m'" "length ts = length (wmEventCh m)"
    "map_of (wmWatchers m) wid = Some w"
    "int (length (waChannel w) + length (filter (\<lambda>e. watch_matches w (evKey e)) (wmEventCh m)))
       \<le> WatcherBufferSize (wmConfig m)"
  shows "\<exists>w'. map_of (wmWatchers m') wid = Some w'
    \<and> waChannel w' = waChannel w @ filter (\<lambda>e. watch_matches w (evKey e)) (wmEventCh m)
    \<and> wmEventCh m' = []"
  using assms
proof (induction ts arbitrary: m w)
  case (Cons now ts)
  then obtain e es where e: "wmEventCh m = e # es" by (cases "wmEventCh m") auto
  let ?w = "deliver now (WatcherBufferSize (wmConfig m)) e w"
  from Cons.prems(1) e obtain m1 where m1: "process_step False now m = Some m1" "process_all ts m1 = Some m'"
    by (auto split: option.splits)
  have f: "wmEventCh m1 = es" "map_of (wmWatchers m1) wid = Some ?w" "wmConfig m1 = wmConfig m"
    using m1(1) e Cons.prems(3) by (auto simp: process_step_def Let_def map_of_map_snd)
  have mt: "watch_matches ?w = watch_matches w" by (simp add: fun_eq_iff watch_matches_def)
  have ch: "waChannel ?w = waChannel w @ (if watch_matches w (evKey e) then [e] else [])"
    using Cons.prems(4) e by (auto simp: deliver_def)
  have "\<exists>w'. map_of (wmWatchers m') wid = Some w'
    \<and> waChannel w' = waChannel ?w @ filter (\<lambda>e. watch_matches ?w (evKey e)) (wmEventCh m1) \<and> wmEventCh m' = []"
    by (rule Cons.IH [OF m1(2) _ f(2)]) (use Cons.prems(2,4) f e ch mt in auto)
  then show ?case using f(1) e ch mt by auto
qed simp

section \<open>Properties\<close>


definition demo_watch :: Manager where
  "demo_watch = fst (the (Subscribe 5 6 (NewManager DefaultConfig) ''user:'' True))"

lemma demo_watch_eq: "Subscribe 5 6 (NewManager DefaultConfig) ''user:'' True = Some (demo_watch, snd (the (Subscribe 5 6 (NewManager DefaultConfig) ''user:'' True)))"
  by (simp add: demo_watch_def Subscribe_def NewManager_def Let_def)


text \<open>
  \<^bold>\<open>C14\<close>. The event loop empties its queue, and a watcher whose channel has room for them gets
  exactly the queued events that match its key or prefix, once each and in order.
\<close>

theorem events_delivered_in_order:
  assumes "length ts = length (wmEventCh m)" "map_of (wmWatchers m) wid = Some w"
    "int (length (waChannel w) + length (filter (\<lambda>e. watch_matches w (evKey e)) (wmEventCh m)))
       \<le> WatcherBufferSize (wmConfig m)"
  shows "\<exists>m' w'. process_all ts m = Some m' \<and> wmEventCh m' = [] \<and> map_of (wmWatchers m') wid = Some w'
    \<and> waChannel w' = waChannel w
        @ filter (\<lambda>e. if waIsPrefix w then prefix (waKey w) (evKey e) else waKey w = evKey e) (wmEventCh m)"
  using process_all_total [OF assms(1)] process_all_delivers [OF _ assms]
  by (auto simp: watch_matches_prefix)

definition demo_events :: Manager where
  "demo_events = demo_watch\<lparr> wmEventCh :=
     [\<lparr> evKey = ''user:1'', evOldValue = [], evNewValue = ''a'', evNewVersion = 0, evEventType = ''SET'', evTimestamp = 1 \<rparr>,
      \<lparr> evKey = ''other'', evOldValue = [], evNewValue = ''b'', evNewVersion = 0, evEventType = ''SET'', evTimestamp = 2 \<rparr>] \<rparr>"

theorem events_delivered_in_order_witness:
  "\<exists>m' w'. process_all [7, 8] demo_events = Some m' \<and> map_of (wmWatchers m') 2 = Some w'
     \<and> map evKey (waChannel w') = [''user:1'']"
proof -
  let ?w = "\<lparr> waID = 2, waKey = ''user:'', waIsPrefix = True, waChannel = [], waClosed = False,
    waCreatedAt = 5, waLastHeartbeat = 6 \<rparr>"
  have w: "map_of (wmWatchers demo_events) 2 = Some ?w"
    and l: "length [7, 8 :: int64] = length (wmEventCh demo_events)"
    and r: "int (length (waChannel ?w) + length (filter (\<lambda>e. watch_matches ?w (evKey e)) (wmEventCh demo_events)))
       \<le> WatcherBufferSize (wmConfig demo_events)"
    and f: "map evKey (filter (\<lambda>e. if waIsPrefix ?w then prefix (waKey ?w) (evKey e) else waKey ?w = evKey e)
       (wmEventCh demo_events)) = [''user:1'']"
    by code_simp+
  from events_delivered_in_order [OF l w r] f show ?thesis by auto
qed

end
