(* ===== verification/Kv_Server.thy ===== *)
theory Kv_Server
  imports Tx_Recovery Store_Snapshot Shard_State Watch
begin

text \<open>
  The state machine of one replica (\<^verbatim>\<open>src/pkg/kv/server.go\<close>): the operations Raft applies to
  the store, the shard table and the transaction manager, the snapshot of all three, and the
  events it publishes. The hash of a key (\<^verbatim>\<open>xxhash\<close>) is a parameter; so are Badger, the
  network of the double writes and the clock, one parameter per reading. An operation that
  takes the mutex of the transaction manager has no result when that mutex is held for ever.
\<close>

section \<open>State\<close>

record ServerStats =
  stTotalRequests :: int64
  stTotalWrites :: int64
  stTotalReads :: int64
  stFailedRequests :: int64
  stWatchNotifies :: int64
  stLeaseHits :: int64
  stLeaseFallbacks :: int64
  stTTLExpiredOps :: int64

text \<open>
  The store is reached through the transaction manager, which holds the server it belongs to.
\<close>

record 'db KVServer =
  kvMe :: goint
  kvGroupID :: goint
  kvDead :: bool
  kvTtlBatch :: int
  kvStats :: ServerStats
  kvShardMgr :: shardStateManager
  kvTxMgr :: "'db TxManager"

record node_env =
  xxhash :: "string \<Rightarrow> uint64"
  peerNet :: fwd_net
  shardOrder :: "(goint \<times> shardMeta) list \<Rightarrow> (goint \<times> shardMeta) list"
  recordOrder :: "(string \<times> raw) list \<Rightarrow> (string \<times> raw) list"
  osCalls :: os_outcome

abbreviation kvStore :: "'db KVServer \<Rightarrow> 'db Store" where
  "kvStore kv \<equiv> txStore (kvTxMgr kv)"

definition set_store :: "'db KVServer \<Rightarrow> 'db Store \<Rightarrow> 'db KVServer" where
  "set_store kv s = kv\<lparr> kvTxMgr := (kvTxMgr kv)\<lparr> txStore := s \<rparr> \<rparr>"

definition NewKVServer :: "goint \<Rightarrow> goint \<Rightarrow> 'db Store \<Rightarrow> 'db KVServer" where
  "NewKVServer me groupID s =
     \<lparr> kvMe = me, kvGroupID = groupID, kvDead = False, kvTtlBatch = 128,
       kvStats = \<lparr> stTotalRequests = 0, stTotalWrites = 0, stTotalReads = 0, stFailedRequests = 0,
                   stWatchNotifies = 0, stLeaseHits = 0, stLeaseFallbacks = 0, stTTLExpiredOps = 0 \<rparr>,
       kvShardMgr = newShardStateManager groupID 1024,
       kvTxMgr = NewTxManager s groupID None \<rparr>"

definition TopologyEpoch :: "'db KVServer \<Rightarrow> int64" where
  "TopologyEpoch kv = GetEpoch (kvShardMgr kv)"

section \<open>Counters\<close>

definition RecordRead :: "'db KVServer \<Rightarrow> 'db KVServer" where
  "RecordRead kv = kv\<lparr> kvStats := (kvStats kv)
     \<lparr> stTotalRequests := stTotalRequests (kvStats kv) + 1, stTotalReads := stTotalReads (kvStats kv) + 1 \<rparr> \<rparr>"

definition RecordWrite :: "'db KVServer \<Rightarrow> 'db KVServer" where
  "RecordWrite kv = kv\<lparr> kvStats := (kvStats kv)
     \<lparr> stTotalRequests := stTotalRequests (kvStats kv) + 1, stTotalWrites := stTotalWrites (kvStats kv) + 1 \<rparr> \<rparr>"

definition RecordFailure :: "'db KVServer \<Rightarrow> 'db KVServer" where
  "RecordFailure kv = kv\<lparr> kvStats := (kvStats kv)\<lparr> stFailedRequests := stFailedRequests (kvStats kv) + 1 \<rparr> \<rparr>"

definition RecordWatchNotify :: "'db KVServer \<Rightarrow> 'db KVServer" where
  "RecordWatchNotify kv = kv\<lparr> kvStats := (kvStats kv)\<lparr> stWatchNotifies := stWatchNotifies (kvStats kv) + 1 \<rparr> \<rparr>"

definition RecordLeaseHit :: "'db KVServer \<Rightarrow> 'db KVServer" where
  "RecordLeaseHit kv = kv\<lparr> kvStats := (kvStats kv)\<lparr> stLeaseHits := stLeaseHits (kvStats kv) + 1 \<rparr> \<rparr>"

definition RecordLeaseFallback :: "'db KVServer \<Rightarrow> 'db KVServer" where
  "RecordLeaseFallback kv = kv\<lparr> kvStats := (kvStats kv)\<lparr> stLeaseFallbacks := stLeaseFallbacks (kvStats kv) + 1 \<rparr> \<rparr>"

definition RecordTTLExpired :: "'db KVServer \<Rightarrow> int64 \<Rightarrow> 'db KVServer" where
  "RecordTTLExpired kv n = kv\<lparr> kvStats := (kvStats kv)\<lparr> stTTLExpiredOps := stTTLExpiredOps (kvStats kv) + n \<rparr> \<rparr>"

section \<open>Reading and writing\<close>

text \<open>\<open>isExpired\<close> is \<^const>\<open>expired_at\<close>.\<close>

definition isExpired :: "int64 \<Rightarrow> int64 \<Rightarrow> bool" where
  "isExpired expires now \<longleftrightarrow> sint expires > 0 \<and> sint expires \<le> sint now"

definition absoluteExpiryFromTTL :: "int64 \<Rightarrow> int64 \<Rightarrow> int64" where
  "absoluteExpiryFromTTL ttlSeconds now =
     (if sint ttlSeconds \<le> 0 then 0 else now + ttlSeconds * 1000000000)"

definition shardForKey :: "node_env \<Rightarrow> string \<Rightarrow> goint" where
  "shardForKey E key = xxhash E key mod 1024"

definition get_error :: "Err \<Rightarrow> GetReply" where
  "get_error e = \<lparr> grValue = [], grVersion = 0, grExpires = 0, grErr = e, grHintGroupID = 0,
     grHintReplicas = [], grHintEpoch = 0 \<rparr>"

definition put_reply :: "Err \<Rightarrow> string \<Rightarrow> PutReply" where
  "put_reply e old = \<lparr> prErr = e, prOldValue = old, prHintGroupID = 0, prHintReplicas = [], prHintEpoch = 0 \<rparr>"

definition delete_reply :: "Err \<Rightarrow> string \<Rightarrow> DeleteReply" where
  "delete_reply e old = \<lparr> drErr = e, drOldValue = old, drHintGroupID = 0, drHintReplicas = [], drHintEpoch = 0 \<rparr>"

definition wrongGroupGetReply :: "'db KVServer \<Rightarrow> shardMeta \<Rightarrow> GetReply" where
  "wrongGroupGetReply kv meta =
     \<lparr> grValue = [], grVersion = 0, grExpires = 0, grErr = ErrWrongGroup, grHintGroupID = smTargetGroup meta,
       grHintReplicas = smTargetReplicas meta, grHintEpoch = GetEpoch (kvShardMgr kv) \<rparr>"

definition wrongGroupPutReply :: "'db KVServer \<Rightarrow> shardMeta \<Rightarrow> PutReply" where
  "wrongGroupPutReply kv meta =
     \<lparr> prErr = ErrWrongGroup, prOldValue = [], prHintGroupID = smTargetGroup meta,
       prHintReplicas = smTargetReplicas meta, prHintEpoch = GetEpoch (kvShardMgr kv) \<rparr>"

definition wrongGroupDeleteReply :: "'db KVServer \<Rightarrow> shardMeta \<Rightarrow> DeleteReply" where
  "wrongGroupDeleteReply kv meta =
     \<lparr> drErr = ErrWrongGroup, drOldValue = [], drHintGroupID = smTargetGroup meta,
       drHintReplicas = smTargetReplicas meta, drHintEpoch = GetEpoch (kvShardMgr kv) \<rparr>"

definition doGet ::
  "('db, 'txn) badger \<Rightarrow> node_env \<Rightarrow> int64 \<Rightarrow> 'db KVServer \<Rightarrow> GetArgs \<Rightarrow> 'db KVServer \<times> GetReply" where
  "doGet B E now kv args =
     (let local =
        (case Get B (kvStore kv) (gKey args) of
           Inl e \<Rightarrow> (RecordFailure kv, get_error ErrWrongLeader)
         | Inr (Some e) \<Rightarrow>
             if isExpired (eExpires e) now then (kv, get_error ErrNoKey)
             else (kv, \<lparr> grValue = eValue e, grVersion = eVersion e, grExpires = eExpires e, grErr = OK,
                         grHintGroupID = 0, grHintReplicas = [], grHintEpoch = 0 \<rparr>)
         | Inr None \<Rightarrow> (kv, get_error ErrNoKey))
      in if kvDead kv then (kv, get_error ErrWrongLeader)
         else case GetShardState (kvShardMgr kv) (shardForKey E (gKey args)) of
                Some meta \<Rightarrow> if smState meta = ABSENT then (kv, wrongGroupGetReply kv meta) else local
              | None \<Rightarrow> local)"

text \<open>
  The write of a migrating shard: the local write, then the forwarded one; when the latter
  fails the former is undone. \<open>now\<close> is the reading of the handler and \<open>now'\<close> the one inside
  \<open>PutCASWithTTL\<close>.
\<close>

definition doPutWithForward ::
  "('db, 'txn) badger \<Rightarrow> node_env \<Rightarrow> int64 \<Rightarrow> int64 \<Rightarrow> 'db KVServer \<Rightarrow> PutArgs \<Rightarrow> shardMeta
   \<Rightarrow> 'db KVServer \<times> PutReply" where
  "doPutWithForward B E now now' kv args meta =
     (case Get B (kvStore kv) (pKey args) of
        Inl e \<Rightarrow> (kv, put_reply ErrWrongLeader [])
      | Inr cur \<Rightarrow>
          let previous = (case cur of None \<Rightarrow> None
                          | Some e \<Rightarrow> if isExpired (eExpires e) now then None else Some e);
              newExpires = absoluteExpiryFromTTL (pTTL args) now
          in case PutCASWithTTL B now' (kvStore kv) (pKey args) (pValue args) (pVersion args) newExpires of
               (s, Inl e) \<Rightarrow> (RecordFailure (set_store kv s), put_reply ErrWrongLeader [])
             | (s, Inr (oldValue, status)) \<Rightarrow>
                 if status \<noteq> PutCASOK then (RecordFailure (set_store kv s), put_reply ErrVersion [])
                 else let kv1 = RecordWrite (set_store kv s);
                          (ssm, ok) = ForwardWrite (peerNet E) (shardOrder E) (kvShardMgr kv1)
                                        (smTargetGroup meta) (pKey args) (pValue args) (pVersion args);
                          kv2 = kv1\<lparr> kvShardMgr := ssm \<rparr>
                      in if ok then (kv2, put_reply OK oldValue)
                         else let (s', err) =
                                    (case previous of
                                       None \<Rightarrow> RollbackCASMutation B (kvStore kv2) (pKey args) 1 [] 0 0 False
                                     | Some e \<Rightarrow> RollbackCASMutation B (kvStore kv2) (pKey args) (eVersion e + 1)
                                                    (eValue e) (eVersion e) (eExpires e) True);
                                  kv3 = set_store kv2 s'
                              in if err \<noteq> None then (kv3, put_reply ErrMaybe [])
                                 else (kv3, put_reply ErrWrongGroup []))"

definition doPut ::
  "('db, 'txn) badger \<Rightarrow> node_env \<Rightarrow> int64 \<Rightarrow> int64 \<Rightarrow> 'db KVServer \<Rightarrow> PutArgs \<Rightarrow> 'db KVServer \<times> PutReply" where
  "doPut B E now now' kv args =
     (let local =
        (case PutCASWithTTL B now' (kvStore kv) (pKey args) (pValue args) (pVersion args)
                (absoluteExpiryFromTTL (pTTL args) now) of
           (s, Inl e) \<Rightarrow> (RecordFailure (set_store kv s), put_reply ErrWrongLeader [])
         | (s, Inr (oldValue, status)) \<Rightarrow>
             (case status of
                PutCASOK \<Rightarrow> (RecordWrite (set_store kv s), put_reply OK oldValue)
              | PutCASVersionMismatch \<Rightarrow> (RecordFailure (set_store kv s), put_reply ErrVersion [])
              | PutCASNoKey \<Rightarrow> (RecordFailure (set_store kv s), put_reply ErrNoKey [])))
      in if kvDead kv then (kv, put_reply ErrWrongLeader [])
         else case GetShardState (kvShardMgr kv) (shardForKey E (pKey args)) of
                Some meta \<Rightarrow>
                  if smState meta = ABSENT then (kv, wrongGroupPutReply kv meta)
                  else if smState meta = MIGRATING then doPutWithForward B E now now' kv args meta
                  else local
              | None \<Rightarrow> local)"

definition doDeleteWithForward ::
  "('db, 'txn) badger \<Rightarrow> node_env \<Rightarrow> int64 \<Rightarrow> 'db KVServer \<Rightarrow> DeleteArgs \<Rightarrow> shardMeta
   \<Rightarrow> 'db KVServer \<times> DeleteReply" where
  "doDeleteWithForward B E now kv args meta =
     (case Get B (kvStore kv) (dKey args) of
        Inl e \<Rightarrow> (RecordFailure kv, delete_reply ErrWrongLeader [])
      | Inr None \<Rightarrow> (kv, delete_reply ErrNoKey [])
      | Inr (Some old) \<Rightarrow>
          if isExpired (eExpires old) now then (kv, delete_reply ErrNoKey [])
          else case Delete B (kvStore kv) (dKey args) of
                 (s, Some e) \<Rightarrow> (RecordFailure (set_store kv s), delete_reply ErrWrongLeader [])
               | (s, None) \<Rightarrow>
                   let kv1 = RecordWrite (set_store kv s);
                       (ssm, ok) = ForwardDelete (peerNet E) (shardOrder E) (kvShardMgr kv1)
                                     (smTargetGroup meta) (dKey args);
                       kv2 = kv1\<lparr> kvShardMgr := ssm \<rparr>
                   in if ok then (kv2, delete_reply OK (eValue old))
                      else let (s', err) = RollbackCASMutation B (kvStore kv2) (dKey args) 0 (eValue old)
                                 (eVersion old) (eExpires old) True;
                               kv3 = set_store kv2 s'
                           in if err \<noteq> None then (kv3, delete_reply ErrMaybe [])
                              else (kv3, wrongGroupDeleteReply kv3 meta))"

definition doDelete ::
  "('db, 'txn) badger \<Rightarrow> node_env \<Rightarrow> int64 \<Rightarrow> 'db KVServer \<Rightarrow> DeleteArgs \<Rightarrow> 'db KVServer \<times> DeleteReply" where
  "doDelete B E now kv args =
     (let local =
        (case Get B (kvStore kv) (dKey args) of
           Inl e \<Rightarrow> (RecordFailure kv, delete_reply ErrWrongLeader [])
         | Inr None \<Rightarrow> (kv, delete_reply ErrNoKey [])
         | Inr (Some old) \<Rightarrow>
             if isExpired (eExpires old) now then (kv, delete_reply ErrNoKey [])
             else case Delete B (kvStore kv) (dKey args) of
                    (s, Some e) \<Rightarrow> (RecordFailure (set_store kv s), delete_reply ErrWrongLeader [])
                  | (s, None) \<Rightarrow> (RecordWrite (set_store kv s), delete_reply OK (eValue old)))
      in if kvDead kv then (kv, delete_reply ErrWrongLeader [])
         else case GetShardState (kvShardMgr kv) (shardForKey E (dKey args)) of
                Some meta \<Rightarrow>
                  if smState meta = ABSENT then (kv, wrongGroupDeleteReply kv meta)
                  else if smState meta = MIGRATING then doDeleteWithForward B E now kv args meta
                  else local
              | None \<Rightarrow> local)"

definition doScan ::
  "('db, 'txn) badger \<Rightarrow> int64 \<Rightarrow> 'db KVServer \<Rightarrow> ScanArgs \<Rightarrow> 'db KVServer \<times> ScanReply" where
  "doScan B now kv args =
     (if kvDead kv then (kv, \<lparr> srItems = [], srErr = ErrWrongLeader \<rparr>)
      else case ScanPrefix B (kvStore kv) (saPrefix args) (saLimit args) of
             Inl e \<Rightarrow> (RecordFailure kv, \<lparr> srItems = [], srErr = ErrWrongLeader \<rparr>)
           | Inr es \<Rightarrow>
               (kv, \<lparr> srItems = map (\<lambda>(k, v). \<lparr> siKey = k, siValue = eValue v, siVersion = eVersion v,
                                               siExpires = eExpires v \<rparr>)
                                 (filter (\<lambda>(k, v). \<not> isExpired (eExpires v) now) es),
                      srErr = OK \<rparr>))"

text \<open>One key of \<open>doExpire\<close>, its lock being free to read.\<close>

definition expire_one ::
  "('db, 'txn) badger \<Rightarrow> int64 \<Rightarrow> string \<Rightarrow> 'db KVServer \<times> string list \<times> (string \<rightharpoonup> string)
   \<Rightarrow> 'db KVServer \<times> string list \<times> (string \<rightharpoonup> string)" where
  "expire_one B cutoff key st =
     (case st of (kv, ks, olds) \<Rightarrow>
        if lockTable (kvTxMgr kv) key \<noteq> None then st
        else case Get B (kvStore kv) key of
               Inl e \<Rightarrow> st
             | Inr None \<Rightarrow> st
             | Inr (Some old) \<Rightarrow>
                 if \<not> isExpired (eExpires old) cutoff then st
                 else case Delete B (kvStore kv) key of
                        (s, Some e) \<Rightarrow> (set_store kv s, ks, olds)
                      | (s, None) \<Rightarrow> (set_store kv s, ks @ [key], olds(key \<mapsto> eValue old)))"

definition doExpire ::
  "('db, 'txn) badger \<Rightarrow> 'db KVServer \<Rightarrow> ExpireArgs \<Rightarrow> ('db KVServer \<times> ExpireReply) option" where
  "doExpire B kv args =
     (if kvDead kv
      then Some (kv, \<lparr> erExpiredKeys = [], erExpiredOldValues = Map.empty, erErr = ErrWrongLeader \<rparr>)
      else if eaKeys args = []
      then Some (kv, \<lparr> erExpiredKeys = [], erExpiredOldValues = Map.empty, erErr = OK \<rparr>)
      else if muHeld (kvTxMgr kv) then None
      else case fold (expire_one B (eaCutoff args)) (eaKeys args) (kv, [], Map.empty) of
             (kv', expired, olds) \<Rightarrow>
               Some (if expired \<noteq> [] then RecordTTLExpired kv' (of_nat (length expired)) else kv',
                     \<lparr> erExpiredKeys = expired, erExpiredOldValues = olds, erErr = OK \<rparr>))"

definition doSetShardState :: "'db KVServer \<Rightarrow> SetShardStateArgs \<Rightarrow> 'db KVServer \<times> SetShardStateReply" where
  "doSetShardState kv args =
     (case SetShardState (kvShardMgr kv) (ssaShardID args) (ssaState args) (ssaTargetGroup args)
             (ssaTopologyEpoch args) (ssaTargetReplicas args) of
        None \<Rightarrow> (kv, \<lparr> ssrFailed = True \<rparr>)
      | Some ssm \<Rightarrow> (kv\<lparr> kvShardMgr := ssm \<rparr>, \<lparr> ssrFailed = False \<rparr>))"

definition doCleanupShard ::
  "('db, 'txn) badger \<Rightarrow> node_env \<Rightarrow> 'db KVServer \<Rightarrow> CleanupShardArgs \<Rightarrow> 'db KVServer \<times> CleanupShardReply" where
  "doCleanupShard B E kv args =
     (if kvDead kv then (kv, \<lparr> csDeleted = 0, csErr = ErrWrongLeader \<rparr>)
      else if \<exists>k \<in> set (csKeys args). shardForKey E (ckKey k) \<noteq> csShardID args
      then (kv, \<lparr> csDeleted = 0, csErr = ErrWrongGroup \<rparr>)
      else let ops = map (\<lambda>k. \<lparr> wKey = ckKey k, wValue = [], wExpectedVersion = ckExpectedVersion k,
                                wExpires = 0, wIsDelete = True \<rparr>) (csKeys args)
           in case WriteBatchWithCAS B (kvStore kv) ops of
                (s, Some e) \<Rightarrow> (set_store kv s, \<lparr> csDeleted = 0, csErr = ErrVersion \<rparr>)
              | (s, None) \<Rightarrow> (set_store kv s, \<lparr> csDeleted = length ops, csErr = OK \<rparr>))"

section \<open>Dispatch\<close>

text \<open>The requests a log entry can carry (any other by the name of its type), and their replies.\<close>

datatype Request =
    ReqSetShardState SetShardStateArgs
  | ReqGet GetArgs
  | ReqPut PutArgs
  | ReqDelete DeleteArgs
  | ReqCleanupShard CleanupShardArgs
  | ReqScan ScanArgs
  | ReqExpire ExpireArgs
  | ReqPrepareTx PrepareTxArgs
  | ReqCommitTx CommitTxArgs
  | ReqAbortTx string
  | ReqResolveTxStatus string
  | ReqRecordTxDecision RecordTxDecisionArgs
  | ReqUnknown string

datatype Reply =
    RepSetShardState SetShardStateReply
  | RepGet GetReply
  | RepPut PutReply
  | RepDelete DeleteReply
  | RepCleanupShard CleanupShardReply
  | RepScan ScanReply
  | RepExpire ExpireReply
  | RepPrepareTx Err
  | RepCommitTx Err
  | RepAbortTx Err
  | RepResolveTxStatus ResolveTxStatusReply
  | RepRecordTxDecision Err

definition tx_result :: "'db KVServer \<Rightarrow> ('a \<Rightarrow> Reply) \<Rightarrow> ('db TxManager \<times> 'a) option \<Rightarrow> ('db KVServer \<times> Reply) option" where
  "tx_result kv mk r = map_option (\<lambda>(tm, e). (kv\<lparr> kvTxMgr := tm \<rparr>, mk e)) r"

definition DoOp ::
  "('db, 'txn) badger \<Rightarrow> node_env \<Rightarrow> int64 \<Rightarrow> int64 \<Rightarrow> 'db KVServer \<Rightarrow> Request \<Rightarrow> ('db KVServer \<times> Reply) option" where
  "DoOp B E now now' kv req =
     (case req of
        ReqSetShardState a \<Rightarrow> Some (map_prod id RepSetShardState (doSetShardState kv a))
      | ReqGet a \<Rightarrow> Some (map_prod id RepGet (doGet B E now kv a))
      | ReqPut a \<Rightarrow> Some (map_prod id RepPut (doPut B E now now' kv a))
      | ReqDelete a \<Rightarrow> Some (map_prod id RepDelete (doDelete B E now kv a))
      | ReqCleanupShard a \<Rightarrow> Some (map_prod id RepCleanupShard (doCleanupShard B E kv a))
      | ReqScan a \<Rightarrow> Some (map_prod id RepScan (doScan B now kv a))
      | ReqExpire a \<Rightarrow> map_option (map_prod id RepExpire) (doExpire B kv a)
      | ReqPrepareTx a \<Rightarrow> tx_result kv RepPrepareTx (Prepare B now (kvTxMgr kv) a)
      | ReqCommitTx a \<Rightarrow> tx_result kv RepCommitTx (Commit B (kvTxMgr kv) a)
      | ReqAbortTx t \<Rightarrow> tx_result kv RepAbortTx (Abort B (kvTxMgr kv) t)
      | ReqResolveTxStatus t \<Rightarrow> tx_result kv RepResolveTxStatus (ResolveTxStatus B now (kvTxMgr kv) t)
      | ReqRecordTxDecision a \<Rightarrow> tx_result kv RepRecordTxDecision (Some (RecordDecision B (kvTxMgr kv) a))
      | ReqUnknown ty \<Rightarrow> Some (kv, RepGet (get_error ErrWrongLeader)))"

section \<open>Snapshots\<close>

text \<open>The raw text of a field: its last occurrence, a \<open>null\<close> included.\<close>

fun jraw :: "string \<Rightarrow> (string \<times> json) list \<Rightarrow> json option" where
  "jraw nm [] = None"
| "jraw nm ((k, v) # kvs) =
     (case jraw nm kvs of Some j \<Rightarrow> Some j
      | None \<Rightarrow> if map fold_char k = map fold_char nm then Some v else None)"

text \<open>\<open>None\<close> is the nil slice that stands for no snapshot.\<close>

definition kv_Snapshot :: "('db, 'txn) badger \<Rightarrow> 'db KVServer \<Rightarrow> raw option" where
  "kv_Snapshot B kv =
     (if kvDead kv then None
      else case SaveSnapshot B (kvStore kv) of
             Inl e \<Rightarrow> None
           | Inr data \<Rightarrow>
               Some (JObj [(''store'', data), (''shards'', marshal_shards (shard_Snapshot (kvShardMgr kv)))]))"

text \<open>
  A restore that returns, one that leaves the store without a database, and one that waits
  for ever on the mutex of the transaction manager.
\<close>

datatype 'db restore_result = Restored "'db KVServer" | RestoreNoDB | RestoreBlocks

definition rebuild_after :: "('db, 'txn) badger \<Rightarrow> node_env \<Rightarrow> 'db KVServer \<Rightarrow> 'db restore_result" where
  "rebuild_after B E kv =
     (case RebuildLockTable B (recordOrder E) (kvTxMgr kv) of
        None \<Rightarrow> RestoreBlocks
      | Some (tm, err) \<Rightarrow> Restored (kv\<lparr> kvTxMgr := tm \<rparr>))"

definition snapshot_parts :: "raw \<Rightarrow> (raw \<times> shardStateSnapshot) option" where
  "snapshot_parts data =
     (case dec_obj data of
        None \<Rightarrow> None
      | Some fs \<Rightarrow>
          (case (jraw ''store'' fs, unmarshal_shards (jfield ''shards'' fs)) of
             (Some st, Some sn) \<Rightarrow> if snStates sn \<noteq> [] then Some (st, sn) else None
           | _ \<Rightarrow> None))"

definition kv_Restore ::
  "('db, 'txn) badger \<Rightarrow> node_env \<Rightarrow> 'db KVServer \<Rightarrow> raw option \<Rightarrow> 'db restore_result" where
  "kv_Restore B E kv dat =
     (case dat of
        None \<Rightarrow> Restored kv
      | Some data \<Rightarrow>
          (case snapshot_parts data of
             Some (st, sn) \<Rightarrow>
               (case LoadSnapshot B (osCalls E) (kvStore kv) st of
                  LoadErr s \<Rightarrow> Restored (set_store kv s)
                | LoadNoDB \<Rightarrow> RestoreNoDB
                | LoadOK s \<Rightarrow>
                    let kv1 = set_store kv s
                    in rebuild_after B E
                         (case shard_Restore (kvShardMgr kv1) sn of
                            None \<Rightarrow> kv1 | Some ssm \<Rightarrow> kv1\<lparr> kvShardMgr := ssm \<rparr>))
           | None \<Rightarrow>
               (case LoadSnapshot B (osCalls E) (kvStore kv) data of
                  LoadNoDB \<Rightarrow> RestoreNoDB
                | LoadErr s \<Rightarrow> rebuild_after B E (set_store kv s)
                | LoadOK s \<Rightarrow> rebuild_after B E (set_store kv s))))"

section \<open>Events\<close>

text \<open>
  A notification takes the case of the \<open>select\<close> and the clock reading as parameters, one pair
  per event; it has no result when that case is not ready.
\<close>

definition notify_one ::
  "(notify_case \<times> int64) list \<Rightarrow> 'db KVServer \<times> Manager \<Rightarrow> string \<Rightarrow> string \<Rightarrow> string \<Rightarrow> int64 \<Rightarrow> string
   \<Rightarrow> ('db KVServer \<times> Manager) option" where
  "notify_one chs st key oldVal newVal ver ty =
     (case (st, chs) of
        ((kv, w), (c, now) # _) \<Rightarrow>
          (case Notify c now w key oldVal newVal ver ty of
             None \<Rightarrow> None
           | Some (w', r) \<Rightarrow> Some (if r = NotifyOK then RecordWatchNotify kv else kv, w'))
      | _ \<Rightarrow> None)"

definition notifyPutEvent ::
  "(notify_case \<times> int64) list \<Rightarrow> 'db KVServer \<times> Manager \<Rightarrow> PutArgs \<Rightarrow> Reply \<Rightarrow> ('db KVServer \<times> Manager) option" where
  "notifyPutEvent chs st args result =
     (case result of
        RepPut r \<Rightarrow>
          if prErr r = OK
          then notify_one chs st (pKey args) (prOldValue r) (pValue args) (pVersion args)
                 (if prOldValue r = [] then ''SET'' else ''PUT'')
          else Some st
      | _ \<Rightarrow> Some st)"

definition notifyDeleteEvent ::
  "(notify_case \<times> int64) list \<Rightarrow> 'db KVServer \<times> Manager \<Rightarrow> DeleteArgs \<Rightarrow> Reply \<Rightarrow> ('db KVServer \<times> Manager) option" where
  "notifyDeleteEvent chs st args result =
     (case result of
        RepDelete r \<Rightarrow>
          if drErr r = OK then notify_one chs st (dKey args) (drOldValue r) [] 0 ''DELETE'' else Some st
      | _ \<Rightarrow> Some st)"

fun notify_expired ::
  "(notify_case \<times> int64) list \<Rightarrow> 'db KVServer \<times> Manager \<Rightarrow> (string \<rightharpoonup> string) \<Rightarrow> string list
   \<Rightarrow> ('db KVServer \<times> Manager) option" where
  "notify_expired chs st olds [] = Some st"
| "notify_expired chs st olds (k # ks) =
     (case notify_one chs st k (case olds k of None \<Rightarrow> [] | Some v \<Rightarrow> v) [] 0 ''EXPIRE'' of
        None \<Rightarrow> None
      | Some st' \<Rightarrow> notify_expired (tl chs) st' olds ks)"

definition notifyExpireEvent ::
  "(notify_case \<times> int64) list \<Rightarrow> 'db KVServer \<times> Manager \<Rightarrow> Reply \<Rightarrow> ('db KVServer \<times> Manager) option" where
  "notifyExpireEvent chs st result =
     (case result of
        RepExpire r \<Rightarrow>
          if erErr r = OK then notify_expired chs st (erExpiredOldValues r) (erExpiredKeys r) else Some st
      | _ \<Rightarrow> Some st)"

text \<open>\<open>None\<close> as the manager is a replica that runs without one.\<close>

definition OnOpComplete ::
  "(notify_case \<times> int64) list \<Rightarrow> 'db KVServer \<Rightarrow> Manager option \<Rightarrow> Request \<Rightarrow> Reply
   \<Rightarrow> ('db KVServer \<times> Manager option) option" where
  "OnOpComplete chs kv watchMgr req result =
     (if kvDead kv then Some (kv, watchMgr)
      else case watchMgr of
             None \<Rightarrow> Some (kv, None)
           | Some w \<Rightarrow>
               map_option (map_prod id Some)
                 (case req of
                    ReqPut a \<Rightarrow> notifyPutEvent chs (kv, w) a result
                  | ReqDelete a \<Rightarrow> notifyDeleteEvent chs (kv, w) a result
                  | ReqExpire a \<Rightarrow> notifyExpireEvent chs (kv, w) result
                  | _ \<Rightarrow> Some (kv, w)))"

section \<open>Lifecycle\<close>

definition kv_Kill :: "'db KVServer \<Rightarrow> 'db KVServer" where
  "kv_Kill kv = kv\<lparr> kvDead := True, kvShardMgr := ssm_Close (kvShardMgr kv) \<rparr>"

text \<open>One tick of \<open>TTLCleanupLoop\<close>: the server and the request it submits, if any.\<close>

definition ttl_tick ::
  "('db, 'txn) badger \<Rightarrow> bool \<Rightarrow> int64 \<Rightarrow> 'db KVServer \<Rightarrow> 'db KVServer \<times> Request option" where
  "ttl_tick B isLeader now kv =
     (if kvDead kv \<or> \<not> isLeader then (kv, None)
      else case GetExpiredKeys B now (kvTtlBatch kv) (kvStore kv) of
             (s, Inl e) \<Rightarrow> (set_store kv s, None)
           | (s, Inr keys) \<Rightarrow>
               (set_store kv s,
                if keys = [] then None else Some (ReqExpire \<lparr> eaKeys = keys, eaCutoff = now \<rparr>)))"

end
