(* ===== verification/Kv_Semantics.thy ===== *)
theory Kv_Semantics
  imports Kv_Server
begin

text \<open>
  What the handlers of a replica (theory \<open>Kv_Server\<close>) do to the data: a write is a
  compare-and-swap on the live entry, a write to a migrating shard takes effect on both sides
  or on none the client can see, expiry removes only expired and unlocked keys, and a
  snapshot carries the entries, the shard table and the locks to another replica.
\<close>

section \<open>Lemmas\<close>

lemma isExpired_eq [simp]: "isExpired = expired_at"
  by (simp add: fun_eq_iff isExpired_def expired_at_def)

lemma set_store_frame [simp]:
  "kvStore (set_store kv s) = s" "kvDead (set_store kv s) = kvDead kv"
  "kvShardMgr (set_store kv s) = kvShardMgr kv" "lockTable (kvTxMgr (set_store kv s)) = lockTable (kvTxMgr kv)"
  "preparedTxs (kvTxMgr (set_store kv s)) = preparedTxs (kvTxMgr kv)"
  "muHeld (kvTxMgr (set_store kv s)) = muHeld (kvTxMgr kv)"
  by (simp_all add: set_store_def)

lemma set_store_same [simp]: "set_store kv (kvStore kv) = kv"
  by (simp add: set_store_def)

lemma Record_frame [simp]:
  "kvTxMgr (RecordWrite kv) = kvTxMgr kv" "kvTxMgr (RecordFailure kv) = kvTxMgr kv"
  "kvTxMgr (RecordTTLExpired kv n) = kvTxMgr kv"
  "kvDead (RecordWrite kv) = kvDead kv" "kvDead (RecordFailure kv) = kvDead kv"
  "kvDead (RecordTTLExpired kv n) = kvDead kv"
  "kvShardMgr (RecordWrite kv) = kvShardMgr kv" "kvShardMgr (RecordFailure kv) = kvShardMgr kv"
  "kvShardMgr (RecordTTLExpired kv n) = kvShardMgr kv"
  by (simp_all add: RecordWrite_def RecordFailure_def RecordTTLExpired_def)

lemma reply_simps [simp]:
  "prErr (put_reply e v) = e" "prOldValue (put_reply e v) = v" "drErr (delete_reply e v) = e"
  "drOldValue (delete_reply e v) = v" "grErr (get_error e) = e"
  "prErr (wrongGroupPutReply kv meta) = ErrWrongGroup" "drErr (wrongGroupDeleteReply kv meta) = ErrWrongGroup"
  by (simp_all add: put_reply_def delete_reply_def get_error_def wrongGroupPutReply_def wrongGroupDeleteReply_def)

text \<open>The error a client sees for each status of a compare-and-swap.\<close>

definition status_err :: "PutCASStatus \<Rightarrow> Err" where
  "status_err st = (case st of PutCASOK \<Rightarrow> OK | PutCASVersionMismatch \<Rightarrow> ErrVersion | PutCASNoKey \<Rightarrow> ErrNoKey)"

text \<open>A shard whose writes stay local: it has no state, or is owned or being imported.\<close>

definition local_shard :: "node_env \<Rightarrow> 'db KVServer \<Rightarrow> string \<Rightarrow> bool" where
  "local_shard E kv key =
     (case GetShardState (kvShardMgr kv) (shardForKey E key) of
        None \<Rightarrow> True | Some meta \<Rightarrow> smState meta \<noteq> ABSENT \<and> smState meta \<noteq> MIGRATING)"

definition migrating_shard :: "node_env \<Rightarrow> 'db KVServer \<Rightarrow> string \<Rightarrow> shardMeta \<Rightarrow> bool" where
  "migrating_shard E kv key meta \<longleftrightarrow>
     GetShardState (kvShardMgr kv) (shardForKey E key) = Some meta \<and> smState meta = MIGRATING"

lemma doPut_local:
  assumes "\<not> kvDead kv" "local_shard E kv (pKey args)"
    "PutCASWithTTL B now' (kvStore kv) (pKey args) (pValue args) (pVersion args)
       (absoluteExpiryFromTTL (pTTL args) now) = (s, r)"
  shows "doPut B E now now' kv args =
    (case r of
       Inl e \<Rightarrow> (RecordFailure (set_store kv s), put_reply ErrWrongLeader [])
     | Inr (old, st) \<Rightarrow>
         if st = PutCASOK then (RecordWrite (set_store kv s), put_reply OK old)
         else (RecordFailure (set_store kv s), put_reply (status_err st) []))"
  using assms
  by (auto simp: doPut_def Let_def local_shard_def status_err_def split: option.splits sum.splits PutCASStatus.splits)

lemma doPut_migrating:
  "\<not> kvDead kv \<Longrightarrow> migrating_shard E kv (pKey args) meta
   \<Longrightarrow> doPut B E now now' kv args = doPutWithForward B E now now' kv args meta"
  by (simp add: doPut_def migrating_shard_def)

lemma doDelete_migrating:
  "\<not> kvDead kv \<Longrightarrow> migrating_shard E kv (dKey args) meta
   \<Longrightarrow> doDelete B E now kv args = doDeleteWithForward B E now kv args meta"
  by (simp add: doDelete_def migrating_shard_def)

text \<open>The ways a write to a migrating shard can end.\<close>

lemma doPutWithForward_cases:
  assumes "doPutWithForward B E now now' kv args meta = (kv', rep)"
  obtains (unread) "prErr rep = ErrWrongLeader" "kv' = kv"
  | (error) s e where "prErr rep = ErrWrongLeader" "kvStore kv' = s"
      "PutCASWithTTL B now' (kvStore kv) (pKey args) (pValue args) (pVersion args)
         (absoluteExpiryFromTTL (pTTL args) now) = (s, Inl e)"
  | (refused) s old st where "prErr rep = ErrVersion" "kvStore kv' = s" "st \<noteq> PutCASOK"
      "PutCASWithTTL B now' (kvStore kv) (pKey args) (pValue args) (pVersion args)
         (absoluteExpiryFromTTL (pTTL args) now) = (s, Inr (old, st))"
  | (both) s old ssm where "rep = put_reply OK old" "kvStore kv' = s" "kvShardMgr kv' = ssm"
      "kvDead kv' = kvDead kv"
      "PutCASWithTTL B now' (kvStore kv) (pKey args) (pValue args) (pVersion args)
         (absoluteExpiryFromTTL (pTTL args) now) = (s, Inr (old, PutCASOK))"
      "ForwardWrite (peerNet E) (shardOrder E) (kvShardMgr kv) (smTargetGroup meta) (pKey args)
         (pValue args) (pVersion args) = (ssm, True)"
  | (undone) s old cur err where "prErr rep = (if err = None then ErrWrongGroup else ErrMaybe)"
      "PutCASWithTTL B now' (kvStore kv) (pKey args) (pValue args) (pVersion args)
         (absoluteExpiryFromTTL (pTTL args) now) = (s, Inr (old, PutCASOK))"
      "Get B (kvStore kv) (pKey args) = Inr cur"
      "(case (case cur of None \<Rightarrow> None | Some e \<Rightarrow> if expired_at (eExpires e) now then None else Some e) of
          None \<Rightarrow> RollbackCASMutation B s (pKey args) 1 [] 0 0 False
        | Some e \<Rightarrow> RollbackCASMutation B s (pKey args) (eVersion e + 1) (eValue e) (eVersion e) (eExpires e) True)
       = (kvStore kv', err)"
proof -
  let ?cas = "PutCASWithTTL B now' (kvStore kv) (pKey args) (pValue args) (pVersion args)
         (absoluteExpiryFromTTL (pTTL args) now)"
  let ?fwd = "ForwardWrite (peerNet E) (shardOrder E) (kvShardMgr kv) (smTargetGroup meta) (pKey args)
         (pValue args) (pVersion args)"
  show thesis
  proof (cases "Get B (kvStore kv) (pKey args)")
    case (Inl e)
    then show ?thesis using assms unread by (auto simp: doPutWithForward_def)
  next
    case cur: (Inr cur)
    obtain s r where cas: "?cas = (s, r)" by (cases ?cas)
    show ?thesis
    proof (cases r)
      case (Inl e)
      then show ?thesis using assms cur cas by (intro error) (auto simp: doPutWithForward_def Let_def)
    next
      case (Inr p)
      obtain old st where p: "p = (old, st)" by (cases p)
      obtain ssm ok where fwd: "?fwd = (ssm, ok)" by (cases ?fwd)
      consider "st \<noteq> PutCASOK" | "st = PutCASOK" "ok" | "st = PutCASOK" "\<not> ok" by blast
      then show ?thesis
      proof cases
        case 1
        then show ?thesis using assms cur cas Inr p by (intro refused) (auto simp: doPutWithForward_def Let_def)
      next
        case 2
        then show ?thesis using assms cur cas Inr p fwd by (intro both) (auto simp: doPutWithForward_def Let_def)
      next
        case 3
        let ?rb = "case (case cur of None \<Rightarrow> None | Some e \<Rightarrow> if expired_at (eExpires e) now then None else Some e) of
          None \<Rightarrow> RollbackCASMutation B s (pKey args) 1 [] 0 0 False
        | Some e \<Rightarrow> RollbackCASMutation B s (pKey args) (eVersion e + 1) (eValue e) (eVersion e) (eExpires e) True"
        obtain s' err where rb: "?rb = (s', err)" by (cases ?rb)
        have "kvStore kv' = s'" "prErr rep = (if err = None then ErrWrongGroup else ErrMaybe)"
          using assms cur cas Inr p fwd 3 rb by (auto simp: doPutWithForward_def Let_def split: if_splits option.splits)
        then show ?thesis using cas Inr p 3 cur rb by (intro undone) auto
      qed
    qed
  qed
qed

lemma ForwardWrite_shards: "ForwardWrite net order ssm g k v n = (ssm', ok) \<Longrightarrow> GetShardState ssm' = GetShardState ssm"
  using ForwardWrite_frame [of net order ssm g k v n] by (auto simp: fun_eq_iff GetShardState_def)

lemma kvEntry_eta: "\<lparr> eValue = eValue e, eVersion = eVersion e, eExpires = eExpires e \<rparr> = e"
  by simp

lemma live_entry_upd:
  assumes "content (sdb s') = (content (sdb s))(key := Option.bind cur (\<lambda>e. Some (marshal_kvEntry e)))"
    "stored content s key = cur' " "cur = (case cur' of None \<Rightarrow> None | Some e \<Rightarrow> if expired_at (eExpires e) now then None else Some e)"
    "sint now \<le> sint t"
  shows "live_entry content t s' k = live_entry content t s k"
proof (cases "k = key")
  case True
  have "stored content s' key = cur" using assms(1) by (cases cur) (simp_all add: stored_def codec_simps)
  then show ?thesis
    using True assms(2,3,4) expired_at_mono [OF _ assms(4)]
    by (cases cur') (auto simp: live_entry_def)
next
  case False
  then show ?thesis using assms(1) by (simp add: live_entry_def stored_def)
qed

context badger
begin

text \<open>What an undone write leaves: the entry the client could see before it.\<close>

lemma undo_put_content:
  assumes "(case previous of
          None \<Rightarrow> RollbackCASMutation B s key 1 [] 0 0 False
        | Some e \<Rightarrow> RollbackCASMutation B s key (eVersion e + 1) (eValue e) (eVersion e) (eExpires e) True)
       = (s', None)"
  shows "content (sdb s') = (content (sdb s))(key := Option.bind previous (\<lambda>e. Some (marshal_kvEntry e)))"
  using assms by (cases previous) (auto dest!: Rollback_ok(1) simp: kvEntry_eta)

lemma undo_put_error:
  assumes "(case previous of
          None \<Rightarrow> RollbackCASMutation B s key 1 [] 0 0 False
        | Some e \<Rightarrow> RollbackCASMutation B s key (eVersion e + 1) (eValue e) (eVersion e) (eExpires e) True)
       = (s', Some err)"
  shows "s' = s"
  using assms by (cases previous) (auto dest: Rollback_error)

lemma PutCAS_other:
  assumes "PutCASWithTTL B now s key value ev ex = (s', Inr (old, PutCASOK))"
  shows "\<exists>e. content (sdb s') = (content (sdb s))(key \<mapsto> marshal_kvEntry e)
    \<and> e = \<lparr> eValue = value, eVersion = (case live_entry content now s key of None \<Rightarrow> 1 | Some _ \<Rightarrow> ev + 1), eExpires = ex \<rparr>"
  using PutCAS_refines [OF assms] by (auto simp: cas_spec_def split: option.splits if_splits)

lemma doPut_OK:
  assumes "doPut B E now now' kv args = (kv', rep)" "prErr rep = OK"
  shows "content (sdb (kvStore kv')) = (content (sdb (kvStore kv)))(pKey args \<mapsto> marshal_kvEntry
      \<lparr> eValue = pValue args,
        eVersion = (case live_entry content now' (kvStore kv) (pKey args) of None \<Rightarrow> 1 | Some _ \<Rightarrow> pVersion args + 1),
        eExpires = absoluteExpiryFromTTL (pTTL args) now \<rparr>)"
    and "kvDead kv' = kvDead kv" and "\<not> kvDead kv"
    and "GetShardState (kvShardMgr kv') = GetShardState (kvShardMgr kv)"
    and "\<forall>meta. GetShardState (kvShardMgr kv) (shardForKey E (pKey args)) = Some meta \<longrightarrow> smState meta \<noteq> ABSENT"
    and doPut_OK_version: "pVersion args = (case live_entry content now' (kvStore kv) (pKey args) of
           None \<Rightarrow> 0 | Some e \<Rightarrow> eVersion e)"
proof -
  show alive: "\<not> kvDead kv" using assms by (auto simp: doPut_def)
  show na: "\<forall>meta. GetShardState (kvShardMgr kv) (shardForKey E (pKey args)) = Some meta \<longrightarrow> smState meta \<noteq> ABSENT"
    using assms alive by (auto simp: doPut_def Let_def)
  have "\<exists>s old. PutCASWithTTL B now' (kvStore kv) (pKey args) (pValue args) (pVersion args)
       (absoluteExpiryFromTTL (pTTL args) now) = (s, Inr (old, PutCASOK)) \<and> kvStore kv' = s
     \<and> kvDead kv' = kvDead kv \<and> GetShardState (kvShardMgr kv') = GetShardState (kvShardMgr kv)"
  proof (cases "local_shard E kv (pKey args)")
    case True
    obtain s r where c: "PutCASWithTTL B now' (kvStore kv) (pKey args) (pValue args) (pVersion args)
       (absoluteExpiryFromTTL (pTTL args) now) = (s, r)" by (rule prod.exhaust)
    note p = doPut_local [OF alive True c, unfolded assms(1)]
    show ?thesis
    proof (cases r)
      case (Inl e)
      then show ?thesis using p assms(2) by simp
    next
      case (Inr q)
      obtain old st where q: "q = (old, st)" by (rule prod.exhaust)
      have "st = PutCASOK"
        using p assms(2) Inr q by (cases st) (simp_all add: status_err_def)
      then show ?thesis using p c Inr q by simp
    qed
  next
    case False
    then obtain meta where m: "migrating_shard E kv (pKey args) meta"
      using na by (auto simp: local_shard_def migrating_shard_def split: option.splits)
    show ?thesis
      using assms(1) unfolding doPut_migrating [OF alive m]
      by (cases rule: doPutWithForward_cases) (use assms(2) in \<open>auto split: if_splits dest: ForwardWrite_shards\<close>)
  qed
  then obtain s old where s: "PutCASWithTTL B now' (kvStore kv) (pKey args) (pValue args) (pVersion args)
       (absoluteExpiryFromTTL (pTTL args) now) = (s, Inr (old, PutCASOK))" "kvStore kv' = s"
    and f: "kvDead kv' = kvDead kv" "GetShardState (kvShardMgr kv') = GetShardState (kvShardMgr kv)"
    by blast
  show "kvDead kv' = kvDead kv" "GetShardState (kvShardMgr kv') = GetShardState (kvShardMgr kv)" by (fact f)+
  show "content (sdb (kvStore kv')) = (content (sdb (kvStore kv)))(pKey args \<mapsto> marshal_kvEntry
      \<lparr> eValue = pValue args,
        eVersion = (case live_entry content now' (kvStore kv) (pKey args) of None \<Rightarrow> 1 | Some _ \<Rightarrow> pVersion args + 1),
        eExpires = absoluteExpiryFromTTL (pTTL args) now \<rparr>)"
    using PutCAS_other [OF s(1)] s(2) by blast
  show "pVersion args = (case live_entry content now' (kvStore kv) (pKey args) of None \<Rightarrow> 0 | Some e \<Rightarrow> eVersion e)"
    using PutCAS_refines [OF s(1)] by (auto simp: cas_spec_def split: option.splits if_splits)
qed

end

section \<open>Properties\<close>

text \<open>
  \<^bold>\<open>C15\<close>. On a shard whose writes stay local, \<open>doPut\<close> is a compare-and-swap on the live
  entry of the key: an error of the store changes nothing; otherwise the reply is the one the
  contract \<^const>\<open>cas_spec\<close> gives, exactly the entry the contract writes is written, with
  the expiry time the request's TTL asks for, and no lock and no shard state changes.
\<close>

theorem doPut_refines_cas:
  assumes "badger B content seen" "\<not> kvDead kv" "local_shard E kv (pKey args)"
    "doPut B E now now' kv args = (kv', rep)"
  shows "(prErr rep = ErrWrongLeader \<and> kvStore kv' = kvStore kv
     \<or> (\<exists>w old st. cas_spec (live_entry content now' (kvStore kv) (pKey args)) (pValue args) (pVersion args)
            (absoluteExpiryFromTTL (pTTL args) now) = (w, old, st)
          \<and> prErr rep = status_err st \<and> prOldValue rep = old
          \<and> content (sdb (kvStore kv')) = (case w of None \<Rightarrow> content (sdb (kvStore kv))
               | Some e \<Rightarrow> (content (sdb (kvStore kv)))(pKey args \<mapsto> marshal_kvEntry e))))
     \<and> kvShardMgr kv' = kvShardMgr kv \<and> lockTable (kvTxMgr kv') = lockTable (kvTxMgr kv)"
proof -
  let ?ex = "absoluteExpiryFromTTL (pTTL args) now"
  obtain s r where c: "PutCASWithTTL B now' (kvStore kv) (pKey args) (pValue args) (pVersion args) ?ex = (s, r)"
    by (rule prod.exhaust)
  note p = doPut_local [OF assms(2,3) c] and R = badger.PutCAS_refines [OF assms(1) c]
  have f: "kvShardMgr kv' = kvShardMgr kv \<and> lockTable (kvTxMgr kv') = lockTable (kvTxMgr kv)" "kvStore kv' = s"
    using p assms(4) by (auto split: sum.splits if_splits)
  show ?thesis
  proof (cases r)
    case (Inl e)
    then show ?thesis using p R f assms(4) by auto
  next
    case (Inr q)
    obtain old st where q: "q = (old, st)" by (cases q)
    then obtain w where w: "cas_spec (live_entry content now' (kvStore kv) (pKey args)) (pValue args) (pVersion args) ?ex = (w, old, st)"
      "content (sdb s) = (case w of None \<Rightarrow> content (sdb (kvStore kv))
               | Some e \<Rightarrow> (content (sdb (kvStore kv)))(pKey args \<mapsto> marshal_kvEntry e))"
      using R Inr by auto
    have "prErr rep = status_err st" "prOldValue rep = (if st = PutCASOK then old else [])"
      using p assms(4) Inr q by (auto simp: status_err_def split: if_splits)
    moreover have "old = []" if "st \<noteq> PutCASOK"
      using w(1) that by (auto simp: cas_spec_def split: option.splits if_splits)
    ultimately show ?thesis using w f by auto
  qed
qed

definition demo_env :: node_env where
  "demo_env = \<lparr> xxhash = (\<lambda>k. of_nat (length k)),
     peerNet = \<lparr> net_dial = (\<lambda>_. True), net_Put = (\<lambda>_ k _ _. if k = ''a'' then None else Some ''''),
                 net_Delete = (\<lambda>_ _. None) \<rparr>,
     shardOrder = id, recordOrder = rev, osCalls = all_fine \<rparr>"

definition demo_kv :: "mem_db KVServer" where
  "demo_kv =
     \<lparr> kvMe = 0, kvGroupID = 1, kvDead = False, kvTtlBatch = 128,
       kvStats = \<lparr> stTotalRequests = 0, stTotalWrites = 0, stTotalReads = 0, stFailedRequests = 0,
                   stWatchNotifies = 0, stLeaseHits = 0, stLeaseFallbacks = 0, stTTLExpiredOps = 0 \<rparr>,
       kvShardMgr = newShardStateManager 1 4, kvTxMgr = NewTxManager demo_store 1 None \<rparr>"

definition demo_put :: PutArgs where
  "demo_put = \<lparr> pKey = ''a'', pValue = ''z'', pVersion = 3, pTTL = 2 \<rparr>"

lemma demo_put_simps:
  "pKey demo_put = ''a''" "pValue demo_put = ''z''" "pVersion demo_put = 3" "pTTL demo_put = 2"
  by (simp_all add: demo_put_def)

theorem doPut_refines_cas_witness:
  "\<exists>w. cas_spec (live_entry map_of 41 (kvStore demo_kv) ''a'') ''z'' 3 (absoluteExpiryFromTTL 2 40) = (w, ''x'', PutCASOK)
     \<and> map_of (sdb (kvStore (fst (doPut (mem_badger []) demo_env 40 41 demo_kv demo_put))))
       = (case w of None \<Rightarrow> map_of (sdb (kvStore demo_kv))
          | Some e \<Rightarrow> (map_of (sdb (kvStore demo_kv)))(''a'' \<mapsto> marshal_kvEntry e))"
proof -
  have h: "\<not> kvDead demo_kv" "local_shard demo_env demo_kv (pKey demo_put)" by code_simp+
  have r: "prErr (snd (doPut (mem_badger []) demo_env 40 41 demo_kv demo_put)) = OK"
    "prOldValue (snd (doPut (mem_badger []) demo_env 40 41 demo_kv demo_put)) = ''x''"
    by code_simp+
  have st: "OK = status_err st \<longleftrightarrow> st = PutCASOK" for st by (cases st) (simp_all add: status_err_def)
  show ?thesis
    using doPut_refines_cas [OF mem.badger_axioms h prod.collapse [symmetric], of "[]" 40 41,
      unfolded demo_put_simps] r
    by (auto simp: st)
qed

text \<open>
  \<^bold>\<open>C16\<close>. Read your write: after a \<open>doPut\<close> that answered \<open>OK\<close>, on whatever kind of shard, a
  \<open>doGet\<close> before the new expiry time that Badger lets read answers the value written, with
  the expiry time of the TTL and the version after the expected one (1 for a new key).
\<close>

theorem doPut_doGet_roundtrip:
  assumes "badger B content seen" "doPut B E now now' kv args = (kv1, rep)" "prErr rep = OK"
    "\<not> expired_at (absoluteExpiryFromTTL (pTTL args) now) t"
    "doGet B E t kv1 \<lparr> gKey = pKey args \<rparr> = (kv2, g)" "grErr g \<noteq> ErrWrongLeader"
  shows "grErr g = OK \<and> grValue g = pValue args \<and> grExpires g = absoluteExpiryFromTTL (pTTL args) now
    \<and> grVersion g = (if live_entry content now' (kvStore kv) (pKey args) = None then 1 else pVersion args + 1)
    \<and> kv2 = kv1"
proof -
  note P = badger.doPut_OK [OF assms(1-3)]
  let ?e = "\<lparr> eValue = pValue args,
        eVersion = (case live_entry content now' (kvStore kv) (pKey args) of None \<Rightarrow> 1 | Some _ \<Rightarrow> pVersion args + 1),
        eExpires = absoluteExpiryFromTTL (pTTL args) now \<rparr>"
  have s: "stored content (kvStore kv1) (pKey args) = Some ?e" using P(1) by (simp add: stored_def codec_simps)
  have na: "\<not> kvDead kv1"
    "\<forall>meta. GetShardState (kvShardMgr kv1) (shardForKey E (pKey args)) = Some meta \<longrightarrow> smState meta \<noteq> ABSENT"
    using P by simp_all
  show ?thesis
  proof (cases "Get B (kvStore kv1) (pKey args)")
    case (Inl e)
    then show ?thesis using assms(5,6) na by (auto simp: doGet_def Let_def split: option.splits)
  next
    case (Inr o')
    then have "o' = Some ?e" using badger.Get_ok [OF assms(1) Inr] s by simp
    then show ?thesis using assms(4,5) na Inr
      by (auto simp: doGet_def Let_def split: option.splits)
  qed
qed

theorem doPut_doGet_roundtrip_witness:
  "\<exists>kv1 rep g. doPut (mem_badger []) demo_env 40 41 demo_kv demo_put = (kv1, rep)
     \<and> doGet (mem_badger []) demo_env 45 kv1 \<lparr> gKey = ''a'' \<rparr> = (kv1, g)
     \<and> grValue g = ''z'' \<and> grVersion g = 4"
proof -
  let ?p = "doPut (mem_badger []) demo_env 40 41 demo_kv demo_put"
  let ?g = "doGet (mem_badger []) demo_env 45 (fst ?p) \<lparr> gKey = pKey demo_put \<rparr>"
  have h: "prErr (snd ?p) = OK" "\<not> expired_at (absoluteExpiryFromTTL (pTTL demo_put) 40) 45"
    "grErr (snd ?g) \<noteq> ErrWrongLeader" "live_entry map_of 41 (kvStore demo_kv) (pKey demo_put) \<noteq> None"
    by code_simp+
  note R = doPut_doGet_roundtrip [OF mem.badger_axioms prod.collapse [symmetric] h(1,2) prod.collapse [symmetric] h(3)]
  have "fst ?g = fst ?p" "grValue (snd ?g) = ''z''" "grVersion (snd ?g) = 4"
    using R h(4) by (simp_all add: demo_put_simps)
  then show ?thesis
    by (intro exI [of _ "fst ?p"] exI [of _ "snd ?p"] exI [of _ "snd ?g"]) (simp add: demo_put_simps prod_eq_iff)
qed


definition demo_moving :: "mem_db KVServer" where
  "demo_moving = demo_kv\<lparr> kvShardMgr := demo_shards\<lparr> ssStates := (1, \<lparr> smState = MIGRATING, smTargetGroup = 7,
     smTargetReplicas = [''h:1''] \<rparr>) # ssStates demo_shards \<rparr> \<rparr>"


text \<open>The part \<open>doDelete\<close> and \<open>doDeleteWithForward\<close> share.\<close>

lemma delete_read:
  assumes "badger B content seen" "Get B (kvStore kv) key = Inr cur"
  shows "live_entry content now (kvStore kv) key
    = (case cur of None \<Rightarrow> None | Some e \<Rightarrow> if expired_at (eExpires e) now then None else Some e)"
  using badger.Get_ok [OF assms] by (simp add: live_entry_def split: option.splits)

definition delete_outcome ::
  "('db \<Rightarrow> string \<Rightarrow> raw option) \<Rightarrow> int64 \<Rightarrow> 'db KVServer \<Rightarrow> string \<Rightarrow> 'db KVServer \<Rightarrow> DeleteReply \<Rightarrow> bool" where
  "delete_outcome content now kv key kv' rep =
     (case drErr rep of
        OK \<Rightarrow> content (sdb (kvStore kv')) = (content (sdb (kvStore kv)))(key := None)
              \<and> map_option eValue (live_entry content now (kvStore kv) key) = Some (drOldValue rep)
      | ErrNoKey \<Rightarrow> kv' = kv \<and> live_entry content now (kvStore kv) key = None
      | ErrWrongLeader \<Rightarrow> kvStore kv' = kvStore kv
      | ErrWrongGroup \<Rightarrow> \<forall>k. stored content (kvStore kv') k = stored content (kvStore kv) k
      | ErrMaybe \<Rightarrow> \<exists>e. live_entry content now (kvStore kv) key = Some e
              \<and> content (sdb (kvStore kv')) = (content (sdb (kvStore kv)))(key := None)
      | _ \<Rightarrow> False)"

lemma rollback_delete_stored:
  assumes "badger B content seen" "Delete B s key = (s1, None)" "stored content s key = Some e"
    "RollbackCASMutation B s1 key 0 (eValue e) (eVersion e) (eExpires e) True = (s2, None)"
  shows "stored content s2 k = stored content s k"
  using badger.Delete_ok [OF assms(1,2)] badger.Rollback_ok(1) [OF assms(1,4)] assms(3)
  by (simp add: stored_def codec_simps kvEntry_eta split: if_splits)

lemma doDeleteWithForward_outcome:
  assumes "badger B content seen" "doDeleteWithForward B E now kv args meta = (kv', rep)"
  shows "delete_outcome content now kv (dKey args) kv' rep"
proof (cases "Get B (kvStore kv) (dKey args)")
  case (Inl e)
  then show ?thesis using assms(2) by (auto simp: doDeleteWithForward_def delete_outcome_def)
next
  case (Inr cur)
  note L = delete_read [OF assms(1) Inr, of now] and S = badger.Get_ok [OF assms(1) Inr]
  show ?thesis
  proof (cases "live_entry content now (kvStore kv) (dKey args)")
    case None
    then show ?thesis using L assms(2) Inr
      by (auto simp: doDeleteWithForward_def delete_outcome_def split: option.splits if_splits)
  next
    case (Some old)
    then have cur: "cur = Some old" "\<not> expired_at (eExpires old) now"
      using L by (auto split: option.splits if_splits)
    obtain s1 r where d: "Delete B (kvStore kv) (dKey args) = (s1, r)" by (rule prod.exhaust)
    obtain ssm ok where f: "ForwardDelete (peerNet E) (shardOrder E) (kvShardMgr kv) (smTargetGroup meta) (dKey args) = (ssm, ok)"
      by (rule prod.exhaust)
    obtain s2 err where rb: "RollbackCASMutation B s1 (dKey args) 0 (eValue old) (eVersion old) (eExpires old) True = (s2, err)"
      by (rule prod.exhaust)
    show ?thesis
    proof (cases r)
      case (Some x)
      then have "s1 = kvStore kv" using d badger.Delete_error [OF assms(1)] by blast
      with Some show ?thesis using assms(2) Inr cur d by (auto simp: doDeleteWithForward_def delete_outcome_def)
    next
      case None
      note D = badger.Delete_ok [OF assms(1) d [unfolded None]]
      consider "ok" | "\<not> ok" "err = None" | x where "\<not> ok" "err = Some x" by (cases err) auto
      then show ?thesis
      proof cases
        case 1
        then show ?thesis using assms(2) Inr cur d None f D Some
          by (auto simp: doDeleteWithForward_def delete_outcome_def Let_def)
      next
        case 2
        have "stored content s2 k = stored content (kvStore kv) k" for k
          using rollback_delete_stored [OF assms(1) d [unfolded None] _ rb [unfolded 2(2)]] S cur(1) by simp
        then show ?thesis using assms(2) Inr cur d None f rb 2
          by (auto simp: doDeleteWithForward_def delete_outcome_def Let_def)
      next
        case 3
        then have "s2 = s1" using rb badger.Rollback_error [OF assms(1)] by blast
        then show ?thesis using assms(2) Inr cur d None f rb 3 D Some
          by (auto simp: doDeleteWithForward_def delete_outcome_def Let_def)
      qed
    qed
  qed
qed

text \<open>
  \<^bold>\<open>C18\<close>. \<open>doDelete\<close> on every kind of shard: \<open>OK\<close> removes exactly the key, which was live, and
  answers its value; \<open>ErrNoKey\<close> means there was no live entry and nothing changed; an error of
  the store changes nothing; \<open>ErrWrongGroup\<close> leaves every stored entry, the forwarded delete of
  a migrating shard having been undone; only \<open>ErrMaybe\<close> leaves the key removed here alone.
\<close>

theorem doDelete_correct:
  assumes "badger B content seen" "doDelete B E now kv args = (kv', rep)"
  shows "case drErr rep of
        OK \<Rightarrow> content (sdb (kvStore kv')) = (content (sdb (kvStore kv)))(dKey args := None)
              \<and> map_option eValue (live_entry content now (kvStore kv) (dKey args)) = Some (drOldValue rep)
      | ErrNoKey \<Rightarrow> kv' = kv \<and> live_entry content now (kvStore kv) (dKey args) = None
      | ErrWrongLeader \<Rightarrow> kvStore kv' = kvStore kv
      | ErrWrongGroup \<Rightarrow> \<forall>k. stored content (kvStore kv') k = stored content (kvStore kv) k
      | ErrMaybe \<Rightarrow> \<exists>e. live_entry content now (kvStore kv) (dKey args) = Some e
              \<and> content (sdb (kvStore kv')) = (content (sdb (kvStore kv)))(dKey args := None)
      | _ \<Rightarrow> False"
  unfolding delete_outcome_def [symmetric]
proof (cases "kvDead kv \<or> (\<exists>meta. GetShardState (kvShardMgr kv) (shardForKey E (dKey args)) = Some meta \<and> smState meta = ABSENT)")
  case True
  then show "delete_outcome content now kv (dKey args) kv' rep"
    using assms(2) by (auto simp: doDelete_def Let_def delete_outcome_def split: if_splits)
next
  case False
  show "delete_outcome content now kv (dKey args) kv' rep"
  proof (cases "\<exists>meta. migrating_shard E kv (dKey args) meta")
    case True
    then show ?thesis using doDelete_migrating doDeleteWithForward_outcome [OF assms(1)] assms(2) False by metis
  next
    case ns: False
    then have "doDelete B E now kv args =
        (case Get B (kvStore kv) (dKey args) of
           Inl e \<Rightarrow> (RecordFailure kv, delete_reply ErrWrongLeader [])
         | Inr None \<Rightarrow> (kv, delete_reply ErrNoKey [])
         | Inr (Some old) \<Rightarrow>
             if isExpired (eExpires old) now then (kv, delete_reply ErrNoKey [])
             else case Delete B (kvStore kv) (dKey args) of
                    (s, Some e) \<Rightarrow> (RecordFailure (set_store kv s), delete_reply ErrWrongLeader [])
                  | (s, None) \<Rightarrow> (RecordWrite (set_store kv s), delete_reply OK (eValue old)))"
      using False by (auto simp: doDelete_def Let_def migrating_shard_def split: option.splits)
    then show ?thesis
      using assms(2) delete_read [OF assms(1), of kv "dKey args" _ now] badger.Delete_ok [OF assms(1)] badger.Delete_error [OF assms(1)]
      by (cases "Get B (kvStore kv) (dKey args)")
         (auto simp: delete_outcome_def split: option.splits if_splits prod.splits)
  qed
qed

theorem doDelete_correct_witness:
  "map_of (sdb (kvStore (fst (doDelete (mem_badger []) demo_env 40 demo_kv \<lparr> dKey = ''a'' \<rparr>)))) ''a'' = None"
proof -
  have "drErr (snd (doDelete (mem_badger []) demo_env 40 demo_kv \<lparr> dKey = ''a'' \<rparr>)) = OK" by code_simp
  then show ?thesis using doDelete_correct [OF mem.badger_axioms prod.collapse [symmetric], of "[]" demo_env 40 demo_kv "\<lparr> dKey = ''a'' \<rparr>"]
    by simp
qed

section \<open>Expiry\<close>

lemma expire_one_cases:
  obtains (keep) "expire_one B c k (kv, es, olds) = (kv, es, olds)"
  | (failed) s e where "expire_one B c k (kv, es, olds) = (set_store kv s, es, olds)"
      "Delete B (kvStore kv) k = (s, Some e)"
  | (removed) old s where "expire_one B c k (kv, es, olds) = (set_store kv s, es @ [k], olds(k \<mapsto> eValue old))"
      "lockTable (kvTxMgr kv) k = None" "Get B (kvStore kv) k = Inr (Some old)" "expired_at (eExpires old) c"
      "Delete B (kvStore kv) k = (s, None)"
proof (cases "lockTable (kvTxMgr kv) k = None \<and> (\<exists>old. Get B (kvStore kv) k = Inr (Some old) \<and> expired_at (eExpires old) c)")
  case True
  then obtain old where o: "lockTable (kvTxMgr kv) k = None" "Get B (kvStore kv) k = Inr (Some old)" "expired_at (eExpires old) c"
    by blast
  obtain s r where d: "Delete B (kvStore kv) k = (s, r)" by (rule prod.exhaust)
  show ?thesis
    using o d by (cases r) (auto simp: expire_one_def intro: failed removed)
next
  case False
  then show ?thesis by (intro keep) (auto simp: expire_one_def split: sum.splits option.splits)
qed

context badger
begin

lemma expire_fold:
  assumes "fold (expire_one B c) ks (kv, es, olds) = (kv', es', olds')"
  shows "\<exists>new. es' = es @ new \<and> distinct new \<and> kvShardMgr kv' = kvShardMgr kv
    \<and> lockTable (kvTxMgr kv') = lockTable (kvTxMgr kv)
    \<and> (\<forall>k. content (sdb (kvStore kv')) k = (if k \<in> set new then None else content (sdb (kvStore kv)) k))
    \<and> (\<forall>k. k \<notin> set new \<longrightarrow> olds' k = olds k)
    \<and> (\<forall>k \<in> set new. k \<in> set ks \<and> lockTable (kvTxMgr kv) k = None
         \<and> (\<exists>e. stored content (kvStore kv) k = Some e \<and> expired_at (eExpires e) c \<and> olds' k = Some (eValue e)))"
  using assms
proof (induction ks arbitrary: kv es olds)
  case (Cons k ks)
  show ?case
  proof (cases rule: expire_one_cases [of B c k kv es olds])
    case keep
    then have "fold (expire_one B c) ks (kv, es, olds) = (kv', es', olds')" using Cons.prems by simp
    from Cons.IH [OF this] show ?thesis by (rule ex_forward) auto
  next
    case (failed s e)
    then have "s = kvStore kv" using Delete_error by blast
    then have "fold (expire_one B c) ks (kv, es, olds) = (kv', es', olds')" using failed Cons.prems by simp
    from Cons.IH [OF this] show ?thesis by (rule ex_forward) auto
  next
    case (removed old s)
    have old: "stored content (kvStore kv) k = Some old" using Get_ok [OF removed(3)] by simp
    have d: "content (sdb s) = (content (sdb (kvStore kv)))(k := None)" using Delete_ok [OF removed(5)] .
    have "fold (expire_one B c) ks (set_store kv s, es @ [k], olds(k \<mapsto> eValue old)) = (kv', es', olds')"
      using Cons.prems removed(1) by simp
    from Cons.IH [OF this] obtain new where new: "es' = es @ [k] @ new" "distinct new"
      "kvShardMgr kv' = kvShardMgr kv" "lockTable (kvTxMgr kv') = lockTable (kvTxMgr kv)"
      "\<forall>k'. content (sdb (kvStore kv')) k' = (if k' \<in> set new then None else content (sdb s) k')"
      "\<forall>k'. k' \<notin> set new \<longrightarrow> olds' k' = (olds(k \<mapsto> eValue old)) k'"
      "\<forall>k' \<in> set new. k' \<in> set ks \<and> lockTable (kvTxMgr kv) k' = None
         \<and> (\<exists>e. stored content s k' = Some e \<and> expired_at (eExpires e) c \<and> olds' k' = Some (eValue e))"
      by auto
    have s: "stored content s k' = (if k' = k then None else stored content (kvStore kv) k')" for k'
      using d by (simp add: stored_def)
    then have nk: "k \<notin> set new" using new(7) by auto
    have "\<forall>k' \<in> set (k # new). k' \<in> set (k # ks) \<and> lockTable (kvTxMgr kv) k' = None
         \<and> (\<exists>e. stored content (kvStore kv) k' = Some e \<and> expired_at (eExpires e) c \<and> olds' k' = Some (eValue e))"
      using new(6,7) nk s old removed(2,4) by (auto split: if_splits)
    then show ?thesis using new nk d by (intro exI [of _ "k # new"]) auto
  qed
qed simp

lemma doExpire_spec:
  assumes "doExpire B kv args = Some (kv', rep)" "\<not> kvDead kv"
  shows "erErr rep = OK \<and> distinct (erExpiredKeys rep) \<and> lockTable (kvTxMgr kv') = lockTable (kvTxMgr kv)
    \<and> (\<forall>k. content (sdb (kvStore kv')) k
         = (if k \<in> set (erExpiredKeys rep) then None else content (sdb (kvStore kv)) k))
    \<and> (\<forall>k \<in> set (erExpiredKeys rep). k \<in> set (eaKeys args) \<and> lockTable (kvTxMgr kv) k = None
         \<and> (\<exists>e. stored content (kvStore kv) k = Some e \<and> expired_at (eExpires e) (eaCutoff args)
              \<and> erExpiredOldValues rep k = Some (eValue e)))"
proof (cases "eaKeys args = []")
  case True
  then show ?thesis using assms by (auto simp: doExpire_def)
next
  case False
  obtain kv1 es olds where f: "fold (expire_one B (eaCutoff args)) (eaKeys args) (kv, [], Map.empty) = (kv1, es, olds)"
    by (metis prod.exhaust)
  then have r: "rep = \<lparr> erExpiredKeys = es, erExpiredOldValues = olds, erErr = OK \<rparr>"
    "kvStore kv' = kvStore kv1" "lockTable (kvTxMgr kv') = lockTable (kvTxMgr kv1)"
    using assms False by (auto simp: doExpire_def split: if_splits)
  show ?thesis using expire_fold [OF f] r by auto
qed

end

context reliable_badger
begin

lemma Get_complete:
  assumes "content (sdb s) k \<noteq> None \<Longrightarrow> stored content s k \<noteq> None"
  shows "Get B s k = Inr (stored content s k)"
proof -
  obtain t where t: "NewTransaction B (sdb s) = Inr t" using new_ok by blast
  then have "seen t = content (sdb s)" by (rule new_seen)
  then show ?thesis
    using t assms by (cases "content (sdb s) k") (auto simp: Get_def db_View_def get_eq stored_def split: option.splits)
qed

lemma Delete_complete: "\<exists>s'. Delete B s k = (s', None)"
proof -
  have "\<exists>u. update_store B s (\<lambda>t. del_entry B t k) = (u, None)"
    by (rule update_store_complete) (rule del_entry_ok)
  then show ?thesis by (auto simp: Delete_def)
qed

lemma expire_fold_complete:
  assumes "fold (expire_one B c) ks (kv, es, olds) = (kv', es', olds')" "k \<in> set ks"
    "lockTable (kvTxMgr kv) k = None" "stored content (kvStore kv) k = Some e" "expired_at (eExpires e) c"
  shows "k \<in> set es'"
  using assms
proof (induction ks arbitrary: kv es olds)
  case (Cons k' ks)
  have mono: "set es \<subseteq> set es'" if "fold (expire_one B c) ks (kv, es, olds) = (kv', es', olds')" for kv es olds
    using expire_fold [OF that] by auto
  have "content (sdb (kvStore kv)) k \<noteq> None" using Cons.prems(4) by (cases "content (sdb (kvStore kv)) k") (auto simp: stored_def)
  then have g: "Get B (kvStore kv) k = Inr (Some e)" using Get_complete [of "kvStore kv" k] Cons.prems(4) by simp
  obtain s where d: "Delete B (kvStore kv) k = (s, None)" using Delete_complete by blast
  show ?case
  proof (cases "k' = k")
    case True
    have "expire_one B c k (kv, es, olds) = (set_store kv s, es @ [k], olds(k \<mapsto> eValue e))"
      using g d Cons.prems(3,5) by (simp add: expire_one_def)
    then show ?thesis using Cons.prems(1) True mono by fastforce
  next
    case False
    obtain kv1 es1 olds1 where o: "expire_one B c k' (kv, es, olds) = (kv1, es1, olds1)" by (metis prod.exhaust)
    then have "fold (expire_one B c) [k'] (kv, es, olds) = (kv1, es1, olds1)" by simp
    from expire_fold [OF this] False
    have "lockTable (kvTxMgr kv1) k = None" "stored content (kvStore kv1) k = Some e"
      using Cons.prems(3,4) by (auto simp: stored_def)
    then show ?thesis using Cons.IH [of kv1 es1 olds1] Cons.prems o False by simp
  qed
qed simp

end

text \<open>
  \<^bold>\<open>C19\<close>. \<open>doExpire\<close> removes exactly the keys it reports: each of them was asked for, was not
  locked by a transaction and held an entry that had expired at the cutoff, whose value is
  reported; every other key and every lock is as before.
\<close>

theorem doExpire_exact:
  assumes "badger B content seen" "doExpire B kv args = Some (kv', rep)" "\<not> kvDead kv"
  shows "erErr rep = OK \<and> distinct (erExpiredKeys rep) \<and> lockTable (kvTxMgr kv') = lockTable (kvTxMgr kv)
    \<and> (\<forall>k. content (sdb (kvStore kv')) k
         = (if k \<in> set (erExpiredKeys rep) then None else content (sdb (kvStore kv)) k))
    \<and> (\<forall>k \<in> set (erExpiredKeys rep). k \<in> set (eaKeys args) \<and> lockTable (kvTxMgr kv) k = None
         \<and> (\<exists>e. stored content (kvStore kv) k = Some e \<and> expired_at (eExpires e) (eaCutoff args)
              \<and> erExpiredOldValues rep k = Some (eValue e)))"
  using badger.doExpire_spec [OF assms] .

theorem doExpire_exact_witness:
  "\<exists>kv' rep. doExpire (mem_badger []) demo_kv \<lparr> eaKeys = [''b'', ''a''], eaCutoff = 60 \<rparr> = Some (kv', rep)
     \<and> erExpiredKeys rep = [''a''] \<and> map_of (sdb (kvStore kv')) ''a'' = None
     \<and> map_of (sdb (kvStore kv')) ''b'' = map_of (sdb (kvStore demo_kv)) ''b''"
proof -
  let ?args = "\<lparr> eaKeys = [''b'', ''a''], eaCutoff = 60 \<rparr>"
  have a: "\<not> kvDead demo_kv" by code_simp
  have "case doExpire (mem_badger []) demo_kv ?args of None \<Rightarrow> False | Some (_, rep) \<Rightarrow> erExpiredKeys rep = [''a'']"
    by code_simp
  then obtain kv' rep where d: "doExpire (mem_badger []) demo_kv ?args = Some (kv', rep)" "erExpiredKeys rep = [''a'']"
    by (auto split: option.splits)
  from doExpire_exact [OF mem.badger_axioms d(1) a] d show ?thesis by auto
qed


text \<open>One put with an expiry time makes a store the heap covers.\<close>

definition demo_ttl :: "mem_db KVServer" where
  "demo_ttl = set_store demo_kv (fst (PutCASWithTTL (mem_badger []) 10 (NewStore []) ''k'' ''v'' 0 50))"

lemma demo_ttl_tracked: "tracked map_of (kvStore demo_ttl)"
proof -
  have "reach (\<lambda>s. \<exists>d. map_of d = Map.empty \<and> s = NewStore d) (store_write (mem_badger [])) (kvStore demo_ttl)"
    unfolding demo_ttl_def set_store_frame
  proof (rule reach_step)
    show "reach (\<lambda>s. \<exists>d. map_of d = Map.empty \<and> s = NewStore d) (store_write (mem_badger [])) (NewStore [])"
      by (rule reach_init) auto
    show "store_write (mem_badger []) (NewStore []) (fst (PutCASWithTTL (mem_badger []) 10 (NewStore []) ''k'' ''v'' 0 50))"
      by (rule w_put [OF prod.collapse [symmetric]])
  qed
  then show ?thesis by (rule mem.reach_tracked)
qed


end
