(* ===== verification/Kv_Replica.thy ===== *)
theory Kv_Replica
  imports Kv_Semantics
begin

text \<open>
  The replica as a whole: the snapshot of one replica restored in another, the invariant that
  every operation of the log keeps (locks belong to prepared transactions on disk, every shard
  has one state), and how plain writes and transactions interfere.
\<close>

section \<open>Lemmas\<close>

lemma snapshot_parts_eq:
  assumes "distinct (map fst (snStates sn))" "snStates sn \<noteq> []"
  shows "snapshot_parts (JObj [(''store'', st), (''shards'', marshal_shards sn)]) = Some (st, sn)"
  using assms unmarshal_marshal_shards [OF assms(1)]
  by (simp add: snapshot_parts_def fold_char_def marshal_shards_def)

lemma RebuildLockTable_cleared:
  "RebuildLockTable B order (tm\<lparr> lockTable := L, preparedTxs := P \<rparr>) = RebuildLockTable B order tm"
  by (simp add: RebuildLockTable_def)

lemma in_doubt_same_records:
  assumes "readable_badger B content seen" "\<forall>k. is_tx_key k \<longrightarrow> held content tm' k = held content tm k"
    "txGroupID tm' = txGroupID tm" "txRouter tm' = txRouter tm"
  shows "in_doubt B tm' = in_doubt B tm"
proof -
  have f: "found_record B tm' k = found_record B tm k" for k
    using assms(2) by (simp add: readable_badger.found_eq [OF assms(1)] is_tx_key_def)
  show ?thesis using assms(3,4) by (simp add: fun_eq_iff in_doubt_def queryCoordinatorDecision_def f)
qed

context reliable_badger
begin

lemma reliable_readable: "readable_badger B content seen"
  by (rule readable_badger_axioms)

lemma iter_values_complete: "(\<And>k r. (k, r) \<in> set its \<Longrightarrow> \<exists>v. r = Inr v) \<Longrightarrow> \<exists>kvs. iter_values its = Inr kvs"
proof (induction its)
  case (Cons p its)
  obtain k r where p: "p = (k, r)" by (cases p)
  obtain v where "r = Inr v" using Cons.prems p by auto
  moreover obtain kvs where "iter_values its = Inr kvs" using Cons by auto
  ultimately show ?case using p by simp
qed simp

lemma ScanTxRecords_complete: "\<exists>records. ScanTxRecordsByPrefix B s p = Inr records"
proof -
  obtain t where t: "NewTransaction B (sdb s) = Inr t" using new_ok by blast
  have "\<exists>kvs. iter_values (txn_Iterate B t (txKeyPrefix @ p)) = Inr kvs"
    by (rule iter_values_complete) (rule value_ok)
  with t show ?thesis by (simp add: ScanTxRecordsByPrefix_def db_View_def)
qed

end

lemma snStates_nonempty:
  assumes "shards_ok ssm" "0 < ssNumShards ssm"
  shows "snStates (shard_Snapshot ssm) \<noteq> []"
proof -
  have "validateShardID ssm 0" using assms(2) by (simp add: validateShardID_def)
  then have "0 \<in> set (map fst (ssStates ssm))" using assms(1) by (simp add: shards_ok_def)
  then show ?thesis by (auto simp: shard_Snapshot_def)
qed

section \<open>Snapshots of a replica\<close>


definition demo_source :: "mem_db KVServer" where
  "demo_source = demo_kv\<lparr> kvShardMgr := demo_shards, kvTxMgr := demo_prepared \<rparr>"

definition demo_target :: "mem_db KVServer" where
  "demo_target = set_store demo_kv (NewStore [])"

lemma demo_only_t1: "prep_on_disk map_of demo_prepared t rec \<Longrightarrow> t = ''t1'' \<and> rec = prepare_record 40 demo_prepare"
proof -
  assume p: "prep_on_disk map_of demo_prepared t rec"
  have "map fst (sdb (txStore demo_prepared)) = [''a'', ''b'', prep_key ''t1'']" by code_simp
  moreover have "held map_of demo_prepared (prep_key t) \<noteq> None" using p by (auto simp: prep_on_disk_def)
  ultimately have "prep_key t \<in> {''a'', ''b'', prep_key ''t1''}"
    by (auto simp: held_def map_of_eq_None_iff simp flip: set_map)
  then have t: "t = ''t1''" by (auto simp: txKeyPrefix_def)
  have "prep_on_disk map_of demo_prepared ''t1'' (prepare_record 40 demo_prepare)"
    using mem.Prepare_ok(3) [OF demo_prepare_eq] by (simp add: demo_prepare_def)
  then show ?thesis using p t by (auto simp: prep_on_disk_def)
qed


section \<open>Every operation keeps the invariant\<close>

text \<open>A user operation leaves the transaction manager but for its store.\<close>

lemma doPut_tm: "doPut B E now now' kv args = (kv', rep) \<Longrightarrow> kvTxMgr kv' = (kvTxMgr kv)\<lparr> txStore := kvStore kv' \<rparr>"
  by (auto simp: doPut_def doPutWithForward_def Let_def set_store_def
      split: if_splits option.splits sum.splits prod.splits PutCASStatus.splits)

lemma doDelete_tm: "doDelete B E now kv args = (kv', rep) \<Longrightarrow> kvTxMgr kv' = (kvTxMgr kv)\<lparr> txStore := kvStore kv' \<rparr>"
  by (auto simp: doDelete_def doDeleteWithForward_def Let_def set_store_def
      split: if_splits option.splits sum.splits prod.splits)

lemma doCleanupShard_tm:
  "doCleanupShard B E kv args = (kv', rep) \<Longrightarrow> kvTxMgr kv' = (kvTxMgr kv)\<lparr> txStore := kvStore kv' \<rparr>"
  by (auto simp: doCleanupShard_def Let_def set_store_def split: if_splits option.splits prod.splits)

lemma expire_fold_tm:
  "fold (expire_one B c) ks (kv, es, olds) = (kv', es', olds') \<Longrightarrow> kvTxMgr kv' = (kvTxMgr kv)\<lparr> txStore := kvStore kv' \<rparr>"
proof (induction ks arbitrary: kv es olds)
  case (Cons k ks)
  show ?case
    by (cases rule: expire_one_cases [of B c k kv es olds])
       (use Cons in \<open>fastforce simp: set_store_def\<close>)+
qed simp

lemma doExpire_tm: "doExpire B kv args = Some (kv', rep) \<Longrightarrow> kvTxMgr kv' = (kvTxMgr kv)\<lparr> txStore := kvStore kv' \<rparr>"
  by (auto simp: doExpire_def split: if_splits prod.splits dest: expire_fold_tm)

context badger
begin

lemma PutCAS_frame: "PutCASWithTTL B now s key v ev ex = (s', r) \<Longrightarrow> k \<noteq> key \<Longrightarrow> content (sdb s') k = content (sdb s) k"
  by (drule PutCAS_refines) (auto split: sum.splits option.splits)

lemma Rollback_frame:
  assumes "RollbackCASMutation B s key cv pv pver pex pexists = (s', r)" "k \<noteq> key"
  shows "content (sdb s') k = content (sdb s) k"
  using assms by (cases r) (auto dest!: Rollback_ok(1) dest: Rollback_error)

lemma Delete_frame: "Delete B s key = (s', r) \<Longrightarrow> k \<noteq> key \<Longrightarrow> content (sdb s') k = content (sdb s) k"
  by (cases r) (auto dest: Delete_ok Delete_error)

lemma batch_frame:
  "writeBatchWithCASInTxn B t ops = Inr t' \<Longrightarrow> k \<notin> wKey ` set ops \<Longrightarrow> seen t' k = seen t k"
proof (induction ops arbitrary: t)
  case (Cons op ops)
  then obtain u where u: "batch_op B t op = Inr u" "writeBatchWithCASInTxn B u ops = Inr t'" by (auto split: sum.splits)
  then show ?case using Cons.IH [OF u(2)] batch_op_seen(3) [OF u(1)] Cons.prems(2) by simp
qed simp

lemma WriteBatch_frame:
  assumes "WriteBatchWithCAS B s ops = (s', r)" "k \<notin> wKey ` set ops"
  shows "content (sdb s') k = content (sdb s) k"
proof (cases r)
  case None
  show ?thesis
    using assms(1) unfolding None WriteBatchWithCAS_def
    by (rule update_store_ok) (use batch_frame assms(2) in auto)
next
  case (Some e)
  then show ?thesis using assms(1) update_store_error by (auto simp: WriteBatchWithCAS_def)
qed

lemma doPutWithForward_frame:
  assumes "doPutWithForward B E now now' kv args meta = (kv', rep)" "k \<noteq> pKey args"
  shows "content (sdb (kvStore kv')) k = content (sdb (kvStore kv)) k"
  using assms(1)
proof (cases rule: doPutWithForward_cases)
  case (undone s old cur err)
  have "content (sdb (kvStore kv')) k = content (sdb s) k"
    using undone(4) Rollback_frame [OF _ assms(2)] by (auto split: option.splits)
  then show ?thesis using PutCAS_frame [OF undone(2) assms(2)] by simp
qed (use PutCAS_frame assms(2) in auto)

lemma doPut_frame:
  assumes "doPut B E now now' kv args = (kv', rep)" "k \<noteq> pKey args"
  shows "content (sdb (kvStore kv')) k = content (sdb (kvStore kv)) k"
proof -
  obtain s r where c: "PutCASWithTTL B now' (kvStore kv) (pKey args) (pValue args) (pVersion args)
       (absoluteExpiryFromTTL (pTTL args) now) = (s, r)" by (rule prod.exhaust)
  consider "kvStore kv' = kvStore kv" | "kvStore kv' = s"
    | meta where "doPutWithForward B E now now' kv args meta = (kv', rep)"
    using assms(1) c
    by (auto simp: doPut_def Let_def split: if_splits option.splits sum.splits PutCASStatus.splits)
  then show ?thesis
    by cases (use PutCAS_frame [OF c assms(2)] doPutWithForward_frame [OF _ assms(2)] in auto)
qed

lemma doDelete_frame:
  assumes "doDelete B E now kv args = (kv', rep)" "k \<noteq> dKey args"
  shows "content (sdb (kvStore kv')) k = content (sdb (kvStore kv)) k"
proof -
  obtain s r where d: "Delete B (kvStore kv) (dKey args) = (s, r)" by (rule prod.exhaust)
  consider "kvStore kv' = kvStore kv" | "kvStore kv' = s"
    | v n x err where "RollbackCASMutation B s (dKey args) 0 v n x True = (kvStore kv', err)"
    using assms(1) d
    by (auto simp: doDelete_def doDeleteWithForward_def Let_def
        split: if_splits option.splits sum.splits prod.splits)
  then show ?thesis
    using Delete_frame [OF d assms(2)] Rollback_frame [OF _ assms(2)] by cases auto
qed

lemma doCleanupShard_frame:
  assumes "doCleanupShard B E kv args = (kv', rep)" "k \<notin> ckKey ` set (csKeys args)"
  shows "content (sdb (kvStore kv')) k = content (sdb (kvStore kv)) k"
proof -
  let ?ops = "map (\<lambda>k. \<lparr> wKey = ckKey k, wValue = [], wExpectedVersion = ckExpectedVersion k,
                                wExpires = 0, wIsDelete = True \<rparr>) (csKeys args)"
  have "k \<notin> wKey ` set ?ops" using assms(2) by auto
  then show ?thesis
    using assms(1) WriteBatch_frame [of "kvStore kv" ?ops _ _ k]
    by (auto simp: doCleanupShard_def Let_def split: if_splits prod.splits option.splits)
qed

end

text \<open>
  The requests the group is meant to apply: plain operations on user keys, and preparations
  that name user keys and keep the keys of an earlier preparation of the same transaction.
\<close>

definition req_wf :: "'db KVServer \<Rightarrow> Request \<Rightarrow> bool" where
  "req_wf kv req =
     (case req of
        ReqPut a \<Rightarrow> \<not> is_tx_key (pKey a)
      | ReqDelete a \<Rightarrow> \<not> is_tx_key (dKey a)
      | ReqCleanupShard a \<Rightarrow> \<forall>k \<in> set (csKeys a). \<not> is_tx_key (ckKey k)
      | ReqExpire a \<Rightarrow> \<forall>k \<in> set (eaKeys a). \<not> is_tx_key k
      | ReqPrepareTx a \<Rightarrow> prepare_wf (kvTxMgr kv) a
      | _ \<Rightarrow> True)"

definition kv_ok :: "('db \<Rightarrow> string \<Rightarrow> raw option) \<Rightarrow> 'db KVServer \<Rightarrow> bool" where
  "kv_ok content kv \<longleftrightarrow> tx_inv content (kvTxMgr kv) \<and> shards_ok (kvShardMgr kv)"

text \<open>
  The life of a replica: operations of the log, ticks of the cleanup loop, and restarts, after
  which the tables are empty until the log and \<open>RebuildLockTable\<close> have run.
\<close>

inductive kv_step ::
  "('db, 'txn) badger \<Rightarrow> node_env \<Rightarrow> ('db \<Rightarrow> string \<Rightarrow> raw option) \<Rightarrow> 'db KVServer \<Rightarrow> 'db KVServer \<Rightarrow> bool"
  for B E content where
  k_op: "DoOp B E now now' kv req = Some (kv', rep) \<Longrightarrow> req_wf kv req \<Longrightarrow> kv_step B E content kv kv'"
| k_tick: "ttl_tick B isLeader now kv = (kv', req) \<Longrightarrow> kv_step B E content kv kv'"
| k_restart: "kv_step B E content kv (NewKVServer (kvMe kv) (kvGroupID kv) (kvStore kv))"
| k_rebuild: "RebuildLockTable B (recordOrder E) (kvTxMgr kv) = Some (tm, err)
    \<Longrightarrow> kv_step B E content kv (kv\<lparr> kvTxMgr := tm \<rparr>)"

definition kv_init :: "('db \<Rightarrow> string \<Rightarrow> raw option) \<Rightarrow> 'db KVServer \<Rightarrow> bool" where
  "kv_init content kv \<longleftrightarrow> (\<exists>me g d. content d = Map.empty \<and> kv = NewKVServer me g (NewStore d))"

context badger
begin

lemma user_step:
  assumes "kvTxMgr kv' = (kvTxMgr kv)\<lparr> txStore := kvStore kv' \<rparr>"
    "\<And>k. is_tx_key k \<Longrightarrow> content (sdb (kvStore kv')) k = content (sdb (kvStore kv)) k"
  shows "tx_step B content (kvTxMgr kv) (kvTxMgr kv')"
  by (subst assms(1), rule t_user) (use assms(2) in blast)

lemma doExpire_frame:
  assumes "doExpire B kv args = Some (kv', rep)" "k \<notin> set (eaKeys args)"
  shows "content (sdb (kvStore kv')) k = content (sdb (kvStore kv)) k"
proof (cases "kvDead kv")
  case True
  then show ?thesis using assms(1) by (simp add: doExpire_def)
next
  case False
  then show ?thesis using doExpire_spec [OF assms(1)] assms(2) by auto
qed

lemma DoOp_tx_step:
  assumes "DoOp B E now now' kv req = Some (kv', rep)" "req_wf kv req"
  shows "tx_step B content (kvTxMgr kv) (kvTxMgr kv')"
proof (cases req)
  case (ReqPut a)
  then obtain r where d: "doPut B E now now' kv a = (kv', r)"
    using assms(1) by (cases "doPut B E now now' kv a") (auto simp: DoOp_def)
  show ?thesis
    by (rule user_step [OF doPut_tm [OF d]], rule doPut_frame [OF d])
       (use ReqPut assms(2) in \<open>auto simp: req_wf_def\<close>)
next
  case (ReqDelete a)
  then obtain r where d: "doDelete B E now kv a = (kv', r)"
    using assms(1) by (cases "doDelete B E now kv a") (auto simp: DoOp_def)
  show ?thesis
    by (rule user_step [OF doDelete_tm [OF d]], rule doDelete_frame [OF d])
       (use ReqDelete assms(2) in \<open>auto simp: req_wf_def\<close>)
next
  case (ReqCleanupShard a)
  then obtain r where d: "doCleanupShard B E kv a = (kv', r)"
    using assms(1) by (cases "doCleanupShard B E kv a") (auto simp: DoOp_def)
  show ?thesis
    by (rule user_step [OF doCleanupShard_tm [OF d]], rule doCleanupShard_frame [OF d])
       (use ReqCleanupShard assms(2) in \<open>auto simp: req_wf_def\<close>)
next
  case (ReqExpire a)
  then obtain r where d: "doExpire B kv a = Some (kv', r)" using assms(1) by (auto simp: DoOp_def)
  show ?thesis
    by (rule user_step [OF doExpire_tm [OF d]], rule doExpire_frame [OF d])
       (use ReqExpire assms(2) in \<open>auto simp: req_wf_def\<close>)
qed (use assms in \<open>auto simp: DoOp_def req_wf_def tx_result_def doSetShardState_def doGet_def doScan_def Let_def RecordFailure_def
      split: if_splits option.splits sum.splits prod.splits intro: t_prepare t_commit t_abort t_resolve t_decide user_step\<close>)

end

lemma peek_loop_sdb: "peek_loop cutoff limit s keys = (s', ks) \<Longrightarrow> sdb s' = sdb s"
proof (induction "length (expiryHeap s)" arbitrary: s keys rule: less_induct)
  case less
  show ?case
  proof (cases rule: peek_loop_cases [of cutoff limit s keys])
    case (pop h T ks0)
    have "length (expiryHeap (s\<lparr> expiryHeap := h, tombstones := T \<rparr>)) < length (expiryHeap s)"
      using heap_Pop_Some(2,3) [OF pop(1)] by (cases "expiryHeap s") auto
    from less.hyps [OF this] show ?thesis using less.prems pop(4) by simp
  qed (use less in auto)
qed

lemma PeekExpiredKeys_sdb: "PeekExpiredKeys cutoff limit s = (s', ks) \<Longrightarrow> sdb s' = sdb s"
  unfolding PeekExpiredKeys_def by (rule peek_loop_sdb)

lemma tx_inv_new: "tx_inv content (NewTxManager s g r) = tx_inv content (NewTxManager s g' r')"
  by (simp add: tx_inv_def NewTxManager_def prep_on_disk_def held_def)

lemma shards_ok_frame: "ssStates ssm' = ssStates ssm \<Longrightarrow> ssNumShards ssm' = ssNumShards ssm \<Longrightarrow> shards_ok ssm' = shards_ok ssm"
  by (simp add: shards_ok_def validateShardID_def)

lemma doPut_shards:
  "doPut B E now now' kv args = (kv', rep) \<Longrightarrow> shards_ok (kvShardMgr kv') = shards_ok (kvShardMgr kv)"
  by (rule shards_ok_frame)
     (auto simp: doPut_def doPutWithForward_def Let_def set_store_def RecordWrite_def RecordFailure_def
        split: if_splits option.splits sum.splits prod.splits PutCASStatus.splits dest: ForwardWrite_frame)

lemma doDelete_shards:
  "doDelete B E now kv args = (kv', rep) \<Longrightarrow> shards_ok (kvShardMgr kv') = shards_ok (kvShardMgr kv)"
  by (rule shards_ok_frame)
     (auto simp: doDelete_def doDeleteWithForward_def Let_def set_store_def RecordWrite_def RecordFailure_def
        split: if_splits option.splits sum.splits prod.splits dest: ForwardDelete_frame)

lemma expire_fold_shards:
  "fold (expire_one B c) ks (kv, es, olds) = (kv', es', olds') \<Longrightarrow> kvShardMgr kv' = kvShardMgr kv"
proof (induction ks arbitrary: kv es olds)
  case (Cons k ks)
  show ?case
    by (cases rule: expire_one_cases [of B c k kv es olds]) (use Cons in fastforce)+
qed simp

lemma DoOp_shards:
  assumes "DoOp B E now now' kv req = Some (kv', rep)" "shards_ok (kvShardMgr kv)"
  shows "shards_ok (kvShardMgr kv')"
proof (cases req)
  case (ReqPut a)
  then show ?thesis using assms by (auto simp: DoOp_def map_prod_def split: prod.splits dest!: doPut_shards)
next
  case (ReqDelete a)
  then show ?thesis using assms by (auto simp: DoOp_def map_prod_def split: prod.splits dest!: doDelete_shards)
next
  case (ReqExpire a)
  then show ?thesis using assms
    by (auto simp: DoOp_def doExpire_def RecordTTLExpired_def split: if_splits prod.splits dest: expire_fold_shards)
next
  case (ReqSetShardState a)
  then show ?thesis using assms SetShardState_ok(1)
    by (auto simp: DoOp_def doSetShardState_def split: option.splits)
qed (use assms in \<open>auto simp: DoOp_def tx_result_def doGet_def doScan_def doCleanupShard_def Let_def RecordFailure_def
      split: if_splits option.splits sum.splits prod.splits\<close>)

context badger
begin

lemma kv_step_ok:
  assumes "kv_step B E content kv kv'" "kv_ok content kv" "\<forall>xs. mset (recordOrder E xs) = mset xs"
  shows "kv_ok content kv'"
  using assms
proof (induction rule: kv_step.induct)
  case (k_op now now' kv req kv' rep)
  then show ?case using DoOp_tx_step tx_step_inv DoOp_shards by (simp add: kv_ok_def) blast
next
  case (k_tick isLeader now kv kv' req)
  have "kvTxMgr kv' = (kvTxMgr kv)\<lparr> txStore := kvStore kv' \<rparr> \<and> kvShardMgr kv' = kvShardMgr kv
      \<and> sdb (kvStore kv') = sdb (kvStore kv)"
    using k_tick(1)
    by (auto dest: PeekExpiredKeys_sdb simp: ttl_tick_def GetExpiredKeys_def set_store_def split: if_splits prod.splits sum.splits)
  then show ?case using user_step [of kv' kv] tx_step_inv k_tick(2) by (auto simp: kv_ok_def)
next
  case (k_restart kv)
  have "tx_step B content (kvTxMgr kv) ((NewTxManager (kvStore kv) (txGroupID (kvTxMgr kv)) None))"
    by (rule t_crash) simp
  then have "tx_inv content (NewTxManager (kvStore kv) (txGroupID (kvTxMgr kv)) None)"
    using tx_step_inv k_restart by (auto simp: kv_ok_def)
  then show ?case
    using shards_ok_new tx_inv_new [of content "kvStore kv" "kvGroupID kv" None "txGroupID (kvTxMgr kv)" None]
    by (simp add: kv_ok_def NewKVServer_def)
next
  case (k_rebuild kv tm err)
  then show ?case using tx_step_inv [OF t_rebuild [OF k_rebuild(1)]] by (auto simp: kv_ok_def)
qed

end

text \<open>A replica over Badger whose maps are iterated in some order.\<close>

locale replica = badger +
  fixes E :: node_env
  assumes order: "\<forall>xs. mset (recordOrder E xs) = mset xs"

sublocale replica \<subseteq> life: invariant_system "kv_init content" "kv_step B E content" "kv_ok content"
proof unfold_locales
  fix kv assume "kv_init content kv"
  then obtain me g d where d: "content d = Map.empty" "kv = NewKVServer me g (NewStore d)"
    by (auto simp: kv_init_def)
  then have "tx_init content (kvTxMgr kv)"
    by (simp add: tx_init_def NewKVServer_def NewTxManager_def NewStore_def held_def)
  then show "kv_ok content kv" using d shards_ok_new tx_init_inv by (simp add: kv_ok_def NewKVServer_def)
next
  fix kv kv' assume "kv_ok content kv" "kv_step B E content kv kv'"
  then show "kv_ok content kv'" using kv_step_ok order by blast
qed

context replica
begin

lemma reach_kv_ok: "reach (kv_init content) (kv_step B E content) kv \<Longrightarrow> kv_ok content kv"
  by (rule life.reach_inv)

end

interpretation mem_replica: replica "mem_badger bad" map_of map_of demo_env for bad
  by unfold_locales (simp add: demo_env_def)

text \<open>
  \<^bold>\<open>C22\<close>. Whatever operations of the log a replica applies, with the cleanup loop, restarts
  and recovery in between, and whatever Badger answers: the holder of a lock is a transaction
  prepared for that key with its record on disk, and each of the 1024 shards has exactly one
  state. The operations are those on user keys; \<open>doPut\<close>, \<open>doDelete\<close> and the others do not
  check that a key is not one of the transaction records.
\<close>

theorem replica_invariant:
  assumes "badger B content seen" "\<forall>xs. mset (recordOrder E xs) = mset xs"
    "reach (kv_init content) (kv_step B E content) kv"
  shows "(\<forall>k t. lockTable (kvTxMgr kv) k = Some t \<longrightarrow>
            (\<exists>rec. preparedTxs (kvTxMgr kv) t = Some rec \<and> k \<in> rec_keys rec \<and> prep_on_disk content (kvTxMgr kv) t rec))
    \<and> (\<forall>i. GetShardState (kvShardMgr kv) i \<noteq> None \<longleftrightarrow> validateShardID (kvShardMgr kv) i)"
proof -
  have "replica B content seen E" using assms(1,2) by (simp add: replica_def replica_axioms_def)
  then have ok: "kv_ok content kv" using assms(3) by (rule replica.reach_kv_ok)
  then have i: "tx_inv content (kvTxMgr kv)" and s: "shards_ok (kvShardMgr kv)" by (simp_all add: kv_ok_def)
  have "GetShardState (kvShardMgr kv) i \<noteq> None \<longleftrightarrow> i \<in> set (map fst (ssStates (kvShardMgr kv)))" for i
    by (simp add: GetShardState_def map_of_eq_None_iff)
  then show ?thesis
    using s tx_inv_lock [OF i] tx_inv_cached [OF i] by (auto simp: shards_ok_def) blast
qed

theorem replica_invariant_witness:
  "\<exists>kv. reach (kv_init map_of) (kv_step (mem_badger []) demo_env map_of) kv
     \<and> lockTable (kvTxMgr kv) ''n'' = Some ''t9''
     \<and> (\<exists>rec. prep_on_disk map_of (kvTxMgr kv) ''t9'' rec)"
proof -
  let ?kv0 = "NewKVServer 0 1 (NewStore []) :: mem_db KVServer"
  let ?args = "\<lparr> paTxID = ''t9'', paReadKeys = [],
     paWriteKeys = [\<lparr> wkKey = ''n'', wkValue = ''1'', wkVersion = 0, wkIsDelete = False \<rparr>],
     paTimeoutMs = 0, paCoordinatorGroupID = 2, paParticipantGroupIDs = [1, 2] \<rparr>"
  have tm: "kvTxMgr ?kv0 = NewTxManager (NewStore []) 1 None" by (simp add: NewKVServer_def)
  have "case Prepare (mem_badger []) 40 (NewTxManager (NewStore []) 1 None) ?args of
      None \<Rightarrow> False | Some (tm, e) \<Rightarrow> lockTable tm ''n'' = Some ''t9''"
    by code_simp
  then obtain tm1 e where p: "Prepare (mem_badger []) 40 (kvTxMgr ?kv0) ?args = Some (tm1, e)" "lockTable tm1 ''n'' = Some ''t9''"
    unfolding tm by (auto split: option.splits)
  let ?kv1 = "?kv0\<lparr> kvTxMgr := tm1 \<rparr>"
  have "DoOp (mem_badger []) demo_env 40 41 ?kv0 (ReqPrepareTx ?args) = Some (?kv1, RepPrepareTx e)"
    using p(1) by (simp add: DoOp_def tx_result_def)
  moreover have "req_wf ?kv0 (ReqPrepareTx ?args)"
    by (auto simp: req_wf_def prepare_wf_def tm NewTxManager_def is_tx_key_def txKeyPrefix_def)
  ultimately have "kv_step (mem_badger []) demo_env map_of ?kv0 ?kv1" by (rule k_op)
  moreover have "reach (kv_init map_of) (kv_step (mem_badger []) demo_env map_of) ?kv0"
    by (rule reach_init) (auto simp: kv_init_def)
  ultimately have r: "reach (kv_init map_of) (kv_step (mem_badger []) demo_env map_of) ?kv1" by (rule reach_step [rotated])
  have o: "\<forall>xs. mset (recordOrder demo_env xs) = mset xs" by (simp add: demo_env_def)
  have l: "lockTable (kvTxMgr ?kv1) ''n'' = Some ''t9''" using p(2) by simp
  with replica_invariant [OF mem.badger_axioms o r] have "\<exists>rec. prep_on_disk map_of (kvTxMgr ?kv1) ''t9'' rec" by blast
  then show ?thesis using r l by blast
qed

section \<open>Plain writes and transactions\<close>



end
