(* ===== verification/Wal.thy ===== *)
theory Wal
  imports Json
begin

text \<open>
  The write-ahead log of the replicated state machine (\<^verbatim>\<open>src/pkg/wal/logger.go\<close>): the entry
  and its JSON line, the logger with its queue and worker, replay, and truncation. The log
  file is the sequence of its complete lines and the text after the last newline; a line is
  blank or a text, which may not be JSON. The outcomes of the calls to package \<open>os\<close> are
  parameters, a short write among them.
\<close>

section \<open>Entries\<close>

record Entry =
  weRaftIndex :: int64
  weTerm :: goint
  weNodeID :: goint
  weReqID :: int64
  weOpType :: string
  weKey :: string
  weValue :: string
  weVersion :: int64
  weTTL :: int64
  weKeys :: "string list"
  weVersions :: "int64 list"
  weShardID :: goint
  weShardState :: "32 word"
  weTargetGroup :: goint
  weEpoch :: int64
  weReplicas :: "string list"
  weCutoff :: int64
  weTxReadKeys :: "string list"
  weTxReadVersions :: "int64 list"
  weTxWriteKeys :: "string list"
  weTxWriteValues :: "string list"
  weTxWriteVersions :: "int64 list"
  weTxWriteDeletes :: "bool list"
  weTxTimeoutMs :: int64
  weTxCoordinatorGroup :: goint
  weTxParticipantGroups :: "goint list"
  weTxDecision :: goint
  weTimestamp :: int64

definition entry_fields :: "Entry \<Rightarrow> (string \<times> bool \<times> json) list" where
  "entry_fields e =
     [(''raft_index'', False, enc_int64 (weRaftIndex e)), (''term'', False, enc_int64 (weTerm e)),
      (''node_id'', False, enc_int64 (weNodeID e)), (''req_id'', False, enc_int64 (weReqID e)),
      (''op_type'', False, JStr (weOpType e)),
      (''key'', weKey e = [], JStr (weKey e)), (''value'', weValue e = [], JStr (weValue e)),
      (''version'', weVersion e = 0, enc_int64 (weVersion e)), (''ttl'', weTTL e = 0, enc_int64 (weTTL e)),
      (''keys'', weKeys e = [], JArr (map JStr (weKeys e))),
      (''versions'', weVersions e = [], JArr (map enc_int64 (weVersions e))),
      (''shard_id'', weShardID e = 0, enc_int64 (weShardID e)),
      (''shard_state'', weShardState e = 0, enc_int32 (weShardState e)),
      (''target_group'', weTargetGroup e = 0, enc_int64 (weTargetGroup e)),
      (''epoch'', weEpoch e = 0, enc_int64 (weEpoch e)),
      (''replicas'', weReplicas e = [], JArr (map JStr (weReplicas e))),
      (''cutoff'', weCutoff e = 0, enc_int64 (weCutoff e)),
      (''tx_read_keys'', weTxReadKeys e = [], JArr (map JStr (weTxReadKeys e))),
      (''tx_read_versions'', weTxReadVersions e = [], JArr (map enc_int64 (weTxReadVersions e))),
      (''tx_write_keys'', weTxWriteKeys e = [], JArr (map JStr (weTxWriteKeys e))),
      (''tx_write_values'', weTxWriteValues e = [], JArr (map JStr (weTxWriteValues e))),
      (''tx_write_versions'', weTxWriteVersions e = [], JArr (map enc_int64 (weTxWriteVersions e))),
      (''tx_write_deletes'', weTxWriteDeletes e = [], JArr (map JBool (weTxWriteDeletes e))),
      (''tx_timeout_ms'', weTxTimeoutMs e = 0, enc_int64 (weTxTimeoutMs e)),
      (''tx_coordinator_group'', weTxCoordinatorGroup e = 0, enc_int64 (weTxCoordinatorGroup e)),
      (''tx_participant_groups'', weTxParticipantGroups e = [], JArr (map enc_int64 (weTxParticipantGroups e))),
      (''tx_decision'', weTxDecision e = 0, enc_int64 (weTxDecision e)),
      (''timestamp'', False, enc_int64 (weTimestamp e))]"

definition marshal_Entry :: "Entry \<Rightarrow> json" where
  "marshal_Entry e = JObj (struct_obj (entry_fields e))"

text \<open>A field that does not decode refuses the line; the groups below only split the product.\<close>

definition unmarshal_Entry :: "json \<Rightarrow> Entry option" where
  "unmarshal_Entry j =
     (case dec_obj j of
        None \<Rightarrow> None
      | Some fs \<Rightarrow>
          (case (dec_int64 (jfield ''raft_index'' fs), dec_int64 (jfield ''term'' fs),
                 dec_int64 (jfield ''node_id'' fs), dec_int64 (jfield ''req_id'' fs),
                 dec_str (jfield ''op_type'' fs), dec_str (jfield ''key'' fs), dec_str (jfield ''value'' fs),
                 dec_int64 (jfield ''version'' fs), dec_int64 (jfield ''ttl'' fs)) of
             (Some ri, Some te, Some ni, Some rq, Some ot, Some ke, Some va, Some ve, Some tt) \<Rightarrow>
          (case (dec_list dec_str (jfield ''keys'' fs), dec_list dec_int64 (jfield ''versions'' fs),
                 dec_int64 (jfield ''shard_id'' fs), dec_int32 (jfield ''shard_state'' fs),
                 dec_int64 (jfield ''target_group'' fs), dec_int64 (jfield ''epoch'' fs),
                 dec_list dec_str (jfield ''replicas'' fs), dec_int64 (jfield ''cutoff'' fs)) of
             (Some ks, Some vs, Some si, Some ss, Some tg, Some ep, Some rs, Some cu) \<Rightarrow>
          (case (dec_list dec_str (jfield ''tx_read_keys'' fs), dec_list dec_int64 (jfield ''tx_read_versions'' fs),
                 dec_list dec_str (jfield ''tx_write_keys'' fs), dec_list dec_str (jfield ''tx_write_values'' fs),
                 dec_list dec_int64 (jfield ''tx_write_versions'' fs), dec_list dec_bool (jfield ''tx_write_deletes'' fs)) of
             (Some rk, Some rv, Some wk, Some wv, Some wn, Some wd) \<Rightarrow>
          (case (dec_int64 (jfield ''tx_timeout_ms'' fs), dec_int64 (jfield ''tx_coordinator_group'' fs),
                 dec_list dec_int64 (jfield ''tx_participant_groups'' fs), dec_int64 (jfield ''tx_decision'' fs),
                 dec_int64 (jfield ''timestamp'' fs)) of
             (Some to, Some cg, Some pg, Some td, Some ts) \<Rightarrow>
               Some \<lparr> weRaftIndex = ri, weTerm = te, weNodeID = ni, weReqID = rq, weOpType = ot, weKey = ke,
                      weValue = va, weVersion = ve, weTTL = tt, weKeys = ks, weVersions = vs, weShardID = si,
                      weShardState = ss, weTargetGroup = tg, weEpoch = ep, weReplicas = rs, weCutoff = cu,
                      weTxReadKeys = rk, weTxReadVersions = rv, weTxWriteKeys = wk, weTxWriteValues = wv,
                      weTxWriteVersions = wn, weTxWriteDeletes = wd, weTxTimeoutMs = to,
                      weTxCoordinatorGroup = cg, weTxParticipantGroups = pg, weTxDecision = td, weTimestamp = ts \<rparr>
           | _ \<Rightarrow> None) | _ \<Rightarrow> None) | _ \<Rightarrow> None) | _ \<Rightarrow> None))"

lemma entry_names:
  "map (\<lambda>(n, _, _). map fold_char n) (entry_fields e)
   = [''raft_index'', ''term'', ''node_id'', ''req_id'', ''op_type'', ''key'', ''value'', ''version'', ''ttl'',
      ''keys'', ''versions'', ''shard_id'', ''shard_state'', ''target_group'', ''epoch'', ''replicas'', ''cutoff'',
      ''tx_read_keys'', ''tx_read_versions'', ''tx_write_keys'', ''tx_write_values'', ''tx_write_versions'',
      ''tx_write_deletes'', ''tx_timeout_ms'', ''tx_coordinator_group'', ''tx_participant_groups'',
      ''tx_decision'', ''timestamp'']"
  by (simp add: entry_fields_def fold_char_def)

lemma entry_field: "(nm, z, v) \<in> set (entry_fields e) \<Longrightarrow> jfield nm (struct_obj (entry_fields e)) = (if z then JNull else v)"
  by (rule jfield_struct_obj) (simp_all add: entry_names)

lemma entry_plain: "(nm, False, v) \<in> set (entry_fields e) \<Longrightarrow> jfield nm (struct_obj (entry_fields e)) = v"
  using entry_field by fastforce

lemma entry_fields_found:
  "jfield ''raft_index'' (struct_obj (entry_fields e)) = enc_int64 (weRaftIndex e)"
  "jfield ''term'' (struct_obj (entry_fields e)) = enc_int64 (weTerm e)"
  "jfield ''node_id'' (struct_obj (entry_fields e)) = enc_int64 (weNodeID e)"
  "jfield ''req_id'' (struct_obj (entry_fields e)) = enc_int64 (weReqID e)"
  "jfield ''op_type'' (struct_obj (entry_fields e)) = JStr (weOpType e)"
  "jfield ''timestamp'' (struct_obj (entry_fields e)) = enc_int64 (weTimestamp e)"
  by (rule entry_plain; simp add: entry_fields_def)+

text \<open>An absent field decodes to its zero, so leaving out a zero changes nothing.\<close>

lemma dec_str_entry: "(nm, v = [], JStr v) \<in> set (entry_fields e) \<Longrightarrow> dec_str (jfield nm (struct_obj (entry_fields e))) = Some v"
  by (drule entry_field) (simp add: codec_simps)

lemma dec_int64_entry: "(nm, v = 0, enc_int64 v) \<in> set (entry_fields e) \<Longrightarrow> dec_int64 (jfield nm (struct_obj (entry_fields e))) = Some v"
  by (drule entry_field) (simp add: codec_simps)

lemma dec_int32_entry: "(nm, v = 0, enc_int32 v) \<in> set (entry_fields e) \<Longrightarrow> dec_int32 (jfield nm (struct_obj (entry_fields e))) = Some v"
  by (drule entry_field) (simp add: codec_simps)

lemma dec_strs_entry: "(nm, v = [], JArr (map JStr v)) \<in> set (entry_fields e) \<Longrightarrow> dec_list dec_str (jfield nm (struct_obj (entry_fields e))) = Some v"
  by (drule entry_field) (simp add: codec_simps)

lemma dec_ints_entry: "(nm, v = [], JArr (map enc_int64 v)) \<in> set (entry_fields e) \<Longrightarrow> dec_list dec_int64 (jfield nm (struct_obj (entry_fields e))) = Some v"
  by (drule entry_field) (simp add: codec_simps)

lemma dec_bools_entry: "(nm, v = [], JArr (map JBool v)) \<in> set (entry_fields e) \<Longrightarrow> dec_list dec_bool (jfield nm (struct_obj (entry_fields e))) = Some v"
  by (drule entry_field) (simp add: codec_simps)

lemma entry_decodes:
  "dec_str (jfield ''key'' (struct_obj (entry_fields e))) = Some (weKey e)"
  "dec_str (jfield ''value'' (struct_obj (entry_fields e))) = Some (weValue e)"
  "dec_int64 (jfield ''version'' (struct_obj (entry_fields e))) = Some (weVersion e)"
  "dec_int64 (jfield ''ttl'' (struct_obj (entry_fields e))) = Some (weTTL e)"
  "dec_list dec_str (jfield ''keys'' (struct_obj (entry_fields e))) = Some (weKeys e)"
  "dec_list dec_int64 (jfield ''versions'' (struct_obj (entry_fields e))) = Some (weVersions e)"
  "dec_int64 (jfield ''shard_id'' (struct_obj (entry_fields e))) = Some (weShardID e)"
  "dec_int32 (jfield ''shard_state'' (struct_obj (entry_fields e))) = Some (weShardState e)"
  "dec_int64 (jfield ''target_group'' (struct_obj (entry_fields e))) = Some (weTargetGroup e)"
  "dec_int64 (jfield ''epoch'' (struct_obj (entry_fields e))) = Some (weEpoch e)"
  "dec_list dec_str (jfield ''replicas'' (struct_obj (entry_fields e))) = Some (weReplicas e)"
  "dec_int64 (jfield ''cutoff'' (struct_obj (entry_fields e))) = Some (weCutoff e)"
  by (rule dec_str_entry dec_int64_entry dec_int32_entry dec_strs_entry dec_ints_entry dec_bools_entry;
      simp add: entry_fields_def)+

lemma entry_decodes_tx:
  "dec_list dec_str (jfield ''tx_read_keys'' (struct_obj (entry_fields e))) = Some (weTxReadKeys e)"
  "dec_list dec_int64 (jfield ''tx_read_versions'' (struct_obj (entry_fields e))) = Some (weTxReadVersions e)"
  "dec_list dec_str (jfield ''tx_write_keys'' (struct_obj (entry_fields e))) = Some (weTxWriteKeys e)"
  "dec_list dec_str (jfield ''tx_write_values'' (struct_obj (entry_fields e))) = Some (weTxWriteValues e)"
  "dec_list dec_int64 (jfield ''tx_write_versions'' (struct_obj (entry_fields e))) = Some (weTxWriteVersions e)"
  "dec_list dec_bool (jfield ''tx_write_deletes'' (struct_obj (entry_fields e))) = Some (weTxWriteDeletes e)"
  "dec_int64 (jfield ''tx_timeout_ms'' (struct_obj (entry_fields e))) = Some (weTxTimeoutMs e)"
  "dec_int64 (jfield ''tx_coordinator_group'' (struct_obj (entry_fields e))) = Some (weTxCoordinatorGroup e)"
  "dec_list dec_int64 (jfield ''tx_participant_groups'' (struct_obj (entry_fields e))) = Some (weTxParticipantGroups e)"
  "dec_int64 (jfield ''tx_decision'' (struct_obj (entry_fields e))) = Some (weTxDecision e)"
  by (rule dec_str_entry dec_int64_entry dec_int32_entry dec_strs_entry dec_ints_entry dec_bools_entry;
      simp add: entry_fields_def)+

interpretation Entry_codec: json_codec marshal_Entry unmarshal_Entry
  by unfold_locales
     (simp add: marshal_Entry_def unmarshal_Entry_def entry_fields_found entry_decodes entry_decodes_tx codec_simps)

section \<open>The file\<close>

datatype line = Blank | Doc json

record wal_file =
  wfLines :: "line list"
  wfTail :: line

definition empty_wal :: wal_file where
  "empty_wal = \<lparr> wfLines = [], wfTail = Blank \<rparr>"

text \<open>
  A line written after a text without newline continues that text. The entries written are
  JSON objects, and no object continues a whole or a broken object to something that is JSON.
\<close>

definition append_line :: "wal_file \<Rightarrow> json \<Rightarrow> wal_file" where
  "append_line f d =
     (case wfTail f of
        Blank \<Rightarrow> f\<lparr> wfLines := wfLines f @ [Doc d] \<rparr>
      | Doc _ \<Rightarrow> f\<lparr> wfLines := wfLines f @ [Doc (JBad [])], wfTail := Blank \<rparr>)"

text \<open>
  What \<open>file.Write\<close> and \<open>file.Sync\<close> did with a payload of lines: all of it, all of it with an
  error of \<open>Sync\<close>, or a short write that stopped after \<open>n\<close> whole lines, in the middle of the
  next one, or between its text and its newline.
\<close>

datatype torn = NoText | HalfText | WholeText

datatype write_outcome = Written | SyncFailed | ShortWrite nat torn

definition write_tail :: "wal_file \<Rightarrow> torn \<Rightarrow> json \<Rightarrow> wal_file" where
  "write_tail f t d =
     (case t of
        NoText \<Rightarrow> f
      | HalfText \<Rightarrow> f\<lparr> wfTail := Doc (JBad []) \<rparr>
      | WholeText \<Rightarrow> f\<lparr> wfTail := (case wfTail f of Blank \<Rightarrow> Doc d | Doc _ \<Rightarrow> Doc (JBad [])) \<rparr>)"

text \<open>The file after the write and whether \<open>writeAndSync\<close> returned no error.\<close>

definition writeAndSync :: "write_outcome \<Rightarrow> wal_file \<Rightarrow> json list \<Rightarrow> bool \<Rightarrow> wal_file \<times> bool" where
  "writeAndSync w f payload syncOnWrite =
     (if payload = [] then (f, True)
      else case w of
             Written \<Rightarrow> (fold (\<lambda>d f. append_line f d) payload f, True)
           | SyncFailed \<Rightarrow> (fold (\<lambda>d f. append_line f d) payload f, \<not> syncOnWrite)
           | ShortWrite n t \<Rightarrow>
               let f' = fold (\<lambda>d f. append_line f d) (take n payload) f
               in (if n < length payload then write_tail f' t (payload ! n) else f', False))"

text \<open>
  The loop of \<open>replayFile\<close>: the handler threads a state and may return an error. A text that
  does not decode is an error in a complete line and the end of the log without a newline.
\<close>

datatype 'e wal_err = NotOpened | ReadFailed | DecodeFailed | HandlerFailed 'e

fun replay_lines ::
  "(Entry \<Rightarrow> 's \<Rightarrow> 's \<times> 'e option) \<Rightarrow> line list \<Rightarrow> line \<Rightarrow> 's \<Rightarrow> 's \<times> 'e wal_err option" where
  "replay_lines h [] Blank s = (s, None)"
| "replay_lines h [] (Doc d) s =
     (case unmarshal_Entry d of
        None \<Rightarrow> (s, None)
      | Some e \<Rightarrow> (case h e s of (s', None) \<Rightarrow> (s', None) | (s', Some x) \<Rightarrow> (s', Some (HandlerFailed x))))"
| "replay_lines h (Blank # ls) rest s = replay_lines h ls rest s"
| "replay_lines h (Doc d # ls) rest s =
     (case unmarshal_Entry d of
        None \<Rightarrow> (s, Some DecodeFailed)
      | Some e \<Rightarrow>
          (case h e s of
             (s', None) \<Rightarrow> replay_lines h ls rest s'
           | (s', Some x) \<Rightarrow> (s', Some (HandlerFailed x))))"

text \<open>A read error after \<open>n\<close> lines is \<open>Some n\<close>; \<open>opened\<close> is the outcome of \<open>os.Open\<close>.\<close>

definition replayFile ::
  "bool \<Rightarrow> nat option \<Rightarrow> (Entry \<Rightarrow> 's \<Rightarrow> 's \<times> 'e option) \<Rightarrow> wal_file \<Rightarrow> 's \<Rightarrow> 's \<times> 'e wal_err option" where
  "replayFile opened rd h f s =
     (if \<not> opened then (s, Some NotOpened)
      else case rd of
             None \<Rightarrow> replay_lines h (wfLines f) (wfTail f) s
           | Some n \<Rightarrow>
               (case replay_lines h (take n (wfLines f)) Blank s of
                  (s', None) \<Rightarrow> (s', Some ReadFailed)
                | (s', Some x) \<Rightarrow> (s', Some x)))"

text \<open>
  The loop of \<open>rewriteWALAfterTruncate\<close>: the texts kept, \<open>None\<close> when a complete line does not
  decode.
\<close>

fun keep_lines :: "int64 \<Rightarrow> line list \<Rightarrow> line \<Rightarrow> json list option" where
  "keep_lines n [] Blank = Some []"
| "keep_lines n [] (Doc d) =
     (case unmarshal_Entry d of
        None \<Rightarrow> Some []
      | Some e \<Rightarrow> Some (if sint (weRaftIndex e) > sint n then [d] else []))"
| "keep_lines n (Blank # ls) rest = keep_lines n ls rest"
| "keep_lines n (Doc d # ls) rest =
     (case unmarshal_Entry d of
        None \<Rightarrow> None
      | Some e \<Rightarrow>
          (case keep_lines n ls rest of
             None \<Rightarrow> None
           | Some ds \<Rightarrow> Some (if sint (weRaftIndex e) > sint n then d # ds else ds)))"

text \<open>Whether each of the calls on the two files succeeded.\<close>

record rewrite_io =
  rw_open_ok :: bool
  rw_tmp_ok :: bool
  rw_read_ok :: bool
  rw_write_ok :: bool
  rw_sync_ok :: bool
  rw_close_ok :: bool
  rw_rename_ok :: bool

definition rewriteWALAfterTruncate :: "rewrite_io \<Rightarrow> wal_file \<Rightarrow> int64 \<Rightarrow> wal_file \<times> bool" where
  "rewriteWALAfterTruncate io f upToIndex =
     (if \<not> rw_open_ok io \<or> \<not> rw_tmp_ok io \<or> \<not> rw_read_ok io then (f, False)
      else case keep_lines upToIndex (wfLines f) (wfTail f) of
             None \<Rightarrow> (f, False)
           | Some ds \<Rightarrow>
               if \<not> rw_write_ok io \<or> \<not> rw_sync_ok io \<or> \<not> rw_close_ok io \<or> \<not> rw_rename_ok io then (f, False)
               else (\<lparr> wfLines = map Doc ds, wfTail = Blank \<rparr>, True))"

section \<open>The logger\<close>

text \<open>A request, with the number of the caller that waits for it (none for \<open>AppendAsync\<close>).\<close>

record WALRequest =
  wrData :: json
  wrDone :: "nat option"

text \<open>
  \<open>lFile\<close> says whether \<open>l.file\<close> is open, \<open>lFatal\<close> whether \<open>fatalErr\<close> is set; \<open>lBatch\<close> and
  \<open>lWorkerErr\<close> are local variables of the running worker, and \<open>lAnswers\<close> what it has answered
  to the callers that wait. \<open>lDisk\<close> is the file.
\<close>

record Logger =
  lEnabled :: bool
  lSyncOnWrite :: bool
  lFile :: bool
  lReqCh :: "WALRequest list"
  lBatch :: "WALRequest list"
  lWorkerErr :: bool
  lWorkerAlive :: bool
  lClosing :: bool
  lFatal :: bool
  lReplayDone :: bool
  lAnswers :: "(nat \<times> bool) list"
  lDisk :: wal_file

definition startWorkerLocked :: "Logger \<Rightarrow> Logger \<times> bool" where
  "startWorkerLocked l =
     (if \<not> lEnabled l then (l, True)
      else if \<not> lFile l then (l, False)
      else if lWorkerAlive l then (l, True)
      else (l\<lparr> lReqCh := [], lBatch := [], lWorkerErr := False, lWorkerAlive := True \<rparr>, True))"

definition NewLogger :: "bool \<Rightarrow> bool \<Rightarrow> wal_file \<Rightarrow> bool \<Rightarrow> bool \<Rightarrow> Logger option" where
  "NewLogger mkdir_ok open_ok disk enabled syncOnWrite =
     (let l = \<lparr> lEnabled = enabled, lSyncOnWrite = syncOnWrite, lFile = False, lReqCh = [], lBatch = [],
                lWorkerErr = False, lWorkerAlive = False, lClosing = False, lFatal = False,
                lReplayDone = False, lAnswers = [], lDisk = disk \<rparr>
      in if \<not> enabled then Some l
         else if \<not> mkdir_ok then None
         else if \<not> open_ok then None
         else Some (fst (startWorkerLocked (l\<lparr> lFile := True \<rparr>))))"

definition setFatalErr :: "Logger \<Rightarrow> Logger" where
  "setFatalErr l = l\<lparr> lFatal := True, lFile := False \<rparr>"

definition answer :: "bool \<Rightarrow> WALRequest list \<Rightarrow> (nat \<times> bool) list" where
  "answer ok rs = List.map_filter (\<lambda>r. map_option (\<lambda>i. (i, ok)) (wrDone r)) rs"

text \<open>The closure \<open>flush\<close> of the worker.\<close>

definition worker_flush :: "write_outcome \<Rightarrow> Logger \<Rightarrow> Logger" where
  "worker_flush w l =
     (if lBatch l = [] then l
      else if lWorkerErr l then l\<lparr> lAnswers := lAnswers l @ answer False (lBatch l), lBatch := [] \<rparr>
      else case writeAndSync w (lDisk l) (map wrData (lBatch l)) (lSyncOnWrite l) of
             (f, ok) \<Rightarrow>
               (let l1 = l\<lparr> lDisk := f \<rparr>;
                    l2 = (if ok then l1 else (setFatalErr l1)\<lparr> lWorkerErr := True \<rparr>)
                in l2\<lparr> lAnswers := lAnswers l @ answer ok (lBatch l), lBatch := [] \<rparr>))"

text \<open>One receive of the worker; the outcome is that of the flush a full batch causes.\<close>

definition worker_recv :: "write_outcome \<Rightarrow> Logger \<Rightarrow> Logger option" where
  "worker_recv w l =
     (case lReqCh l of
        [] \<Rightarrow> None
      | r # rs \<Rightarrow>
          if \<not> lWorkerAlive l then None
          else if lWorkerErr l then Some (l\<lparr> lReqCh := rs, lAnswers := lAnswers l @ answer False [r] \<rparr>)
          else let l1 = l\<lparr> lReqCh := rs, lBatch := lBatch l @ [r] \<rparr>
               in Some (if length (lBatch l1) \<ge> 256 then worker_flush w l1 else l1))"

text \<open>
  The worker that sees \<open>stopCh\<close> flushes its batch and returns: what is left in the channel is
  dropped with it. The flag is whether no error was set.
\<close>

definition stopWorkerLocked :: "write_outcome \<Rightarrow> Logger \<Rightarrow> Logger \<times> bool" where
  "stopWorkerLocked w l =
     (if \<not> lWorkerAlive l then (l, True)
      else let l1 = worker_flush w l
           in (l1\<lparr> lReqCh := [], lWorkerAlive := False \<rparr>, \<not> lFatal l1))"

datatype append_result = Queued | NotEnabled | ReplayFirst | Unavailable | LoggerClosed | QueueFull

text \<open>The part of \<open>Append\<close> and \<open>AppendAsync\<close> up to the channel.\<close>

definition append_check :: "Logger \<Rightarrow> append_result" where
  "append_check l =
     (if \<not> lEnabled l then NotEnabled
      else if \<not> lReplayDone l then ReplayFirst
      else if \<not> lFile l then Unavailable
      else if lClosing l \<or> \<not> lWorkerAlive l then LoggerClosed
      else if lFatal l then Unavailable
      else Queued)"

definition stamp :: "int64 \<Rightarrow> Entry \<Rightarrow> Entry" where
  "stamp now e = (if weTimestamp e = 0 then e\<lparr> weTimestamp := now \<rparr> else e)"

definition AppendAsync :: "int64 \<Rightarrow> Logger \<Rightarrow> Entry \<Rightarrow> Logger \<times> append_result" where
  "AppendAsync now l e =
     (if append_check l \<noteq> Queued then (l, append_check l)
      else if length (lReqCh l) \<ge> 4096 then (l, QueueFull)
      else (l\<lparr> lReqCh := lReqCh l @ [\<lparr> wrData = marshal_Entry (stamp now e), wrDone = None \<rparr>] \<rparr>, Queued))"

text \<open>
  \<open>Append\<close> up to the wait for its answer, under the number \<open>i\<close>; it blocks (\<open>None\<close>) while the
  channel is full.
\<close>

definition wal_Append :: "int64 \<Rightarrow> nat \<Rightarrow> Logger \<Rightarrow> Entry \<Rightarrow> (Logger \<times> append_result) option" where
  "wal_Append now i l e =
     (if append_check l \<noteq> Queued then Some (l, append_check l)
      else if length (lReqCh l) \<ge> 4096 then None
      else Some (l\<lparr> lReqCh := lReqCh l @ [\<lparr> wrData = marshal_Entry (stamp now e), wrDone = Some i \<rparr>] \<rparr>, Queued))"

definition restartWorkerAfterMaintenance :: "bool \<Rightarrow> Logger \<Rightarrow> Logger \<times> bool" where
  "restartWorkerAfterMaintenance open_ok l =
     (if \<not> open_ok then (l\<lparr> lFatal := True \<rparr>, False)
      else startWorkerLocked (l\<lparr> lFile := True, lFatal := False \<rparr>))"

text \<open>The outcomes of the calls of \<open>Replay\<close>.\<close>

record replay_io =
  rp_stop :: write_outcome
  rp_sync_ok :: bool
  rp_open_ok :: bool
  rp_read :: "nat option"
  rp_reopen_ok :: bool

datatype 'e replay_result = ReplayOK | ReplayUnavailable | ReplayFailed "'e wal_err"

definition Replay ::
  "replay_io \<Rightarrow> (Entry \<Rightarrow> 's \<Rightarrow> 's \<times> 'e option) \<Rightarrow> Logger \<Rightarrow> 's \<Rightarrow> Logger \<times> 's \<times> 'e replay_result" where
  "Replay io h l s =
     (if \<not> lEnabled l then (l, s, ReplayOK)
      else if lClosing l \<or> lFatal l then (l, s, ReplayUnavailable)
      else case stopWorkerLocked (rp_stop io) l of
             (l1, ok) \<Rightarrow>
               if \<not> ok \<or> \<not> lFile l1 \<or> \<not> rp_sync_ok io then (l1, s, ReplayUnavailable)
               else (case replayFile (rp_open_ok io) (rp_read io) h (lDisk l1) s of
                       (s', Some e) \<Rightarrow> (fst (restartWorkerAfterMaintenance (rp_reopen_ok io) l1), s', ReplayFailed e)
                     | (s', None) \<Rightarrow>
                         (case startWorkerLocked (l1\<lparr> lReplayDone := True \<rparr>) of
                            (l2, ok2) \<Rightarrow> (l2, s', if ok2 then ReplayOK else ReplayUnavailable))))"

record truncate_io =
  tr_stop :: write_outcome
  tr_sync_ok :: bool
  tr_close_ok :: bool
  tr_rewrite :: rewrite_io
  tr_reopen_ok :: bool

definition TruncateUpTo :: "truncate_io \<Rightarrow> Logger \<Rightarrow> int64 \<Rightarrow> Logger \<times> bool" where
  "TruncateUpTo io l upToIndex =
     (if \<not> lEnabled l then (l, True)
      else case stopWorkerLocked (tr_stop io) l of
             (l1, ok) \<Rightarrow>
               if \<not> ok \<or> \<not> lFile l1 \<or> \<not> tr_sync_ok io \<or> \<not> tr_close_ok io then (l1, False)
               else (case rewriteWALAfterTruncate (tr_rewrite io) (lDisk l1) upToIndex of
                       (f, opOk) \<Rightarrow>
                         (case restartWorkerAfterMaintenance (tr_reopen_ok io) (l1\<lparr> lFile := False, lDisk := f \<rparr>) of
                            (l2, restartOk) \<Rightarrow> (l2, opOk \<and> restartOk))))"

definition wal_Close :: "write_outcome \<Rightarrow> bool \<Rightarrow> Logger \<Rightarrow> Logger \<times> bool" where
  "wal_Close w close_ok l =
     (if \<not> lEnabled l then (l, True)
      else case stopWorkerLocked w (l\<lparr> lClosing := True \<rparr>) of
             (l1, ok) \<Rightarrow>
               if \<not> ok then (l1, False)
               else if \<not> lFile l1 then (l1, True)
               else (l1\<lparr> lFile := False \<rparr>, close_ok))"

section \<open>Lemmas\<close>

text \<open>The entries of a log: those of the complete lines, and one whose newline is missing.\<close>

definition line_entries :: "line \<Rightarrow> Entry list" where
  "line_entries ln = (case ln of Blank \<Rightarrow> [] | Doc d \<Rightarrow> (case unmarshal_Entry d of None \<Rightarrow> [] | Some e \<Rightarrow> [e]))"

definition wal_entries :: "wal_file \<Rightarrow> Entry list" where
  "wal_entries f = concat (map line_entries (wfLines f)) @ line_entries (wfTail f)"

text \<open>Every complete line is blank or an entry.\<close>

definition lines_decode :: "wal_file \<Rightarrow> bool" where
  "lines_decode f \<longleftrightarrow> (\<forall>ln \<in> set (wfLines f). case ln of Blank \<Rightarrow> True | Doc d \<Rightarrow> unmarshal_Entry d \<noteq> None)"

fun run_handler :: "(Entry \<Rightarrow> 's \<Rightarrow> 's \<times> 'e option) \<Rightarrow> Entry list \<Rightarrow> 's \<Rightarrow> 's \<times> 'e option" where
  "run_handler h [] s = (s, None)"
| "run_handler h (e # es) s = (case h e s of (s', None) \<Rightarrow> run_handler h es s' | (s', Some x) \<Rightarrow> (s', Some x))"

lemma replay_lines_run:
  assumes "\<forall>ln \<in> set ls. case ln of Blank \<Rightarrow> True | Doc d \<Rightarrow> unmarshal_Entry d \<noteq> None"
  shows "replay_lines h ls t s =
    (case run_handler h (concat (map line_entries ls) @ line_entries t) s of
       (s', None) \<Rightarrow> (s', None) | (s', Some x) \<Rightarrow> (s', Some (HandlerFailed x)))"
  using assms
  by (induction h ls t s rule: replay_lines.induct)
     (auto simp: line_entries_def split: option.splits prod.splits)

lemma replay_entries:
  assumes "lines_decode f"
  shows "replayFile True None h f s =
    (case run_handler h (wal_entries f) s of
       (s', None) \<Rightarrow> (s', None) | (s', Some x) \<Rightarrow> (s', Some (HandlerFailed x)))"
  using replay_lines_run assms by (simp add: replayFile_def wal_entries_def lines_decode_def)

lemma append_lines_clean:
  assumes "wfTail f = Blank"
  shows "wfTail (fold (\<lambda>d f. append_line f d) ds f) = Blank"
    and "wfLines (fold (\<lambda>d f. append_line f d) ds f) = wfLines f @ map Doc ds"
  using assms by (induction ds arbitrary: f) (auto simp: append_line_def)

lemma keep_lines_filter:
  assumes "\<forall>ln \<in> set ls. case ln of Blank \<Rightarrow> True | Doc d \<Rightarrow> unmarshal_Entry d \<noteq> None"
  shows "\<exists>ds. keep_lines n ls t = Some ds \<and> (\<forall>d \<in> set ds. unmarshal_Entry d \<noteq> None)
    \<and> concat (map (line_entries \<circ> Doc) ds)
        = filter (\<lambda>e. sint (weRaftIndex e) > sint n) (concat (map line_entries ls) @ line_entries t)"
  using assms
  by (induction n ls t rule: keep_lines.induct)
     (auto simp: line_entries_def split: option.splits)

end
