(* ===== verification/Rsm.thy ===== *)
theory Rsm
  imports Kv_Server Wal Go_Strings
begin

text \<open>
  The replicated state machine (\<^verbatim>\<open>src/pkg/kv/consensus.go\<close>): how a request becomes a command of
  the Raft log and its caller gets the answer, how commands and snapshots that Raft delivers
  are applied, the entries of the write-ahead log and recovery from it. The state machine is a
  parameter, instantiated with the key-value server; the results of the calls to Raft are
  parameters, and the calls that change Raft are returned as values, like the goroutines that
  are started. A call that panics or waits for ever has no result.
\<close>

section \<open>Types\<close>

record Op =
  opMe :: goint
  opId :: int64
  opReq :: Request

definition opEquals :: "Op \<Rightarrow> Op \<Rightarrow> bool" where
  "opEquals a b \<longleftrightarrow> opMe a = opMe b \<and> opId a = opId b"

text \<open>
  The interface \<open>StateMachine\<close>. An operation reads the clock up to two times; a snapshot is
  \<open>None\<close> for the nil slice.
\<close>

record ('s, 'd) StateMachine =
  smDoOp :: "int64 \<times> int64 \<Rightarrow> 's \<Rightarrow> Request \<Rightarrow> ('s \<times> Reply) option"
  smSnapshot :: "'s \<Rightarrow> 'd option"
  smRestore :: "'s \<Rightarrow> 'd option \<Rightarrow> 's option"

definition kv_machine :: "('db, 'txn) badger \<Rightarrow> node_env \<Rightarrow> ('db KVServer, raw) StateMachine" where
  "kv_machine B E =
     \<lparr> smDoOp = (\<lambda>(now, now') kv req. DoOp B E now now' kv req), smSnapshot = kv_Snapshot B,
       smRestore = (\<lambda>kv d. case kv_Restore B E kv d of Restored kv' \<Rightarrow> Some kv' | _ \<Rightarrow> None) \<rparr>"

text \<open>The channel \<open>done\<close> holds at most one value.\<close>

record waitingOp =
  woOper :: Op
  woResult :: "Reply option"
  woDone :: "bool list"

text \<open>
  The pointers of \<open>waitingOps\<close> are positions in \<open>rsOps\<close>, the operations allocated so far:
  a caller keeps its pointer when the table no longer has it. Times are nanoseconds.
\<close>

record 's RSM =
  rsMe :: goint
  rsMaxraftstate :: goint
  rsSm :: 's
  rsIdCounter :: int64
  rsWaitingOps :: "goint \<rightharpoonup> nat"
  rsOps :: "waitingOp list"
  rsShutdown :: bool
  rsWatchMgr :: Manager
  rsListener :: bool
  rsWal :: "Logger option"
  rsLeaseRead :: bool
  rsWalGCInFly :: bool
  rsLastSnapIndex :: goint
  rsLastApplied :: goint
  rsLastSnapAt :: int
  rsSnapMinDelta :: goint
  rsSnapMinGap :: int
  rsBlockedNanos :: int64
  rsProcessNanos :: int64
  rsIterCount :: int64

text \<open>
  The payload of a snapshot, written with \<open>gob\<close>: the counter and the snapshot of the state
  machine.
\<close>

datatype 'd payload = NoPayload | BadPayload | Payload int64 "'d option"

text \<open>The calls that change Raft, and the goroutines that are started.\<close>

datatype 'd effect =
    RaftKill
  | RaftSnapshot goint "'d payload"
  | RaftSyncApplied goint
  | GoListener Request Reply int64
  | GoSnapshot goint
  | GoTruncate goint

section \<open>Environment variables\<close>

definition boolEnvDefault :: "string \<Rightarrow> bool \<Rightarrow> bool" where
  "boolEnvDefault env def =
     (let v = trim_space (to_lower env)
      in if v = [] then def
         else if v \<in> {''1'', ''true'', ''yes'', ''on''} then True
         else if v \<in> {''0'', ''false'', ''no'', ''off''} then False
         else def)"

definition leaseReadEnabledFromEnv :: "string \<Rightarrow> bool" where
  "leaseReadEnabledFromEnv env =
     (let v = trim_space (to_lower env)
      in if v = [] then True
         else if v \<in> {''1'', ''true'', ''yes'', ''on''} then True
         else if v \<in> {''0'', ''false'', ''no'', ''off''} then False
         else True)"

section \<open>Entries of the write-ahead log\<close>

definition walEntryFromOp :: "goint \<Rightarrow> goint \<Rightarrow> goint \<Rightarrow> int64 \<Rightarrow> Op \<Rightarrow> Entry" where
  "walEntryFromOp me commandIndex trm now oper =
     (let entry =
        \<lparr> weRaftIndex = commandIndex, weTerm = trm, weNodeID = me, weReqID = opId oper, weOpType = [],
          weKey = [], weValue = [], weVersion = 0, weTTL = 0, weKeys = [], weVersions = [], weShardID = 0,
          weShardState = 0, weTargetGroup = 0, weEpoch = 0, weReplicas = [], weCutoff = 0,
          weTxReadKeys = [], weTxReadVersions = [], weTxWriteKeys = [], weTxWriteValues = [],
          weTxWriteVersions = [], weTxWriteDeletes = [], weTxTimeoutMs = 0, weTxCoordinatorGroup = 0,
          weTxParticipantGroups = [], weTxDecision = 0, weTimestamp = now \<rparr>
      in case opReq oper of
           ReqGet t \<Rightarrow> entry\<lparr> weOpType := ''GET'', weKey := gKey t \<rparr>
         | ReqScan t \<Rightarrow> entry\<lparr> weOpType := ''SCAN'' \<rparr>
         | ReqPut t \<Rightarrow> entry\<lparr> weOpType := ''PUT'', weKey := pKey t, weValue := pValue t,
                            weVersion := pVersion t, weTTL := pTTL t \<rparr>
         | ReqDelete t \<Rightarrow> entry\<lparr> weOpType := ''DELETE'', weKey := dKey t \<rparr>
         | ReqExpire t \<Rightarrow> entry\<lparr> weOpType := ''EXPIRE'', weKeys := eaKeys t, weCutoff := eaCutoff t \<rparr>
         | ReqCleanupShard t \<Rightarrow> entry\<lparr> weOpType := ''CLEANUP_SHARD'', weVersion := csShardID t,
                            weKeys := map ckKey (csKeys t), weVersions := map ckExpectedVersion (csKeys t) \<rparr>
         | ReqSetShardState t \<Rightarrow> entry\<lparr> weOpType := ''SET_SHARD_STATE'', weShardID := ssaShardID t,
                            weShardState := ssaState t, weTargetGroup := ssaTargetGroup t,
                            weEpoch := ssaTopologyEpoch t, weReplicas := ssaTargetReplicas t \<rparr>
         | ReqPrepareTx t \<Rightarrow> entry\<lparr> weOpType := ''PREPARE_TX'', weKey := paTxID t,
                            weTxReadKeys := map rkKey (paReadKeys t),
                            weTxReadVersions := map rkExpectedVersion (paReadKeys t),
                            weTxWriteKeys := map wkKey (paWriteKeys t),
                            weTxWriteValues := map wkValue (paWriteKeys t),
                            weTxWriteVersions := map wkVersion (paWriteKeys t),
                            weTxWriteDeletes := map wkIsDelete (paWriteKeys t),
                            weTxTimeoutMs := paTimeoutMs t, weTxCoordinatorGroup := paCoordinatorGroupID t,
                            weTxParticipantGroups := paParticipantGroupIDs t \<rparr>
         | ReqCommitTx t \<Rightarrow> entry\<lparr> weOpType := ''COMMIT_TX'', weKey := caTxID t,
                            weTxWriteKeys := map wkKey (caWriteKeys t),
                            weTxWriteValues := map wkValue (caWriteKeys t),
                            weTxWriteVersions := map wkVersion (caWriteKeys t),
                            weTxWriteDeletes := map wkIsDelete (caWriteKeys t) \<rparr>
         | ReqAbortTx t \<Rightarrow> entry\<lparr> weOpType := ''ABORT_TX'', weKey := t \<rparr>
         | ReqResolveTxStatus t \<Rightarrow> entry\<lparr> weOpType := ''RESOLVE_TX_STATUS'', weKey := t \<rparr>
         | ReqRecordTxDecision t \<Rightarrow> entry\<lparr> weOpType := ''RECORD_TX_DECISION'', weKey := raTxID t,
                            weTxDecision := raDecision t, weTxParticipantGroups := raParticipantGroupIDs t \<rparr>
         | ReqUnknown ty \<Rightarrow> entry\<lparr> weOpType := ty \<rparr>)"

text \<open>The write keys of an entry, whose lists have the same length.\<close>

definition entry_writes :: "Entry \<Rightarrow> WriteKey list" where
  "entry_writes e =
     map (\<lambda>(k, v, n, d). \<lparr> wkKey = k, wkValue = v, wkVersion = n, wkIsDelete = d \<rparr>)
       (zip (weTxWriteKeys e) (zip (weTxWriteValues e) (zip (weTxWriteVersions e) (weTxWriteDeletes e))))"

definition writes_match :: "Entry \<Rightarrow> bool" where
  "writes_match e \<longleftrightarrow> length (weTxWriteKeys e) = length (weTxWriteValues e) \<and>
     length (weTxWriteKeys e) = length (weTxWriteVersions e) \<and>
     length (weTxWriteKeys e) = length (weTxWriteDeletes e)"

text \<open>
  The request of an entry and whether it is executed again: no result is the error, no request
  is \<open>nil\<close>.
\<close>

definition walEntryToRequest :: "Entry \<Rightarrow> (Request option \<times> bool) option" where
  "walEntryToRequest e =
     (let opType = to_upper (trim_space (weOpType e))
      in if opType = ''GET'' then Some (None, False)
         else if opType = ''SCAN'' then Some (None, False)
         else if opType = ''PUT''
         then Some (Some (ReqPut \<lparr> pKey = weKey e, pValue = weValue e, pVersion = weVersion e, pTTL = weTTL e \<rparr>), True)
         else if opType = ''DELETE'' then Some (Some (ReqDelete \<lparr> dKey = weKey e \<rparr>), True)
         else if opType = ''EXPIRE'' then Some (Some (ReqExpire \<lparr> eaKeys = weKeys e, eaCutoff = weCutoff e \<rparr>), True)
         else if opType = ''CLEANUP_SHARD''
         then (if length (weKeys e) \<noteq> length (weVersions e) then None
               else Some (Some (ReqCleanupShard
                      \<lparr> csShardID = weVersion e,
                        csKeys = map (\<lambda>(k, v). \<lparr> ckKey = k, ckExpectedVersion = v \<rparr>) (zip (weKeys e) (weVersions e)) \<rparr>), True))
         else if opType = ''SET_SHARD_STATE''
         then Some (Some (ReqSetShardState \<lparr> ssaShardID = weShardID e, ssaState = weShardState e,
                ssaTargetGroup = weTargetGroup e, ssaTopologyEpoch = weEpoch e, ssaTargetReplicas = weReplicas e \<rparr>), True)
         else if opType = ''PREPARE_TX''
         then (if length (weTxReadKeys e) \<noteq> length (weTxReadVersions e) \<or> \<not> writes_match e then None
               else Some (Some (ReqPrepareTx
                      \<lparr> paTxID = weKey e,
                        paReadKeys = map (\<lambda>(k, v). \<lparr> rkKey = k, rkValue = [], rkExpectedVersion = v \<rparr>)
                                       (zip (weTxReadKeys e) (weTxReadVersions e)),
                        paWriteKeys = entry_writes e, paTimeoutMs = weTxTimeoutMs e,
                        paCoordinatorGroupID = weTxCoordinatorGroup e,
                        paParticipantGroupIDs = weTxParticipantGroups e \<rparr>), True))
         else if opType = ''COMMIT_TX''
         then (if \<not> writes_match e then None
               else Some (Some (ReqCommitTx \<lparr> caTxID = weKey e, caWriteKeys = entry_writes e \<rparr>), True))
         else if opType = ''ABORT_TX'' then Some (Some (ReqAbortTx (weKey e)), True)
         else if opType = ''RECORD_TX_DECISION''
         then Some (Some (ReqRecordTxDecision \<lparr> raTxID = weKey e, raDecision = weTxDecision e,
                raParticipantGroupIDs = weTxParticipantGroups e, raWriteKeys = [] \<rparr>), True)
         else if opType = ''RESOLVE_TX_STATUS'' then Some (Some (ReqResolveTxStatus (weKey e)), False)
         else if str_contains (weOpType e) ''GetArgs'' \<or> str_contains (weOpType e) ''ScanArgs'' then Some (None, False)
         else None)"

section \<open>Recovery\<close>

text \<open>
  The handler that \<open>recoverFromWAL\<close> gives to \<open>Replay\<close>, on the state machine and
  \<open>recoveredIndex\<close>. \<open>clk\<close> gives the clock readings of the operation at an index. A handler
  that waits for ever leaves no state, and no later entry is read.
\<close>

definition recover_entry ::
  "('s, 'd) StateMachine \<Rightarrow> (goint \<Rightarrow> int64 \<times> int64) \<Rightarrow> goint \<Rightarrow> Entry \<Rightarrow> ('s \<times> goint) option
   \<Rightarrow> ('s \<times> goint) option \<times> unit option" where
  "recover_entry M clk snapshotIndex e st =
     (case st of
        None \<Rightarrow> (None, None)
      | Some (s, recovered) \<Rightarrow>
          let entryIndex = weRaftIndex e
          in if sint entryIndex \<le> sint snapshotIndex then (st, None)
             else if sint entryIndex \<le> sint recovered then (st, None)
             else (case walEntryToRequest e of
                     None \<Rightarrow> (st, Some ())
                   | Some (req, mutates) \<Rightarrow>
                       (case (if mutates then req else None) of
                          None \<Rightarrow> (Some (s, entryIndex), None)
                        | Some r \<Rightarrow>
                            (case smDoOp M (clk entryIndex) s r of
                               None \<Rightarrow> (None, None)
                             | Some (s', _) \<Rightarrow> (Some (s', entryIndex), None)))))"

text \<open>The state machine after recovery, whether it returned, and the index or the error.\<close>

definition recoverFromWAL ::
  "('s, 'd) StateMachine \<Rightarrow> (goint \<Rightarrow> int64 \<times> int64) \<Rightarrow> replay_io \<Rightarrow> Logger \<Rightarrow> 's \<Rightarrow> goint
   \<Rightarrow> Logger \<times> ('s \<times> goint) option \<times> bool" where
  "recoverFromWAL M clk io l s snapshotIndex =
     (case Replay io (recover_entry M clk snapshotIndex) l (Some (s, snapshotIndex)) of
        (l', None, _) \<Rightarrow> (l', None, True)
      | (l', Some (s', recovered), ReplayOK) \<Rightarrow> (l', Some (s', recovered), True)
      | (l', Some (s', recovered), _) \<Rightarrow> (l', Some (s', snapshotIndex), False))"

section \<open>Start\<close>

text \<open>What the surroundings give to \<open>MakeRSM\<close>; \<open>mkWal\<close> is the outcome of \<open>NewLogger\<close>.\<close>

record 'd make_env =
  mkLeaseEnv :: string
  mkWal :: "Logger option"
  mkSnapshot :: "'d payload"
  mkLastIncluded :: goint
  mkReplay :: replay_io
  mkNow :: int

definition MakeRSM ::
  "('s, 'd) StateMachine \<Rightarrow> (goint \<Rightarrow> int64 \<times> int64) \<Rightarrow> 'd make_env \<Rightarrow> goint \<Rightarrow> goint \<Rightarrow> 's
   \<Rightarrow> ('s RSM \<times> 'd effect list) option" where
  "MakeRSM M clk X me maxraftstate sm =
     (let rsm = \<lparr> rsMe = me, rsMaxraftstate = maxraftstate, rsSm = sm, rsIdCounter = 0,
                  rsWaitingOps = Map.empty, rsOps = [], rsShutdown = False,
                  rsWatchMgr = NewManager DefaultConfig, rsListener = False, rsWal = mkWal X,
                  rsLeaseRead = leaseReadEnabledFromEnv (mkLeaseEnv X), rsWalGCInFly = False,
                  rsLastSnapIndex = 0, rsLastApplied = 0, rsLastSnapAt = mkNow X, rsSnapMinDelta = 64,
                  rsSnapMinGap = 200000000, rsBlockedNanos = 0, rsProcessNanos = 0, rsIterCount = 0 \<rparr>;
          loaded =
            (case mkSnapshot X of
               NoPayload \<Rightarrow> Some rsm
             | BadPayload \<Rightarrow> None
             | Payload idctr d \<Rightarrow>
                 map_option (\<lambda>sm'. rsm\<lparr> rsIdCounter := idctr, rsSm := sm' \<rparr>) (smRestore M sm d))
      in case loaded of
           None \<Rightarrow> None
         | Some rsm1 \<Rightarrow>
             let rsm2 = rsm1\<lparr> rsLastSnapIndex := mkLastIncluded X, rsLastApplied := mkLastIncluded X \<rparr>
             in case mkWal X of
                  None \<Rightarrow> Some (rsm2, [])
                | Some l \<Rightarrow>
                    if \<not> lEnabled l then Some (rsm2, [])
                    else (case recoverFromWAL M clk (mkReplay X) l (rsSm rsm2) (mkLastIncluded X) of
                            (l', Some (s', recovered), True) \<Rightarrow>
                              Some (rsm2\<lparr> rsWal := Some l', rsSm := s', rsLastApplied := recovered \<rparr>,
                                    [RaftSyncApplied recovered])
                          | _ \<Rightarrow> None))"

section \<open>Submitting a request\<close>

definition genID :: "'s RSM \<Rightarrow> 's RSM \<times> int64" where
  "genID rsm = (rsm\<lparr> rsIdCounter := rsIdCounter rsm + 1 \<rparr>, rsIdCounter rsm + 1)"

text \<open>The non-blocking send on the channel \<open>done\<close>, whose capacity is one.\<close>

definition signal :: "bool \<Rightarrow> waitingOp \<Rightarrow> waitingOp" where
  "signal b w = (if woDone w = [] then w\<lparr> woDone := [b] \<rparr> else w)"

definition signal_at :: "bool \<Rightarrow> nat \<Rightarrow> waitingOp list \<Rightarrow> waitingOp list" where
  "signal_at b p ws = ws[p := signal b (ws ! p)]"

definition signal_waiting :: "bool \<Rightarrow> 's RSM \<Rightarrow> goint \<Rightarrow> 's RSM" where
  "signal_waiting b rsm index =
     (case rsWaitingOps rsm index of None \<Rightarrow> rsm | Some p \<Rightarrow> rsm\<lparr> rsOps := signal_at b p (rsOps rsm) \<rparr>)"

text \<open>
  \<open>Submit\<close> up to its wait: the pointer it waits on and its index, or the refusal. \<open>start\<close> is
  the answer of Raft, the index and whether this node leads.
\<close>

definition Submit_begin ::
  "(Op \<Rightarrow> goint \<times> bool) \<Rightarrow> 's RSM \<Rightarrow> Request \<Rightarrow> 's RSM \<times> (Err + nat \<times> goint)" where
  "Submit_begin start rsm req =
     (if rsShutdown rsm then (rsm, Inl ErrWrongLeader)
      else case genID rsm of
             (rsm1, i) \<Rightarrow>
               let oper = \<lparr> opMe = rsMe rsm, opId = i, opReq = req \<rparr>;
                   (index, isLeader) = start oper
               in if \<not> isLeader then (rsm1, Inl ErrWrongLeader)
                  else let rsm2 = signal_waiting False rsm1 index;
                           p = length (rsOps rsm2)
                       in (rsm2\<lparr> rsOps := rsOps rsm2 @ [\<lparr> woOper = oper, woResult = None, woDone = [] \<rparr>],
                                 rsWaitingOps := (rsWaitingOps rsm2)(index \<mapsto> p) \<rparr>, Inr (p, index)))"

datatype wake = WakeShutdown | WakeTimer | WakeDone

text \<open>
  The rest of \<open>Submit\<close>, from the case that ends the wait; it has no result when that case is
  not ready.
\<close>

definition Submit_return ::
  "'s RSM \<Rightarrow> nat \<times> goint \<Rightarrow> wake \<Rightarrow> ('s RSM \<times> Err \<times> Reply option) option" where
  "Submit_return rsm pi wk =
     (case pi of (p, index) \<Rightarrow>
        let leave = (\<lambda>r. r\<lparr> rsWaitingOps := (rsWaitingOps r)(index := None) \<rparr>);
            w = rsOps rsm ! p
        in case wk of
             WakeShutdown \<Rightarrow> if rsShutdown rsm then Some (leave rsm, ErrWrongLeader, None) else None
           | WakeTimer \<Rightarrow> Some (leave rsm, ErrWrongLeader, None)
           | WakeDone \<Rightarrow>
               (case woDone w of
                  [] \<Rightarrow> None
                | b # _ \<Rightarrow>
                    let rsm1 = rsm\<lparr> rsOps := (rsOps rsm)[p := w\<lparr> woDone := [] \<rparr>] \<rparr>
                    in Some (leave rsm1, if b then (OK, woResult w) else (ErrWrongLeader, None))))"

datatype lease_read = LeaseServed Reply | ByConsensus "Err + nat \<times> goint"

text \<open>\<open>leased\<close> is the answer of \<open>IsLeaderWithLease\<close>.\<close>

definition SubmitLeaseReadWithMode ::
  "('s, 'd) StateMachine \<Rightarrow> (Op \<Rightarrow> goint \<times> bool) \<Rightarrow> bool \<Rightarrow> int64 \<times> int64 \<Rightarrow> 's RSM \<Rightarrow> Request
   \<Rightarrow> ('s RSM \<times> lease_read) option" where
  "SubmitLeaseReadWithMode M start leased now rsm req =
     (if \<not> rsLeaseRead rsm \<or> \<not> leased then Some (map_prod id ByConsensus (Submit_begin start rsm req))
      else case smDoOp M now (rsSm rsm) req of
             None \<Rightarrow> None
           | Some (s, r) \<Rightarrow> Some (rsm\<lparr> rsSm := s \<rparr>, LeaseServed r))"

definition EnableLeaseRead :: "'s RSM \<Rightarrow> bool \<Rightarrow> 's RSM" where
  "EnableLeaseRead rsm enable = rsm\<lparr> rsLeaseRead := enable \<rparr>"

definition RegisterOpCompleteListener :: "'s RSM \<Rightarrow> 's RSM" where
  "RegisterOpCompleteListener rsm = rsm\<lparr> rsListener := True \<rparr>"

section \<open>Applying\<close>

text \<open>Readings of one application: term, clocks, size of the Raft state.\<close>

record apply_env =
  aeTerm :: goint
  aeStamp :: int64
  aeClock :: "int64 \<times> int64"
  aePersistBytes :: goint
  aeTime :: int

definition go_div4 :: "int \<Rightarrow> int" where
  "go_div4 x = (if x < 0 then - ((- x) div 4) else x div 4)"

definition shouldCreateSnapshot :: "apply_env \<Rightarrow> 's RSM \<Rightarrow> goint \<Rightarrow> bool" where
  "shouldCreateSnapshot X rsm commandIndex =
     (if rsMaxraftstate rsm = -1 then False
      else if sint (aePersistBytes X) \<le> go_div4 (sint (rsMaxraftstate rsm * 3)) then False
      else if sint (commandIndex - rsLastSnapIndex rsm) < sint (rsSnapMinDelta rsm) then False
      else if aeTime X - rsLastSnapAt rsm < rsSnapMinGap rsm then False
      else True)"

definition log_command :: "apply_env \<Rightarrow> 's RSM \<Rightarrow> goint \<Rightarrow> Op \<Rightarrow> 's RSM" where
  "log_command X rsm commandIndex oper =
     (case rsWal rsm of
        None \<Rightarrow> rsm
      | Some l \<Rightarrow>
          rsm\<lparr> rsWal := Some (fst (AppendAsync (aeStamp X) l
                 (walEntryFromOp (rsMe rsm) commandIndex (aeTerm X) (aeStamp X) oper))) \<rparr>)"

text \<open>The answer to the caller that waits at the index.\<close>

definition answer_waiting :: "'s RSM \<Rightarrow> goint \<Rightarrow> Op \<Rightarrow> Reply \<Rightarrow> 's RSM" where
  "answer_waiting rsm commandIndex oper result =
     (case rsWaitingOps rsm commandIndex of
        None \<Rightarrow> rsm
      | Some p \<Rightarrow>
          if opEquals (woOper (rsOps rsm ! p)) oper
          then rsm\<lparr> rsOps := signal_at True p ((rsOps rsm)[p := (rsOps rsm ! p)\<lparr> woResult := Some result \<rparr>]) \<rparr>
          else rsm\<lparr> rsOps := signal_at False p (rsOps rsm) \<rparr>)"

text \<open>A command that is not an \<open>Op\<close> is \<open>None\<close>.\<close>

definition applyCommand ::
  "('s, 'd) StateMachine \<Rightarrow> apply_env \<Rightarrow> 's RSM \<Rightarrow> goint \<Rightarrow> Op option \<Rightarrow> ('s RSM \<times> 'd effect list) option" where
  "applyCommand M X rsm commandIndex command =
     (case command of
        None \<Rightarrow> Some (rsm, [])
      | Some oper \<Rightarrow>
          let rsm1 = log_command X rsm commandIndex oper
          in case smDoOp M (aeClock X) (rsSm rsm1) (opReq oper) of
               None \<Rightarrow> None
             | Some (s, result) \<Rightarrow>
                 let rsm2 = rsm1\<lparr> rsSm := s, rsLastApplied :=
                              (if sint commandIndex > sint (rsLastApplied rsm1) then commandIndex
                               else rsLastApplied rsm1) \<rparr>;
                     rsm3 = answer_waiting rsm2 commandIndex oper result;
                     listener = (if rsListener rsm then [GoListener (opReq oper) result commandIndex] else [])
                 in if shouldCreateSnapshot X rsm3 commandIndex
                    then Some (rsm3\<lparr> rsLastSnapAt := aeTime X \<rparr>, listener @ [GoSnapshot commandIndex])
                    else Some (rsm3, listener))"

section \<open>Snapshots\<close>

text \<open>\<open>truncateWALAsync\<close> up to its goroutine, and that goroutine.\<close>

definition truncateWALAsync :: "'s RSM \<Rightarrow> goint \<Rightarrow> 's RSM \<times> 'd effect list" where
  "truncateWALAsync rsm upToIndex =
     (case rsWal rsm of
        None \<Rightarrow> (rsm, [])
      | Some l \<Rightarrow>
          if sint upToIndex \<le> 0 \<or> \<not> lEnabled l then (rsm, [])
          else if rsWalGCInFly rsm then (rsm, [])
          else (rsm\<lparr> rsWalGCInFly := True \<rparr>, [GoTruncate upToIndex]))"

definition truncate_done :: "truncate_io \<Rightarrow> 's RSM \<Rightarrow> goint \<Rightarrow> 's RSM" where
  "truncate_done io rsm upToIndex =
     (case rsWal rsm of
        None \<Rightarrow> rsm
      | Some l \<Rightarrow> rsm\<lparr> rsWal := Some (fst (TruncateUpTo io l upToIndex)), rsWalGCInFly := False \<rparr>)"

definition applySnapshot ::
  "('s, 'd) StateMachine \<Rightarrow> int \<Rightarrow> 's RSM \<Rightarrow> goint \<Rightarrow> 'd payload \<Rightarrow> ('s RSM \<times> 'd effect list) option" where
  "applySnapshot M now rsm snapshotIndex snapshot =
     (if rsShutdown rsm then Some (rsm, [])
      else case snapshot of
             Payload idctr d \<Rightarrow>
               (let rsm1 = (if sint idctr > sint (rsIdCounter rsm) then rsm\<lparr> rsIdCounter := idctr \<rparr> else rsm)
                in case smRestore M (rsSm rsm1) d of
                     None \<Rightarrow> None
                   | Some s \<Rightarrow>
                       Some (truncateWALAsync
                         (rsm1\<lparr> rsSm := s,
                                rsLastSnapIndex := (if sint snapshotIndex > sint (rsLastSnapIndex rsm1)
                                                    then snapshotIndex else rsLastSnapIndex rsm1),
                                rsLastApplied := (if sint snapshotIndex > sint (rsLastApplied rsm1)
                                                  then snapshotIndex else rsLastApplied rsm1),
                                rsLastSnapAt := now \<rparr>) snapshotIndex))
           | _ \<Rightarrow> None)"

definition createSnapshot ::
  "('s, 'd) StateMachine \<Rightarrow> int \<Rightarrow> 's RSM \<Rightarrow> goint \<Rightarrow> 's RSM \<times> 'd effect list" where
  "createSnapshot M now rsm snapshotToIndex =
     (if rsShutdown rsm then (rsm, [])
      else case truncateWALAsync rsm snapshotToIndex of
             (rsm1, effs) \<Rightarrow>
               (rsm1\<lparr> rsLastSnapIndex := snapshotToIndex,
                      rsLastApplied := (if sint snapshotToIndex > sint (rsLastApplied rsm1)
                                        then snapshotToIndex else rsLastApplied rsm1),
                      rsLastSnapAt := now \<rparr>,
                RaftSnapshot snapshotToIndex (Payload (rsIdCounter rsm) (smSnapshot M (rsSm rsm))) # effs))"

section \<open>The apply loop and shutdown\<close>

definition signal_all :: "'s RSM \<Rightarrow> 's RSM" where
  "signal_all rsm = rsm\<lparr> rsOps := map (\<lambda>(p, w). if p \<in> ran (rsWaitingOps rsm) then signal False w else w)
                                   (enumerate 0 (rsOps rsm)),
                         rsWaitingOps := Map.empty \<rparr>"

definition rsm_kill :: "'s RSM \<Rightarrow> 's RSM" where
  "rsm_kill rsm = signal_all (rsm\<lparr> rsShutdown := True \<rparr>)"

datatype 'd ApplyMsg = CommandMsg goint "Op option" | SnapshotMsg goint "'d payload"

text \<open>
  One iteration of \<open>applyLoop\<close>: a message, or none from a closed channel, with the time it
  waited and worked; the flag says whether the loop goes on.
\<close>

definition applyLoop_step ::
  "('s, 'd) StateMachine \<Rightarrow> apply_env \<Rightarrow> int64 \<Rightarrow> int64 \<Rightarrow> 's RSM \<Rightarrow> 'd ApplyMsg option
   \<Rightarrow> ('s RSM \<times> 'd effect list \<times> bool) option" where
  "applyLoop_step M X waited worked rsm0 msg =
     (let rsm = rsm0\<lparr> rsBlockedNanos := rsBlockedNanos rsm0 + waited \<rparr>
      in case msg of
           None \<Rightarrow> Some (rsm_kill rsm, [], False)
         | Some m \<Rightarrow>
             if rsShutdown rsm then Some (rsm, [], False)
             else map_option (\<lambda>(r, effs). (r\<lparr> rsProcessNanos := rsProcessNanos r + worked,
                                              rsIterCount := rsIterCount r + 1 \<rparr>, effs, True))
                    (case m of
                       CommandMsg i c \<Rightarrow> applyCommand M X rsm i c
                     | SnapshotMsg i d \<Rightarrow> applySnapshot M (aeTime X) rsm i d))"

definition rsm_Close :: "write_outcome \<Rightarrow> bool \<Rightarrow> 's RSM \<Rightarrow> ('s RSM \<times> 'd effect list) option" where
  "rsm_Close w close_ok rsm =
     (if rsShutdown rsm then Some (rsm, [])
      else case watch_Close (rsWatchMgr rsm) of
             None \<Rightarrow> None
           | Some wm \<Rightarrow>
               Some (signal_all (rsm\<lparr> rsShutdown := True, rsWatchMgr := wm,
                                      rsWal := map_option (\<lambda>l. fst (wal_Close w close_ok l)) (rsWal rsm) \<rparr>),
                     [RaftKill]))"

end
