(* ===== verification/Wal_Safety.thy ===== *)
theory Wal_Safety
  imports Wal
begin

text \<open>
  What the write-ahead log guarantees (theory \<open>Wal\<close>): the file always replays to a prefix of
  the entries that were accepted, truncation keeps exactly the entries after its index, and
  what a short write does to the entries appended after a restart.
\<close>

section \<open>What reaches the file\<close>

text \<open>
  A run of the logger between two maintenance operations, with the entries accepted so far and
  the caller that waits for each.
\<close>

inductive wal_step :: "Logger \<times> (Entry \<times> nat option) list \<Rightarrow> Logger \<times> (Entry \<times> nat option) list \<Rightarrow> bool" where
  wal_async: "AppendAsync now l e = (l', r)
    \<Longrightarrow> wal_step (l, acc) (l', if r = Queued then acc @ [(stamp now e, None)] else acc)"
| wal_append: "wal_Append now i l e = Some (l', r)
    \<Longrightarrow> wal_step (l, acc) (l', if r = Queued then acc @ [(stamp now e, Some i)] else acc)"
| wal_recv: "worker_recv w l = Some l' \<Longrightarrow> wal_step (l, acc) (l', acc)"
| wal_tick: "wal_step (l, acc) (worker_flush w l, acc)"

definition req_pair :: "WALRequest \<Rightarrow> Entry \<times> nat option" where
  "req_pair r = (the (unmarshal_Entry (wrData r)), wrDone r)"

definition wal_run_ok :: "Entry list \<Rightarrow> Logger \<times> (Entry \<times> nat option) list \<Rightarrow> bool" where
  "wal_run_ok es0 st =
     (case st of (l, acc) \<Rightarrow>
        lines_decode (lDisk l) \<and>
        (\<exists>dn rest. acc = dn @ rest \<and> wal_entries (lDisk l) = es0 @ map fst dn
           \<and> (\<forall>i. (i, True) \<in> set (lAnswers l) \<longrightarrow> (\<exists>e. (e, Some i) \<in> set dn))
           \<and> (if lWorkerErr l then lFatal l \<and> \<not> lFile l
              else rest = map req_pair (lBatch l @ lReqCh l) \<and> wfTail (lDisk l) = Blank
                   \<and> (\<forall>r \<in> set (lBatch l @ lReqCh l). \<exists>e. wrData r = marshal_Entry e))))"

lemma wal_run_okE:
  assumes "wal_run_ok es0 (l, acc)"
  obtains dn rest where "lines_decode (lDisk l)" "acc = dn @ rest" "wal_entries (lDisk l) = es0 @ map fst dn"
    "\<forall>i. (i, True) \<in> set (lAnswers l) \<longrightarrow> (\<exists>e. (e, Some i) \<in> set dn)"
    "if lWorkerErr l then lFatal l \<and> \<not> lFile l
     else rest = map req_pair (lBatch l @ lReqCh l) \<and> wfTail (lDisk l) = Blank
          \<and> (\<forall>r \<in> set (lBatch l @ lReqCh l). \<exists>e. wrData r = marshal_Entry e)"
  using assms unfolding wal_run_ok_def by auto

lemma JBad_undecodable [simp]: "unmarshal_Entry (JBad s) = None"
  by (simp add: unmarshal_Entry_def dec_obj_def)

lemma wal_entries_append_docs:
  assumes "wfTail f = Blank" "\<forall>r \<in> set rs. \<exists>e. wrData r = marshal_Entry e" "lines_decode f"
  shows "wal_entries (fold (\<lambda>d f. append_line f d) (map wrData rs) f) = wal_entries f @ map (fst \<circ> req_pair) rs"
    and "lines_decode (fold (\<lambda>d f. append_line f d) (map wrData rs) f)"
    and "wfTail (fold (\<lambda>d f. append_line f d) (map wrData rs) f) = Blank"
proof -
  have "concat (map (line_entries \<circ> Doc \<circ> wrData) rs) = map (fst \<circ> req_pair) rs"
    using assms(2) by (induction rs) (auto simp: line_entries_def req_pair_def)
  then show "wal_entries (fold (\<lambda>d f. append_line f d) (map wrData rs) f) = wal_entries f @ map (fst \<circ> req_pair) rs"
    using append_lines_clean [OF assms(1), of "map wrData rs"] assms(1)
    by (simp add: wal_entries_def line_entries_def [of Blank] comp_assoc)
  show "lines_decode (fold (\<lambda>d f. append_line f d) (map wrData rs) f)"
    using append_lines_clean [OF assms(1), of "map wrData rs"] assms(2,3) by (auto simp: lines_decode_def)
  show "wfTail (fold (\<lambda>d f. append_line f d) (map wrData rs) f) = Blank"
    using append_lines_clean [OF assms(1)] by simp
qed

lemma write_tail_entries:
  assumes "wfTail f = Blank" "lines_decode f" "wrData r = marshal_Entry e"
  shows "lines_decode (write_tail f t (wrData r))"
    and "wal_entries (write_tail f t (wrData r)) = wal_entries f @ (if t = WholeText then [fst (req_pair r)] else [])"
  using assms
  by (cases t; simp add: write_tail_def lines_decode_def wal_entries_def line_entries_def req_pair_def)+

text \<open>Every outcome of a write leaves a prefix of the batch in the file.\<close>

lemma writeAndSync_prefix:
  assumes "writeAndSync w f (map wrData rs) sync = (f', ok)" "wfTail f = Blank" "lines_decode f"
    "\<forall>r \<in> set rs. \<exists>e. wrData r = marshal_Entry e"
  shows "lines_decode f'"
    and "\<exists>n. wal_entries f' = wal_entries f @ map (fst \<circ> req_pair) (take n rs) \<and> (ok \<longrightarrow> n = length rs \<and> wfTail f' = Blank)"
proof -
  note A = wal_entries_append_docs [OF assms(2) assms(4) assms(3)]
  have "lines_decode f' \<and> (\<exists>n. wal_entries f' = wal_entries f @ map (fst \<circ> req_pair) (take n rs) \<and> (ok \<longrightarrow> n = length rs \<and> wfTail f' = Blank))"
  proof (cases w)
    case (ShortWrite n t)
    let ?g = "fold (\<lambda>d f. append_line f d) (map wrData (take n rs)) f"
    have "\<forall>r \<in> set (take n rs). \<exists>e. wrData r = marshal_Entry e" using assms(4) by (meson in_set_takeD)
    note G = wal_entries_append_docs [OF assms(2) this assms(3)]
    show ?thesis
    proof (cases "n < length rs")
      case True
      then have "rs \<noteq> []" by auto
      then have "f' = write_tail ?g t (wrData (rs ! n))" and nok: "\<not> ok"
        using True assms(1) ShortWrite by (simp_all add: writeAndSync_def Let_def take_map)
      moreover obtain e where "wrData (rs ! n) = marshal_Entry e" using True assms(4) nth_mem by blast
      moreover have "take (Suc n) rs = take n rs @ [rs ! n]" using True by (rule take_Suc_conv_app_nth)
      ultimately have "lines_decode f'"
        "wal_entries f' = wal_entries f @ map (fst \<circ> req_pair) (take (if t = WholeText then Suc n else n) rs)"
        using write_tail_entries [OF G(3,2)] G(1) by simp_all
      then show ?thesis using nok by blast
    next
      case False
      then have "f' = (if rs = [] then f else fold (\<lambda>d f. append_line f d) (map wrData rs) f)"
        using assms(1) ShortWrite by (simp add: writeAndSync_def Let_def split: if_splits)
      then have "lines_decode f' \<and> wal_entries f' = wal_entries f @ map (fst \<circ> req_pair) (take (length rs) rs) \<and> wfTail f' = Blank"
        using A assms(2,3) by simp
      then show ?thesis by blast
    qed
  next
    case Written
    then have "lines_decode f' \<and> wal_entries f' = wal_entries f @ map (fst \<circ> req_pair) (take (length rs) rs) \<and> wfTail f' = Blank"
      using A assms(1-3) by (simp add: writeAndSync_def split: if_splits)
    then show ?thesis by blast
  next
    case SyncFailed
    then have "lines_decode f' \<and> wal_entries f' = wal_entries f @ map (fst \<circ> req_pair) (take (length rs) rs) \<and> wfTail f' = Blank"
      using A assms(1-3) by (simp add: writeAndSync_def split: if_splits)
    then show ?thesis by blast
  qed
  then show "lines_decode f'"
    "\<exists>n. wal_entries f' = wal_entries f @ map (fst \<circ> req_pair) (take n rs) \<and> (ok \<longrightarrow> n = length rs \<and> wfTail f' = Blank)"
    by blast+
qed

lemma answer_True: "(i, True) \<in> set (answer ok rs) \<Longrightarrow> ok \<and> (\<exists>e. (e, Some i) \<in> set (map req_pair rs))"
  by (induction rs) (auto simp: answer_def map_filter_simps req_pair_def split: option.splits)

lemma worker_flush_ok:
  assumes "wal_run_ok es0 (l, acc)"
  shows "wal_run_ok es0 (worker_flush w l, acc)"
  using assms
proof (cases rule: wal_run_okE)
  case (1 dn rest)
  show ?thesis
  proof (cases "lBatch l = [] \<or> lWorkerErr l")
    case True
    have "(i, True) \<notin> set (answer False rs)" for i rs using answer_True by blast
    then show ?thesis using assms True by (auto simp: worker_flush_def wal_run_ok_def)
  next
    case False
    then have r: "rest = map req_pair (lBatch l @ lReqCh l)" "wfTail (lDisk l) = Blank"
      "\<forall>r \<in> set (lBatch l @ lReqCh l). \<exists>e. wrData r = marshal_Entry e"
      using 1(5) by auto
    obtain f' ok where w: "writeAndSync w (lDisk l) (map wrData (lBatch l)) (lSyncOnWrite l) = (f', ok)" by (rule prod.exhaust)
    have "\<forall>r \<in> set (lBatch l). \<exists>e. wrData r = marshal_Entry e" using r(3) by auto
    note W = writeAndSync_prefix [OF w r(2) 1(1) this]
    from W(2) obtain n where n: "wal_entries f' = wal_entries (lDisk l) @ map (fst \<circ> req_pair) (take n (lBatch l))"
      "ok \<longrightarrow> n = length (lBatch l) \<and> wfTail f' = Blank" by blast
    let ?l = "worker_flush w l"
    have l: "lDisk ?l = f'" "lBatch ?l = []" "lReqCh ?l = lReqCh l" "lAnswers ?l = lAnswers l @ answer ok (lBatch l)"
      "lWorkerErr ?l = (\<not> ok)" "\<not> ok \<Longrightarrow> lFatal ?l \<and> \<not> lFile ?l"
      using False w by (auto simp: worker_flush_def Let_def setFatalErr_def)
    let ?dn = "dn @ map req_pair (take n (lBatch l))"
    have "acc = ?dn @ map req_pair (drop n (lBatch l) @ lReqCh l)"
      using 1(2) r(1) by (metis append.assoc append_take_drop_id map_append)
    moreover have "\<exists>e. (e, Some i) \<in> set ?dn" if "(i, True) \<in> set (lAnswers ?l)" for i
    proof (cases "(i, True) \<in> set (lAnswers l)")
      case False
      then have "ok \<and> (\<exists>e. (e, Some i) \<in> set (map req_pair (lBatch l)))"
        using that answer_True [of i ok "lBatch l"] by (simp add: l(4))
      then show ?thesis using n(2) by auto
    qed (use 1(4) in auto)
    moreover have "wal_entries f' = es0 @ map fst ?dn" using n(1) 1(3) by simp
    moreover have "if lWorkerErr ?l then lFatal ?l \<and> \<not> lFile ?l
       else map req_pair (drop n (lBatch l) @ lReqCh l) = map req_pair (lBatch ?l @ lReqCh ?l) \<and> wfTail (lDisk ?l) = Blank
          \<and> (\<forall>r \<in> set (lBatch ?l @ lReqCh ?l). \<exists>e. wrData r = marshal_Entry e)"
      using l n(2) r(3) by (cases ok) simp_all
    moreover have "lines_decode (lDisk ?l)" "wal_entries (lDisk ?l) = wal_entries f'" using W(1) l(1) by simp_all
    ultimately show ?thesis unfolding wal_run_ok_def prod.case by metis
  qed
qed

lemma worker_recv_ok:
  assumes "wal_run_ok es0 (l, acc)" "worker_recv w l = Some l'"
  shows "wal_run_ok es0 (l', acc)"
  using assms(1)
proof (cases rule: wal_run_okE)
  case (1 dn rest)
  from assms(2) obtain r rs where q: "lReqCh l = r # rs" by (auto simp: worker_recv_def split: list.splits)
  show ?thesis
  proof (cases "lWorkerErr l")
    case True
    have "(i, True) \<notin> set (answer False [r])" for i using answer_True by blast
    moreover have "l' = l\<lparr> lReqCh := rs, lAnswers := lAnswers l @ answer False [r] \<rparr>"
      using assms(2) True q by (auto simp: worker_recv_def split: if_splits)
    ultimately show ?thesis
      using 1 True unfolding wal_run_ok_def prod.case by (intro conjI exI [of _ dn] exI [of _ rest]) auto
  next
    case False
    let ?l = "l\<lparr> lReqCh := rs, lBatch := lBatch l @ [r] \<rparr>"
    have "wal_run_ok es0 (?l, acc)" using assms(1) False q by (simp add: wal_run_ok_def)
    moreover have "l' = ?l \<or> l' = worker_flush w ?l"
      using assms(2) False q by (auto simp: worker_recv_def Let_def split: if_splits)
    ultimately show ?thesis using worker_flush_ok by blast
  qed
qed

lemma enqueue_ok:
  assumes "wal_run_ok es0 (l, acc)" "append_check l = Queued"
  shows "wal_run_ok es0 (l\<lparr> lReqCh := lReqCh l @ [\<lparr> wrData = marshal_Entry e, wrDone = d \<rparr>] \<rparr>, acc @ [(e, d)])"
  using assms(1)
proof (cases rule: wal_run_okE)
  case (1 dn rest)
  have "\<not> lWorkerErr l" using 1(5) assms(2) by (auto simp: append_check_def split: if_splits)
  then show ?thesis
    using 1 unfolding wal_run_ok_def prod.case
    by (intro conjI exI [of _ dn] exI [of _ "rest @ [(e, d)]"]) (auto simp: req_pair_def)
qed

lemma wal_step_ok: "wal_step st st' \<Longrightarrow> wal_run_ok es0 st \<Longrightarrow> wal_run_ok es0 st'"
proof (induction rule: wal_step.induct)
  case (wal_async now l e l' r acc)
  then show ?case using enqueue_ok [of es0 l acc "stamp now e" None]
    by (auto simp: AppendAsync_def split: if_splits)
next
  case (wal_append now i l e l' r acc)
  then show ?case using enqueue_ok [of es0 l acc "stamp now e" "Some i"]
    by (auto simp: wal_Append_def split: if_splits)
qed (auto intro: worker_recv_ok worker_flush_ok)

text \<open>A logger that has just replayed a log that ends with a newline.\<close>

definition wal_start :: "wal_file \<Rightarrow> Logger \<times> (Entry \<times> nat option) list \<Rightarrow> bool" where
  "wal_start f st \<longleftrightarrow>
     snd st = [] \<and> lDisk (fst st) = f \<and> lines_decode f \<and> wfTail f = Blank \<and> lReqCh (fst st) = []
     \<and> lBatch (fst st) = [] \<and> \<not> lWorkerErr (fst st) \<and> lAnswers (fst st) = []"

lemma wal_start_ok: "wal_start f st \<Longrightarrow> wal_run_ok (wal_entries f) st"
  by (auto simp: wal_start_def wal_run_ok_def)

interpretation wal_run: invariant_system "wal_start f" wal_step "wal_run_ok (wal_entries f)" for f
  using wal_start_ok wal_step_ok by unfold_locales blast+

lemma Replay_start:
  assumes "NewLogger True True f True sync = Some l0" "lines_decode f" "wfTail f = Blank"
    "Replay io h l0 s = (l, s', ReplayOK)"
  shows "wal_start f (l, []) \<and> append_check l = Queued"
proof -
  have l0: "l0 = \<lparr> lEnabled = True, lSyncOnWrite = sync, lFile = True, lReqCh = [], lBatch = [],
                lWorkerErr = False, lWorkerAlive = True, lClosing = False, lFatal = False,
                lReplayDone = False, lAnswers = [], lDisk = f \<rparr>"
    using assms(1) by (simp add: NewLogger_def startWorkerLocked_def Let_def)
  show ?thesis
    using assms(2-4) unfolding l0
    by (auto simp: Replay_def stopWorkerLocked_def worker_flush_def Let_def startWorkerLocked_def wal_start_def
        append_check_def split: if_splits prod.splits option.splits)
qed

lemma Replay_clean:
  assumes "NewLogger True True f True sync = Some l0" "lines_decode f"
    "rp_sync_ok io" "rp_open_ok io" "rp_read io = None" "run_handler h (wal_entries f) s = (s', None)"
  shows "\<exists>l. Replay io h l0 s = (l, s', ReplayOK) \<and> lDisk l = f"
proof -
  have l0: "l0 = \<lparr> lEnabled = True, lSyncOnWrite = sync, lFile = True, lReqCh = [], lBatch = [],
                lWorkerErr = False, lWorkerAlive = True, lClosing = False, lFatal = False,
                lReplayDone = False, lAnswers = [], lDisk = f \<rparr>"
    using assms(1) by (simp add: NewLogger_def startWorkerLocked_def Let_def)
  show ?thesis
    using assms(3-6) replay_entries [OF assms(2), of h s] unfolding l0
    by (simp add: Replay_def stopWorkerLocked_def worker_flush_def Let_def startWorkerLocked_def)
qed

section \<open>Properties\<close>


definition demo_entry :: "int64 \<Rightarrow> Entry" where
  "demo_entry i = \<lparr> weRaftIndex = i, weTerm = 1, weNodeID = 0, weReqID = 1, weOpType = ''PUT'', weKey = ''k'',
     weValue = ''v'', weVersion = 0, weTTL = 0, weKeys = [], weVersions = [], weShardID = 0, weShardState = 0,
     weTargetGroup = 0, weEpoch = 0, weReplicas = [], weCutoff = 0, weTxReadKeys = [], weTxReadVersions = [],
     weTxWriteKeys = [], weTxWriteValues = [], weTxWriteVersions = [], weTxWriteDeletes = [],
     weTxTimeoutMs = 0, weTxCoordinatorGroup = 0, weTxParticipantGroups = [], weTxDecision = 0, weTimestamp = 9 \<rparr>"

definition plain_io :: replay_io where
  "plain_io = \<lparr> rp_stop = Written, rp_sync_ok = True, rp_open_ok = True, rp_read = None, rp_reopen_ok = True \<rparr>"

text \<open>The handler that collects what it is given.\<close>

definition collect :: "Entry \<Rightarrow> Entry list \<Rightarrow> Entry list \<times> unit option" where
  "collect e es = (es @ [e], None)"

lemma run_collect: "run_handler collect es s = (s @ es, None)"
  by (induction es arbitrary: s) (simp_all add: collect_def)

definition demo_logger :: Logger where
  "demo_logger = fst (Replay plain_io collect (the (NewLogger True True empty_wal True True)) [])"

lemma demo_logger_replayed:
  "NewLogger True True empty_wal True True = Some (the (NewLogger True True empty_wal True True))"
  "Replay plain_io collect (the (NewLogger True True empty_wal True True)) [] = (demo_logger, [], ReplayOK)"
proof -
  show n: "NewLogger True True empty_wal True True = Some (the (NewLogger True True empty_wal True True))"
    by (simp add: NewLogger_def Let_def)
  have "\<exists>l. Replay plain_io collect (the (NewLogger True True empty_wal True True)) [] = (l, [], ReplayOK) \<and> lDisk l = empty_wal"
    by (rule Replay_clean [OF n]) (simp_all add: plain_io_def lines_decode_def empty_wal_def wal_entries_def line_entries_def)
  then show "Replay plain_io collect (the (NewLogger True True empty_wal True True)) [] = (demo_logger, [], ReplayOK)"
    by (auto simp: demo_logger_def)
qed


text \<open>
  \<^bold>\<open>C25\<close>. Truncation: a \<open>TruncateUpTo\<close> that returns no error leaves a log that replays to
  exactly the entries after its index of those that were in the file or in the worker's batch,
  and with nothing else: the entries still in the channel, for which \<open>AppendAsync\<close> had already
  returned no error, are lost.
\<close>

theorem truncate_keeps_later_entries:
  assumes "lines_decode (lDisk l)" "wfTail (lDisk l) = Blank" "\<not> lWorkerErr l" "lEnabled l" "lWorkerAlive l"
    "\<forall>r \<in> set (lBatch l). \<exists>e. wrData r = marshal_Entry e"
    "TruncateUpTo io l n = (l', True)" "tr_stop io = Written"
  shows "wal_entries (lDisk l') =
      filter (\<lambda>e. sint (weRaftIndex e) > sint n) (wal_entries (lDisk l) @ map (fst \<circ> req_pair) (lBatch l))
    \<and> lines_decode (lDisk l') \<and> lReqCh l' = [] \<and> lBatch l' = []"
proof -
  let ?l1 = "(worker_flush Written l)\<lparr> lReqCh := [], lWorkerAlive := False \<rparr>"
  have d: "lines_decode (lDisk ?l1)" "wal_entries (lDisk ?l1) = wal_entries (lDisk l) @ map (fst \<circ> req_pair) (lBatch l)"
    "wfTail (lDisk ?l1) = Blank"
    using wal_entries_append_docs [OF assms(2,6,1)] assms(1-3)
    by (auto simp: worker_flush_def writeAndSync_def Let_def)
  obtain f where f: "rewriteWALAfterTruncate (tr_rewrite io) (lDisk ?l1) n = (f, True)"
    and l': "restartWorkerAfterMaintenance (tr_reopen_ok io) (?l1\<lparr> lFile := False, lDisk := f \<rparr>) = (l', True)"
    using assms(4,5,7,8) by (auto simp: TruncateUpTo_def stopWorkerLocked_def Let_def split: if_splits prod.splits)
  from keep_lines_filter [of "wfLines (lDisk ?l1)" n "wfTail (lDisk ?l1)"] d(1)
  obtain ds where ds: "keep_lines n (wfLines (lDisk ?l1)) (wfTail (lDisk ?l1)) = Some ds"
    "\<forall>d \<in> set ds. unmarshal_Entry d \<noteq> None"
    "concat (map (line_entries \<circ> Doc) ds) = filter (\<lambda>e. sint (weRaftIndex e) > sint n) (wal_entries (lDisk ?l1))"
    by (auto simp: lines_decode_def wal_entries_def)
  have ff: "f = \<lparr> wfLines = map Doc ds, wfTail = Blank \<rparr>"
    using f ds(1) by (auto simp: rewriteWALAfterTruncate_def split: if_splits)
  have dk: "lDisk l' = f" "lReqCh l' = []" "lBatch l' = []"
    using l' by (auto simp: restartWorkerAfterMaintenance_def startWorkerLocked_def worker_flush_def Let_def split: if_splits prod.splits)
  show ?thesis
    using ds d dk unfolding ff by (auto simp: wal_entries_def lines_decode_def line_entries_def [of Blank])
qed

definition fine_rewrite :: rewrite_io where
  "fine_rewrite = \<lparr> rw_open_ok = True, rw_tmp_ok = True, rw_read_ok = True, rw_write_ok = True, rw_sync_ok = True,
     rw_close_ok = True, rw_rename_ok = True \<rparr>"

definition fine_truncate :: truncate_io where
  "fine_truncate = \<lparr> tr_stop = Written, tr_sync_ok = True, tr_close_ok = True, tr_rewrite = fine_rewrite, tr_reopen_ok = True \<rparr>"

definition demo_busy :: Logger where
  "demo_busy = demo_logger\<lparr> lDisk := \<lparr> wfLines = [Doc (marshal_Entry (demo_entry 1)), Doc (marshal_Entry (demo_entry 3))], wfTail = Blank \<rparr>,
     lBatch := [\<lparr> wrData = marshal_Entry (demo_entry 4), wrDone = None \<rparr>],
     lReqCh := [\<lparr> wrData = marshal_Entry (demo_entry 5), wrDone = None \<rparr>] \<rparr>"

theorem truncate_keeps_later_entries_witness:
  "\<exists>l'. TruncateUpTo fine_truncate demo_busy 2 = (l', True)
     \<and> wal_entries (lDisk l') = [demo_entry 3, demo_entry 4] \<and> lReqCh l' = []"
proof -
  have dl: "demo_logger = \<lparr> lEnabled = True, lSyncOnWrite = True, lFile = True, lReqCh = [], lBatch = [],
       lWorkerErr = False, lWorkerAlive = True, lClosing = False, lFatal = False, lReplayDone = True,
       lAnswers = [], lDisk = empty_wal \<rparr>"
    by (simp add: demo_logger_def NewLogger_def Let_def startWorkerLocked_def Replay_def plain_io_def
        stopWorkerLocked_def worker_flush_def replayFile_def empty_wal_def)
  have ix: "weRaftIndex (demo_entry i) = i" for i by (simp add: demo_entry_def)
  have h: "lines_decode (lDisk demo_busy)" "wfTail (lDisk demo_busy) = Blank" "\<not> lWorkerErr demo_busy"
    "lEnabled demo_busy" "lWorkerAlive demo_busy" "\<forall>r \<in> set (lBatch demo_busy). \<exists>e. wrData r = marshal_Entry e"
    "tr_stop fine_truncate = Written"
    by (auto simp: demo_busy_def dl lines_decode_def fine_truncate_def)
  have "snd (TruncateUpTo fine_truncate demo_busy 2)"
    by (simp add: TruncateUpTo_def demo_busy_def dl fine_truncate_def fine_rewrite_def stopWorkerLocked_def
        worker_flush_def writeAndSync_def append_line_def rewriteWALAfterTruncate_def ix Let_def
        restartWorkerAfterMaintenance_def startWorkerLocked_def)
  then have t: "TruncateUpTo fine_truncate demo_busy 2 = (fst (TruncateUpTo fine_truncate demo_busy 2), True)"
    by (simp add: prod_eq_iff)
  from truncate_keeps_later_entries [OF h(1-6) t h(7)] t show ?thesis
    by (auto simp: demo_busy_def wal_entries_def line_entries_def req_pair_def ix)
qed

lemma run_handler_append:
  "run_handler h (es @ es') s = (case run_handler h es s of (s', None) \<Rightarrow> run_handler h es' s' | (s', Some x) \<Rightarrow> (s', Some x))"
  by (induction es arbitrary: s) (auto split: prod.splits option.splits)

lemma replay_lines_bad:
  assumes "\<forall>ln \<in> set ls. case ln of Blank \<Rightarrow> True | Doc d \<Rightarrow> unmarshal_Entry d \<noteq> None"
    "run_handler h (concat (map line_entries ls)) s = (s', None)" "unmarshal_Entry d = None"
  shows "snd (replay_lines h (ls @ Doc d # ms) t s) = Some DecodeFailed"
  using assms
  by (induction ls arbitrary: s) (auto simp: line_entries_def split: line.splits option.splits prod.splits)

text \<open>
  \<^bold>\<open>C26\<close>. A log that a crash left without its last newline replays, but is not repaired: the
  first entry appended to it afterwards, written in full and synced, makes every later replay
  fail with a decoding error.
\<close>

theorem torn_tail_poisons_log:
  assumes "lines_decode f" "wfTail f \<noteq> Blank" "run_handler h (wal_entries f) s = (s', None)"
  shows "replayFile True None h f s = (s', None)
    \<and> writeAndSync Written f [marshal_Entry e] sync = (append_line f (marshal_Entry e), True)
    \<and> snd (replayFile True None h (append_line f (marshal_Entry e)) s) = Some DecodeFailed"
proof -
  from assms(2) obtain d where d: "wfTail f = Doc d" by (cases "wfTail f") auto
  obtain s1 where r: "run_handler h (concat (map line_entries (wfLines f))) s = (s1, None)"
    using assms(3) by (auto simp: wal_entries_def run_handler_append split: prod.splits option.splits)
  have "snd (replay_lines h (wfLines f @ Doc (JBad []) # []) Blank s) = Some DecodeFailed"
    by (rule replay_lines_bad [OF _ r]) (use assms(1) in \<open>auto simp: lines_decode_def\<close>)
  then show ?thesis
    using replay_entries [OF assms(1), of h s] assms(3) d
    by (simp add: writeAndSync_def append_line_def replayFile_def)
qed

theorem torn_tail_poisons_log_witness:
  "snd (replayFile True None collect
     (append_line \<lparr> wfLines = [Doc (marshal_Entry (demo_entry 1))], wfTail = Doc (JBad ''x'') \<rparr> (marshal_Entry (demo_entry 2))) [])
   = Some DecodeFailed"
proof -
  let ?f = "\<lparr> wfLines = [Doc (marshal_Entry (demo_entry 1))], wfTail = Doc (JBad ''x'') \<rparr>"
  have "lines_decode ?f" "wfTail ?f \<noteq> Blank" "run_handler collect (wal_entries ?f) [] = ([] @ wal_entries ?f, None)"
    by (simp_all add: lines_decode_def run_collect)
  from torn_tail_poisons_log [OF this] show ?thesis by blast
qed

end
