(* ===== verification/Rsm_Recovery.thy ===== *)
theory Rsm_Recovery
  imports Rsm Kv_Semantics Wal_Safety
begin

text \<open>
  Recovery of a replica from its write-ahead log (theory \<open>Rsm\<close>): the requests that entries of
  the log stand for, the equality of recovery and application on the state they begin with,
  and what recovery does over a store that already has the effects of the log. The locale
  \<open>log_machine\<close> is what recovery relies on of the state machine; the key-value server is
  shown to be one.
\<close>

section \<open>The request of an entry\<close>

text \<open>The requests that an entry keeps whole and recovery may skip or execute again.\<close>

definition read_only :: "Request \<Rightarrow> bool" where
  "read_only r = (case r of ReqGet _ \<Rightarrow> True | ReqScan _ \<Rightarrow> True | _ \<Rightarrow> False)"

definition replayable :: "Request \<Rightarrow> bool" where
  "replayable r =
     (case r of
        ReqPrepareTx a \<Rightarrow> list_all (\<lambda>k. rkValue k = []) (paReadKeys a)
      | ReqRecordTxDecision a \<Rightarrow> raWriteKeys a = []
      | ReqResolveTxStatus _ \<Rightarrow> False
      | ReqUnknown _ \<Rightarrow> False
      | _ \<Rightarrow> True)"

lemma op_types:
  "to_upper (trim_space ''GET'') = ''GET''" "to_upper (trim_space ''SCAN'') = ''SCAN''"
  "to_upper (trim_space ''PUT'') = ''PUT''" "to_upper (trim_space ''DELETE'') = ''DELETE''"
  "to_upper (trim_space ''EXPIRE'') = ''EXPIRE''"
  "to_upper (trim_space ''CLEANUP_SHARD'') = ''CLEANUP_SHARD''"
  "to_upper (trim_space ''SET_SHARD_STATE'') = ''SET_SHARD_STATE''"
  "to_upper (trim_space ''PREPARE_TX'') = ''PREPARE_TX''" "to_upper (trim_space ''COMMIT_TX'') = ''COMMIT_TX''"
  "to_upper (trim_space ''ABORT_TX'') = ''ABORT_TX''"
  "to_upper (trim_space ''RESOLVE_TX_STATUS'') = ''RESOLVE_TX_STATUS''"
  "to_upper (trim_space ''RECORD_TX_DECISION'') = ''RECORD_TX_DECISION''"
  by code_simp+

lemma zip_cleanup: "map (\<lambda>(k, v). \<lparr> ckKey = k, ckExpectedVersion = v \<rparr>) (zip (map ckKey ks) (map ckExpectedVersion ks)) = ks"
  by (induction ks) auto

lemma zip_reads:
  "list_all (\<lambda>k. rkValue k = []) ks
   \<Longrightarrow> map (\<lambda>(k, v). \<lparr> rkKey = k, rkValue = [], rkExpectedVersion = v \<rparr>) (zip (map rkKey ks) (map rkExpectedVersion ks)) = ks"
proof (induction ks)
  case (Cons k ks)
  then show ?case by (cases k) auto
qed simp

lemma zip_writes:
  "map (\<lambda>(k, v, n, d). \<lparr> wkKey = k, wkValue = v, wkVersion = n, wkIsDelete = d \<rparr>)
     (zip (map wkKey ks) (zip (map wkValue ks) (zip (map wkVersion ks) (map wkIsDelete ks)))) = ks"
  by (induction ks) auto

text \<open>An entry read back gives the request it was written for.\<close>

lemma entry_request:
  assumes "replayable (opReq oper)"
  shows "walEntryToRequest (walEntryFromOp me i trm now oper) =
    Some (if read_only (opReq oper) then (None, False) else (Some (opReq oper), True))"
  using assms
  by (cases "opReq oper")
     (simp_all add: walEntryToRequest_def walEntryFromOp_def replayable_def read_only_def op_types Let_def
        zip_cleanup zip_reads zip_writes entry_writes_def writes_match_def)

lemma entry_index [simp]: "weRaftIndex (walEntryFromOp me i trm now oper) = i"
  by (cases "opReq oper") (simp_all add: walEntryFromOp_def Let_def)

section \<open>Recovery and application\<close>

text \<open>A command of the log with what the replica read when it applied it.\<close>

type_synonym applied = "apply_env \<times> goint \<times> Op"

definition applied_entry :: "goint \<Rightarrow> applied \<Rightarrow> Entry" where
  "applied_entry me a = (case a of (X, i, oper) \<Rightarrow> walEntryFromOp me i (aeTerm X) (aeStamp X) oper)"

fun apply_commands :: "('s, 'd) StateMachine \<Rightarrow> 's RSM \<Rightarrow> applied list \<Rightarrow> 's RSM option" where
  "apply_commands M rsm [] = Some rsm"
| "apply_commands M rsm ((X, i, oper) # as) =
     (case applyCommand M X rsm i (Some oper) of
        None \<Rightarrow> None | Some (rsm', _) \<Rightarrow> apply_commands M rsm' as)"

text \<open>The indices of a log grow, from above \<open>n\<close>.\<close>

fun ascending :: "int \<Rightarrow> applied list \<Rightarrow> bool" where
  "ascending n [] = True"
| "ascending n ((X, i, oper) # as) \<longleftrightarrow> n < sint i \<and> ascending (sint i) as"

definition last_index :: "goint \<Rightarrow> applied list \<Rightarrow> goint" where
  "last_index n as = (if as = [] then n else fst (snd (last as)))"

lemma rsSm_frame [simp]:
  "rsSm (log_command X rsm i oper) = rsSm rsm" "rsSm (answer_waiting rsm i oper x) = rsSm rsm"
  by (simp_all add: log_command_def answer_waiting_def split: option.split)

lemma applyCommand_sm:
  "map_option (rsSm \<circ> fst) (applyCommand M X rsm i (Some oper))
   = map_option fst (smDoOp M (aeClock X) (rsSm rsm) (opReq oper))"
  by (simp add: applyCommand_def Let_def split: option.split prod.split)

lemma recover_entry_old:
  "sint (weRaftIndex e) \<le> sint n \<Longrightarrow> recover_entry M clk n e st = (st, None)"
  by (cases st) (auto simp: recover_entry_def Let_def)

lemma run_handler_old:
  "\<forall>e \<in> set es. sint (weRaftIndex e) \<le> sint n
   \<Longrightarrow> run_handler (recover_entry M clk n) (es @ es') st = run_handler (recover_entry M clk n) es' st"
  by (induction es) (simp_all add: recover_entry_old)

lemma run_handler_stuck: "run_handler (recover_entry M clk n) es None = (None, None)"
  by (induction es) (simp_all add: recover_entry_def)

locale log_machine =
  fixes M :: "('s, 'd) StateMachine"
    and core :: "'s \<Rightarrow> 'c"
  assumes core_cong: "core s = core t
      \<Longrightarrow> map_option (core \<circ> fst) (smDoOp M c s r) = map_option (core \<circ> fst) (smDoOp M c t r)"
    and reads: "read_only r \<Longrightarrow> map_option (core \<circ> fst) (smDoOp M c s r) = Some (core s)"
begin

lemma recover_runs:
  assumes "\<forall>(X, i, oper) \<in> set as. replayable (opReq oper) \<and> clk i = aeClock X"
    "ascending (sint rec) as" "sint n \<le> sint rec" "core s = core (rsSm rsm)"
  shows "\<exists>st. run_handler (recover_entry M clk n) (map (applied_entry me) as) (Some (s, rec)) = (st, None)
     \<and> map_option (map_prod core id) st
       = map_option (\<lambda>r. (core (rsSm r), last_index rec as)) (apply_commands M rsm as)"
  using assms
proof (induction as arbitrary: rec s rsm)
  case Nil
  then show ?case by (simp add: last_index_def)
next
  case (Cons a as)
  obtain X i oper where a: "a = (X, i, oper)" by (cases a)
  have h: "replayable (opReq oper)" "clk i = aeClock X" "sint rec < sint i" "ascending (sint i) as"
    "sint n < sint i"
    and all: "\<forall>(X, i, oper) \<in> set as. replayable (opReq oper) \<and> clk i = aeClock X"
    using Cons.prems a by auto
  have li: "last_index rec (a # as) = last_index i as" by (auto simp: last_index_def a)
  let ?app = "applyCommand M X rsm i (Some oper)"
  have app: "map_option (core \<circ> rsSm \<circ> fst) ?app = map_option (core \<circ> fst) (smDoOp M (clk i) (rsSm rsm) (opReq oper))"
    using arg_cong [OF applyCommand_sm [of M X rsm i oper], of "map_option core"] h(2)
    by (simp add: option.map_comp comp_assoc)
  define nxt where "nxt = (if read_only (opReq oper) then Some s else map_option fst (smDoOp M (clk i) s (opReq oper)))"
  have step: "recover_entry M clk n (applied_entry me a) (Some (s, rec)) = (map_option (\<lambda>s'. (s', i)) nxt, None)"
    using h by (auto simp: nxt_def recover_entry_def applied_entry_def a entry_request Let_def split: option.splits)
  have nx: "map_option core nxt = map_option (core \<circ> rsSm \<circ> fst) ?app"
    using reads [of "opReq oper" "clk i" "rsSm rsm"] core_cong [OF Cons.prems(4), of "clk i" "opReq oper"] Cons.prems(4)
    by (cases "read_only (opReq oper)") (simp_all add: nxt_def app option.map_comp del: map_option_eq_Some)
  show ?case
  proof (cases ?app)
    case None
    then have "nxt = None" using nx by simp
    then show ?thesis using step None by (simp add: a run_handler_stuck)
  next
    case (Some p)
    obtain rsm' effs where p: "p = (rsm', effs)" by (rule prod.exhaust)
    with Some nx obtain s' where s': "nxt = Some s'" "core s' = core (rsSm rsm')" by auto
    show ?thesis
      using Cons.IH [OF all h(4) less_imp_le [OF h(5)] s'(2)] step s' Some p li by (simp add: a)
  qed
qed

end

section \<open>The key-value server\<close>

text \<open>The server without its counters.\<close>

definition uncounted :: "'db KVServer \<Rightarrow> 'db KVServer" where
  "uncounted kv = kv\<lparr> kvStats := kvStats (NewKVServer 0 0 (kvStore kv)) \<rparr>"

lemma uncounted_eq: "uncounted kv = uncounted kv' \<longleftrightarrow> (\<exists>x. kv' = kv\<lparr> kvStats := x \<rparr>)"
  by (cases kv; cases kv') (auto simp: uncounted_def NewKVServer_def)

lemma uncounted_stats [simp]: "uncounted (kvStats_update f kv) = uncounted kv"
  by (simp add: uncounted_def NewKVServer_def)

lemma uncounted_Record [simp]:
  "uncounted (RecordWrite kv) = uncounted kv" "uncounted (RecordFailure kv) = uncounted kv"
  "uncounted (RecordTTLExpired kv n) = uncounted kv"
  by (simp_all add: RecordWrite_def RecordFailure_def RecordTTLExpired_def)

lemma uncounted_set_store [simp]: "uncounted (set_store (kvStats_update f kv) s) = uncounted (set_store kv s)"
  by (simp add: set_store_def uncounted_def NewKVServer_def)

lemma uncounted_updates [simp]:
  "uncounted (kvStats_update f kv\<lparr> kvTxMgr := t \<rparr>) = uncounted (kv\<lparr> kvTxMgr := t \<rparr>)"
  "uncounted (kvStats_update f kv\<lparr> kvShardMgr := m \<rparr>) = uncounted (kv\<lparr> kvShardMgr := m \<rparr>)"
  by (simp_all add: uncounted_def NewKVServer_def)

lemma uncounted_more [simp]:
  "uncounted (set_store (RecordWrite kv) s) = uncounted (set_store kv s)"
  "uncounted ((RecordWrite kv)\<lparr> kvShardMgr := m \<rparr>) = uncounted (kv\<lparr> kvShardMgr := m \<rparr>)"
  "uncounted (set_store ((RecordWrite kv)\<lparr> kvShardMgr := m \<rparr>) s) = uncounted (set_store (kv\<lparr> kvShardMgr := m \<rparr>) s)"
  "uncounted (set_store (kvStats_update f kv\<lparr> kvShardMgr := m \<rparr>) s) = uncounted (set_store (kv\<lparr> kvShardMgr := m \<rparr>) s)"
  "set_store (kvStats_update f kv) s = kvStats_update f (set_store kv s)"
  by (simp_all add: set_store_def RecordWrite_def uncounted_def NewKVServer_def)

lemma uncounted_put_forward:
  "uncounted (fst (doPutWithForward B E now now' (kv\<lparr> kvStats := x \<rparr>) a meta))
     = uncounted (fst (doPutWithForward B E now now' kv a meta))"
proof (cases "PutCASWithTTL B now' (kvStore kv) (pKey a) (pValue a) (pVersion a) (absoluteExpiryFromTTL (pTTL a) now)")
  case (Pair s r)
  show ?thesis
    by (cases r; cases "Get B (kvStore kv) (pKey a)")
       (simp_all add: doPutWithForward_def Let_def Pair case_prod_unfold split: option.split)
qed

lemma uncounted_put:
  "uncounted (fst (doPut B E now now' (kv\<lparr> kvStats := x \<rparr>) a)) = uncounted (fst (doPut B E now now' kv a))"
  by (simp add: doPut_def Let_def uncounted_put_forward
        split: option.split sum.split prod.split PutCASStatus.split)

lemma uncounted_delete_forward:
  "uncounted (fst (doDeleteWithForward B E now (kv\<lparr> kvStats := x \<rparr>) a meta))
     = uncounted (fst (doDeleteWithForward B E now kv a meta))"
  by (simp add: doDeleteWithForward_def Let_def split: option.split sum.split prod.split)

lemma uncounted_delete:
  "uncounted (fst (doDelete B E now (kv\<lparr> kvStats := x \<rparr>) a)) = uncounted (fst (doDelete B E now kv a))"
  by (simp add: doDelete_def Let_def uncounted_delete_forward split: option.split sum.split prod.split)

lemma uncounted_get: "uncounted (fst (doGet B E now kv a)) = uncounted kv"
  by (simp add: doGet_def Let_def split: option.split sum.split)

lemma uncounted_scan: "uncounted (fst (doScan B now kv a)) = uncounted kv"
  by (simp add: doScan_def split: sum.split)

lemma uncounted_cleanup:
  "uncounted (fst (doCleanupShard B E (kv\<lparr> kvStats := x \<rparr>) a)) = uncounted (fst (doCleanupShard B E kv a))"
  by (simp add: doCleanupShard_def Let_def split: option.split prod.split)

lemma uncounted_shard:
  "uncounted (fst (doSetShardState (kv\<lparr> kvStats := x \<rparr>) a)) = uncounted (fst (doSetShardState kv a))"
  by (simp add: doSetShardState_def split: option.split)

lemma expire_fold_stats:
  "fold (expire_one B c) ks (kv\<lparr> kvStats := x \<rparr>, es, m)
   = (case fold (expire_one B c) ks (kv, es, m) of (kv', r) \<Rightarrow> (kv'\<lparr> kvStats := x \<rparr>, r))"
proof (induction ks arbitrary: kv es m)
  case (Cons k ks)
  have "expire_one B c k (kv\<lparr> kvStats := x \<rparr>, es, m) = (case expire_one B c k (kv, es, m) of (kv', r) \<Rightarrow> (kv'\<lparr> kvStats := x \<rparr>, r))"
    by (simp add: expire_one_def split: option.split sum.split prod.split)
  then show ?case using Cons by (simp split: prod.split)
qed simp

lemma uncounted_expire:
  "map_option (uncounted \<circ> fst) (doExpire B (kv\<lparr> kvStats := x \<rparr>) a) = map_option (uncounted \<circ> fst) (doExpire B kv a)"
  by (simp add: doExpire_def expire_fold_stats split: prod.split)

lemma uncounted_tx:
  "map_option (uncounted \<circ> fst) (tx_result (kv\<lparr> kvStats := x \<rparr>) mk r) = map_option (uncounted \<circ> fst) (tx_result kv mk r)"
  by (simp add: tx_result_def option.map_comp comp_def case_prod_unfold)

interpretation kv_log: log_machine "kv_machine B E" uncounted for B E
proof unfold_locales
  fix s t :: "'a KVServer" and c r
  assume "uncounted s = uncounted t"
  then obtain x where "t = s\<lparr> kvStats := x \<rparr>" by (auto simp: uncounted_eq)
  then show "map_option (uncounted \<circ> fst) (smDoOp (kv_machine B E) c s r)
    = map_option (uncounted \<circ> fst) (smDoOp (kv_machine B E) c t r)"
    by (cases r) (simp_all add: kv_machine_def DoOp_def option.map_comp comp_def case_prod_unfold
        uncounted_put uncounted_delete uncounted_get uncounted_scan uncounted_cleanup uncounted_shard
        uncounted_expire [unfolded comp_def] uncounted_tx [unfolded comp_def])
next
  fix r c and s :: "'a KVServer"
  assume "read_only r"
  then show "map_option (uncounted \<circ> fst) (smDoOp (kv_machine B E) c s r) = Some (uncounted s)"
    by (cases r) (simp_all add: kv_machine_def DoOp_def read_only_def case_prod_unfold uncounted_get uncounted_scan)
qed

lemma recover_replayed:
  assumes "NewLogger True True disk True sync = Some l" "lines_decode disk"
    "rp_sync_ok io" "rp_open_ok io" "rp_read io = None"
    "run_handler (recover_entry M clk n) (wal_entries disk) (Some (s, n)) = (st, None)"
  shows "\<exists>l'. recoverFromWAL M clk io l s n = (l', st, True)"
proof -
  obtain l' where "Replay io (recover_entry M clk n) l (Some (s, n)) = (l', st, ReplayOK)"
    using Replay_clean [OF assms] by blast
  then show ?thesis by (cases st) (auto simp: recoverFromWAL_def)
qed

context reliable_badger
begin

text \<open>A \<open>Put\<close> without expiry on a local shard always has the effect of its contract.\<close>

lemma doPut_complete:
  assumes "\<not> kvDead kv" "local_shard E kv (pKey args)" "pTTL args = 0"
    "content (sdb (kvStore kv)) (pKey args) = map_option marshal_kvEntry cur" "\<forall>e. cur = Some e \<longrightarrow> eExpires e = 0"
    "fst (cas_spec cur (pValue args) (pVersion args) 0) = w"
  shows "\<exists>kv' rep. doPut B E now now' kv args = (kv', rep) \<and> \<not> kvDead kv' \<and> local_shard E kv' (pKey args)
    \<and> content (sdb (kvStore kv')) (pKey args) = map_option marshal_kvEntry (if w = None then cur else w)"
proof -
  let ?cas = "PutCASWithTTL B now' (kvStore kv) (pKey args) (pValue args) (pVersion args) (absoluteExpiryFromTTL (pTTL args) now)"
  have ex: "absoluteExpiryFromTTL (pTTL args) now = 0" using assms(3) by (simp add: absoluteExpiryFromTTL_def)
  have st: "stored content (kvStore kv) (pKey args) = cur"
    using assms(4) by (cases cur) (simp_all add: stored_def codec_simps)
  have le: "live_entry content now' (kvStore kv) (pKey args) = cur"
    using assms(5) by (cases cur) (auto simp: live_entry_def st expired_at_def)
  have "\<exists>x. putCAS_closure B now' (pKey args) (pValue args) (pVersion args) 0 t = Inr x"
    if "seen t = content (sdb (kvStore kv))" for t
    using that assms(4) set_entry_ok by (cases cur) (auto simp: putCAS_closure_def Let_def get_eq codec_simps set_entry_not_Inl split: sum.split)
  moreover obtain t where t: "NewTransaction B (sdb (kvStore kv)) = Inr t" using new_ok by blast
  ultimately obtain x where "putCAS_closure B now' (pKey args) (pValue args) (pVersion args) 0 t = Inr x"
    using new_seen by blast
  moreover obtain d' where "txn_Commit B (sdb (kvStore kv)) (fst x) = Inr d'" using commit_ok by blast
  ultimately obtain s old status where c: "?cas = (s, Inr (old, status))"
    using t by (cases x) (auto simp: ex PutCASWithTTL_def db_Update_def)
  have "content (sdb s) (pKey args) = map_option marshal_kvEntry (if w = None then cur else w)"
    using PutCAS_refines [OF c] assms(4,6) by (cases w) (auto simp: le ex)
  then show ?thesis
    using assms(1,2) by (auto simp: doPut_local [OF assms(1,2) c] local_shard_def)
qed

end

lemma put_applied:
  assumes "reliable_badger B content seen" "req = ReqPut \<lparr> pKey = k, pValue = v, pVersion = n, pTTL = 0 \<rparr>"
    "\<not> kvDead kv" "local_shard E kv k" "content (sdb (kvStore kv)) k = map_option marshal_kvEntry cur"
    "\<forall>e. cur = Some e \<longrightarrow> eExpires e = 0"
  shows "\<exists>kv' rep. smDoOp (kv_machine B E) c kv req = Some (kv', rep) \<and> \<not> kvDead kv' \<and> local_shard E kv' k
    \<and> content (sdb (kvStore kv')) k = map_option marshal_kvEntry
        (if fst (cas_spec cur v n 0) = None then cur else fst (cas_spec cur v n 0))"
  using reliable_badger.doPut_complete [OF assms(1), of kv E "\<lparr> pKey = k, pValue = v, pVersion = n, pTTL = 0 \<rparr>" cur _ "fst c" "snd c"]
    assms(2-6)
  by (auto simp: kv_machine_def DoOp_def case_prod_unfold)

lemma applyCommand_Some:
  "smDoOp M (aeClock X) (rsSm rsm) (opReq oper) = Some (s, r)
   \<Longrightarrow> \<exists>rsm' effs. applyCommand M X rsm i (Some oper) = Some (rsm', effs) \<and> rsSm rsm' = s"
  using applyCommand_sm [of M X rsm i oper] by auto

section \<open>Properties\<close>

text \<open>
  \<^bold>\<open>C27\<close>. Recovery is equivalent to application: a replica that restores the state its
  commands began with and recovers from the log of these commands (which may begin with
  entries up to the index of the snapshot) has, but for its counters, the state of the replica
  that applied them, and the index of the last one; it waits for ever exactly when that one
  did. The commands are the ones whose entries keep the whole request, and the operations read
  the same clock.
\<close>

theorem recovery_equals_application:
  assumes "NewLogger True True disk True sync = Some l" "lines_decode disk"
    "rp_sync_ok io" "rp_open_ok io" "rp_read io = None"
    "wal_entries disk = older @ map (applied_entry me) as"
    "\<forall>e \<in> set older. sint (weRaftIndex e) \<le> sint n" "ascending (sint n) as"
    "\<forall>(X, i, oper) \<in> set as. replayable (opReq oper) \<and> clk i = aeClock X"
  shows "\<exists>l' st. recoverFromWAL (kv_machine B E) clk io l (rsSm rsm) n = (l', st, True)
    \<and> map_option (map_prod uncounted id) st
      = map_option (\<lambda>r. (uncounted (rsSm r), last_index n as)) (apply_commands (kv_machine B E) rsm as)"
proof -
  obtain st where st: "run_handler (recover_entry (kv_machine B E) clk n) (map (applied_entry me) as) (Some (rsSm rsm, n)) = (st, None)"
    "map_option (map_prod uncounted id) st
      = map_option (\<lambda>r. (uncounted (rsSm r), last_index n as)) (apply_commands (kv_machine B E) rsm as)"
    using kv_log.recover_runs [OF assms(9,8) order_refl refl] by blast
  have "run_handler (recover_entry (kv_machine B E) clk n) (wal_entries disk) (Some (rsSm rsm, n)) = (st, None)"
    using st(1) by (simp add: assms(6) run_handler_old [OF assms(7)])
  from recover_replayed [OF assms(1-5) this] show ?thesis using st(2) by blast
qed

definition demo_apply :: apply_env where
  "demo_apply = \<lparr> aeTerm = 1, aeStamp = 30, aeClock = (40, 41), aePersistBytes = 0, aeTime = 0 \<rparr>"

definition put_op :: "int64 \<Rightarrow> string \<Rightarrow> Tversion \<Rightarrow> Op" where
  "put_op i v n = \<lparr> opMe = 0, opId = i, opReq = ReqPut \<lparr> pKey = ''c'', pValue = v, pVersion = n, pTTL = 0 \<rparr> \<rparr>"

definition demo_applied :: "applied list" where
  "demo_applied = [(demo_apply, 4, put_op 1 ''x'' 1), (demo_apply, 5, put_op 2 ''y'' 0)]"

definition demo_disk :: wal_file where
  "demo_disk = \<lparr> wfLines = map (Doc \<circ> marshal_Entry \<circ> applied_entry 0) demo_applied, wfTail = Blank \<rparr>"

definition demo_rsm :: "mem_db KVServer RSM" where
  "demo_rsm = fst (the (MakeRSM (kv_machine (mem_badger []) demo_env) (\<lambda>_. (0, 0))
     \<lparr> mkLeaseEnv = [], mkWal = None, mkSnapshot = NoPayload, mkLastIncluded = 3, mkReplay = plain_io, mkNow = 0 \<rparr>
     0 (-1) demo_kv))"

lemma demo_disk_entries: "lines_decode demo_disk" "wal_entries demo_disk = map (applied_entry 0) demo_applied"
  by (simp_all add: demo_disk_def demo_applied_def lines_decode_def wal_entries_def line_entries_def Entry_codec.dec_enc)

lemma demo_rsm_sm: "rsSm demo_rsm = demo_kv"
  by (simp add: demo_rsm_def MakeRSM_def Let_def)

lemma demo_logger_new: "NewLogger True True demo_disk True True = Some (the (NewLogger True True demo_disk True True))"
  by (simp add: NewLogger_def Let_def)

lemma demo_ascending: "ascending (sint (3 :: goint)) demo_applied"
  by (simp add: demo_applied_def)

theorem recovery_equals_application_witness:
  "\<exists>l' st. recoverFromWAL (kv_machine (mem_badger []) demo_env) (\<lambda>_. (40, 41)) plain_io
       (the (NewLogger True True demo_disk True True)) demo_kv 3 = (l', st, True)
    \<and> map_option (map_prod uncounted id) st = map_option (\<lambda>r. (uncounted (rsSm r), 5))
       (apply_commands (kv_machine (mem_badger []) demo_env) demo_rsm demo_applied)"
  using recovery_equals_application [OF demo_logger_new demo_disk_entries(1), of plain_io "[]" 0 demo_applied 3
      "\<lambda>_. (40, 41)" "mem_badger []" demo_env demo_rsm] demo_ascending
  by (simp add: plain_io_def demo_disk_entries demo_rsm_sm last_index_def)
     (simp add: demo_applied_def put_op_def replayable_def demo_apply_def)

text \<open>
  \<^bold>\<open>C28\<close>. Recovery over a store that already has the effects of the log is not harmless: a
  \<open>Put\<close> that was refused when it was applied (its version was that of a write still to come)
  succeeds when it is executed again after a restart, and replaces the value that was
  acknowledged to its client later.
\<close>

theorem replay_revives_refused_write:
  assumes "reliable_badger B content seen" "\<not> kvDead (rsSm rsm)" "local_shard E (rsSm rsm) k"
    "content (sdb (kvStore (rsSm rsm))) k = None"
    "opReq o1 = ReqPut \<lparr> pKey = k, pValue = x, pVersion = 1, pTTL = 0 \<rparr>"
    "opReq o2 = ReqPut \<lparr> pKey = k, pValue = y, pVersion = 0, pTTL = 0 \<rparr>"
    "sint n < sint i" "sint i < sint j"
    "apply_commands (kv_machine B E) rsm [(X, i, o1), (Y, j, o2)] = Some rsm'"
    "NewLogger True True disk True sync = Some l" "lines_decode disk"
    "rp_sync_ok io" "rp_open_ok io" "rp_read io = None"
    "wal_entries disk = map (applied_entry me) [(X, i, o1), (Y, j, o2)]"
    "\<not> kvDead kv0" "local_shard E kv0 k" "content (sdb (kvStore kv0)) = content (sdb (kvStore (rsSm rsm')))"
  shows "content (sdb (kvStore (rsSm rsm'))) k = Some (marshal_kvEntry \<lparr> eValue = y, eVersion = 1, eExpires = 0 \<rparr>)
    \<and> (\<exists>l' s'. recoverFromWAL (kv_machine B E) clk io l kv0 n = (l', Some (s', j), True)
        \<and> content (sdb (kvStore s')) k = Some (marshal_kvEntry \<lparr> eValue = x, eVersion = 2, eExpires = 0 \<rparr>))"
proof -
  note put = put_applied [OF assms(1)]
  let ?m = "\<lambda>v n. Some \<lparr> eValue = v, eVersion = n, eExpires = 0 \<rparr> :: kvEntry option"
  obtain s1 r1 where 1: "smDoOp (kv_machine B E) (aeClock X) (rsSm rsm) (opReq o1) = Some (s1, r1)"
    "\<not> kvDead s1" "local_shard E s1 k" "content (sdb (kvStore s1)) k = map_option marshal_kvEntry None"
    using put [OF assms(5,2,3), of None "aeClock X"] assms(4) by (auto simp: cas_spec_def)
  obtain m1 f1 where m1: "applyCommand (kv_machine B E) X rsm i (Some o1) = Some (m1, f1)" "rsSm m1 = s1"
    using applyCommand_Some [OF 1(1)] by blast
  obtain s2 r2 where 2: "smDoOp (kv_machine B E) (aeClock Y) s1 (opReq o2) = Some (s2, r2)"
    "content (sdb (kvStore s2)) k = map_option marshal_kvEntry (?m y 1)"
    using put [OF assms(6) 1(2-4), of "aeClock Y"] by (auto simp: cas_spec_def)
  obtain m2 f2 where m2: "applyCommand (kv_machine B E) Y m1 j (Some o2) = Some (m2, f2)" "rsSm m2 = s2"
    using applyCommand_Some [of _ Y m1 o2] 2(1) m1(2) by blast
  have after: "content (sdb (kvStore (rsSm rsm'))) k = map_option marshal_kvEntry (?m y 1)"
    using assms(9) m1 m2 2(2) by auto
  obtain s3 r3 where 3: "smDoOp (kv_machine B E) (clk i) kv0 (opReq o1) = Some (s3, r3)"
    "\<not> kvDead s3" "local_shard E s3 k" "content (sdb (kvStore s3)) k = map_option marshal_kvEntry (?m x 2)"
    using put [OF assms(5,16,17), of "?m y 1" "clk i"] after assms(18) by (auto simp: cas_spec_def)
  obtain s4 r4 where 4: "smDoOp (kv_machine B E) (clk j) s3 (opReq o2) = Some (s4, r4)"
    "content (sdb (kvStore s4)) k = map_option marshal_kvEntry (?m x 2)"
    using put [OF assms(6) 3(2-4), of "clk j"] by (auto simp: cas_spec_def)
  have "run_handler (recover_entry (kv_machine B E) clk n) (wal_entries disk) (Some (kv0, n)) = (Some (s4, j), None)"
    using 3(1) 4(1) assms(5-8)
    by (simp add: assms(15) applied_entry_def recover_entry_def entry_request replayable_def read_only_def Let_def)
  from recover_replayed [OF assms(10-14) this] show ?thesis using after 4(2) by fastforce
qed

theorem replay_revives_refused_write_witness:
  "\<exists>rsm' l' s'. apply_commands (kv_machine (mem_badger []) demo_env) demo_rsm demo_applied = Some rsm'
    \<and> map_of (sdb (kvStore (rsSm rsm'))) ''c'' = Some (marshal_kvEntry \<lparr> eValue = ''y'', eVersion = 1, eExpires = 0 \<rparr>)
    \<and> recoverFromWAL (kv_machine (mem_badger []) demo_env) (\<lambda>_. (50, 51)) plain_io
        (the (NewLogger True True demo_disk True True)) (demo_kv\<lparr> kvTxMgr := NewTxManager (kvStore (rsSm rsm')) 1 None \<rparr>) 3
      = (l', Some (s', 5), True)
    \<and> map_of (sdb (kvStore s')) ''c'' = Some (marshal_kvEntry \<lparr> eValue = ''x'', eVersion = 2, eExpires = 0 \<rparr>)"
proof -
  have h: "\<not> kvDead demo_kv" "local_shard demo_env demo_kv ''c''" "map_of (sdb (kvStore demo_kv)) ''c'' = None"
    by code_simp+
  have ops: "opReq (put_op 1 ''x'' 1) = ReqPut \<lparr> pKey = ''c'', pValue = ''x'', pVersion = 1, pTTL = 0 \<rparr>"
    "opReq (put_op 2 ''y'' 0) = ReqPut \<lparr> pKey = ''c'', pValue = ''y'', pVersion = 0, pTTL = 0 \<rparr>"
    by (simp_all add: put_op_def)
  obtain s1 r1 where 1: "smDoOp (kv_machine (mem_badger []) demo_env) (aeClock demo_apply) (rsSm demo_rsm) (opReq (put_op 1 ''x'' 1)) = Some (s1, r1)"
    "\<not> kvDead s1" "local_shard demo_env s1 ''c''" "map_of (sdb (kvStore s1)) ''c'' = map_option marshal_kvEntry None"
    using put_applied [OF reliable_mem.reliable_badger_axioms ops(1), of demo_kv demo_env None "aeClock demo_apply"] h
    by (auto simp: cas_spec_def demo_rsm_sm)
  obtain s2 r2 where 2: "smDoOp (kv_machine (mem_badger []) demo_env) (aeClock demo_apply) s1 (opReq (put_op 2 ''y'' 0)) = Some (s2, r2)"
    using put_applied [OF reliable_mem.reliable_badger_axioms ops(2) 1(2-4), of "aeClock demo_apply"] by auto
  obtain m1 f1 where m1: "applyCommand (kv_machine (mem_badger []) demo_env) demo_apply demo_rsm 4 (Some (put_op 1 ''x'' 1)) = Some (m1, f1)" "rsSm m1 = s1"
    using applyCommand_Some [OF 1(1)] by blast
  obtain m2 f2 where m2: "applyCommand (kv_machine (mem_badger []) demo_env) demo_apply m1 5 (Some (put_op 2 ''y'' 0)) = Some (m2, f2)"
    using applyCommand_Some [of _ demo_apply m1 "put_op 2 ''y'' 0"] 2 m1(2) by blast
  have ap: "apply_commands (kv_machine (mem_badger []) demo_env) demo_rsm demo_applied = Some m2"
    using m1(1) m2 by (simp add: demo_applied_def)
  note R = replay_revives_refused_write [OF reliable_mem.reliable_badger_axioms _ _ _ ops _ _ ap [unfolded demo_applied_def]
      demo_logger_new demo_disk_entries(1) _ _ _ demo_disk_entries(2) [unfolded demo_applied_def],
      of 3 plain_io "demo_kv\<lparr> kvTxMgr := NewTxManager (kvStore (rsSm m2)) 1 None \<rparr>" "\<lambda>_. (50, 51)"]
  show ?thesis using R h ap by (fastforce simp: demo_rsm_sm plain_io_def NewTxManager_def local_shard_def)
qed

end
