(* ===== verification/Rsm_Submit.thy ===== *)
theory Rsm_Submit
  imports Rsm_Recovery
begin

text \<open>
  What \<open>Submit\<close> answers (theory \<open>Rsm\<close>), over every interleaving of callers, the apply loop,
  snapshots, truncation and shutdown. A run keeps the history of the operations the state
  machine executed for the log, with their results.
\<close>

section \<open>Runs\<close>

text \<open>What an iteration of the apply loop adds to the history.\<close>

definition loop_history ::
  "('s, 'd) StateMachine \<Rightarrow> apply_env \<Rightarrow> 's RSM \<Rightarrow> 'd ApplyMsg option \<Rightarrow> (Op \<times> Reply) list" where
  "loop_history M X rsm msg =
     (case msg of
        Some (CommandMsg i (Some oper)) \<Rightarrow>
          if rsShutdown rsm then []
          else (case smDoOp M (aeClock X) (rsSm rsm) (opReq oper) of None \<Rightarrow> [] | Some (s, r) \<Rightarrow> [(oper, r)])
      | _ \<Rightarrow> [])"

inductive rsm_step ::
  "('s, 'd) StateMachine \<Rightarrow> 's RSM \<times> (Op \<times> Reply) list \<Rightarrow> 's RSM \<times> (Op \<times> Reply) list \<Rightarrow> bool" for M where
  s_begin: "Submit_begin start rsm req = (rsm', r) \<Longrightarrow> rsm_step M (rsm, h) (rsm', h)"
| s_return: "Submit_return rsm (p, index) wk = Some (rsm', r) \<Longrightarrow> p < length (rsOps rsm)
    \<Longrightarrow> rsm_step M (rsm, h) (rsm', h)"
| s_lease: "SubmitLeaseReadWithMode M start leased now rsm req = Some (rsm', r) \<Longrightarrow> rsm_step M (rsm, h) (rsm', h)"
| s_loop: "applyLoop_step M X wt wd rsm msg = Some (rsm', effs, b)
    \<Longrightarrow> rsm_step M (rsm, h) (rsm', h @ loop_history M X rsm msg)"
| s_snapshot: "createSnapshot M now rsm i = (rsm', effs) \<Longrightarrow> rsm_step M (rsm, h) (rsm', h)"
| s_truncate: "rsm_step M (rsm, h) (truncate_done io rsm i, h)"
| s_close: "rsm_Close w c rsm = Some (rsm', effs :: 'd effect list) \<Longrightarrow> rsm_step M (rsm, h) (rsm', h)"
| s_enable: "rsm_step M (rsm, h) (EnableLeaseRead rsm b, h)"
| s_listen: "rsm_step M (rsm, h) (RegisterOpCompleteListener rsm, h)"

section \<open>The invariant\<close>

text \<open>A waiting operation: its result is that of an equal operation, and it has one when told so.\<close>

definition waiter_ok :: "(Op \<times> Reply) list \<Rightarrow> waitingOp \<Rightarrow> bool" where
  "waiter_ok h w \<longleftrightarrow>
     (\<forall>r. woResult w = Some r \<longrightarrow> (\<exists>oper. (oper, r) \<in> set h \<and> opEquals (woOper w) oper)) \<and>
     (True \<in> set (woDone w) \<longrightarrow> woResult w \<noteq> None)"

definition rsm_ok :: "'s RSM \<times> (Op \<times> Reply) list \<Rightarrow> bool" where
  "rsm_ok st = (case st of (rsm, h) \<Rightarrow>
     ran (rsWaitingOps rsm) \<subseteq> {..< length (rsOps rsm)} \<and> (\<forall>w \<in> set (rsOps rsm). waiter_ok h w))"

lemma waiter_ok_signal: "waiter_ok h w \<Longrightarrow> waiter_ok h (signal False w)"
  by (auto simp: waiter_ok_def signal_def)

lemma waiter_ok_later: "waiter_ok h w \<Longrightarrow> waiter_ok (h @ h') w"
  by (fastforce simp: waiter_ok_def)

lemma rsm_ok_later: "rsm_ok (rsm, h) \<Longrightarrow> rsm_ok (rsm, h @ h')"
  by (auto simp: rsm_ok_def intro: waiter_ok_later)

lemma ran_delete: "ran (m(k := None)) \<subseteq> ran m"
  by (auto simp: ran_def)

lemma rsm_ok_update:
  assumes "rsm_ok (rsm, h)" "rsOps rsm' = (rsOps rsm)[p := w]" "waiter_ok h w"
    "ran (rsWaitingOps rsm') \<subseteq> ran (rsWaitingOps rsm)"
  shows "rsm_ok (rsm', h)"
  using assms by (auto simp: rsm_ok_def dest!: subsetD [OF set_update_subset_insert])

lemma signal_waiting_ok:
  assumes "rsm_ok (rsm, h)" shows "rsm_ok (signal_waiting False rsm i, h)"
proof (cases "rsWaitingOps rsm i")
  case (Some p)
  then have "p < length (rsOps rsm)" using assms by (auto simp: rsm_ok_def ran_def)
  then have "waiter_ok h (signal False (rsOps rsm ! p))" using assms by (auto simp: rsm_ok_def intro: waiter_ok_signal)
  then show ?thesis using assms Some by (intro rsm_ok_update [OF assms]) (auto simp: signal_waiting_def signal_at_def)
qed (use assms in \<open>simp add: signal_waiting_def\<close>)

lemma signal_all_ok: "rsm_ok (rsm, h) \<Longrightarrow> rsm_ok (signal_all rsm, h)"
  by (auto simp: rsm_ok_def signal_all_def in_set_enumerate_eq intro!: waiter_ok_signal)

lemma rsm_ok_alloc:
  assumes "rsm_ok (rsm, h)"
  shows "rsm_ok (rsm\<lparr> rsOps := rsOps rsm @ [\<lparr> woOper = oper, woResult = None, woDone = [] \<rparr>],
                      rsWaitingOps := (rsWaitingOps rsm)(i \<mapsto> length (rsOps rsm)) \<rparr>, h)"
proof -
  have "ran ((rsWaitingOps rsm)(i \<mapsto> length (rsOps rsm))) \<subseteq> insert (length (rsOps rsm)) (ran (rsWaitingOps rsm))"
    by (auto simp: ran_def)
  moreover have "ran (rsWaitingOps rsm) \<subseteq> {..< length (rsOps rsm)}" using assms by (simp add: rsm_ok_def)
  ultimately have "ran ((rsWaitingOps rsm)(i \<mapsto> length (rsOps rsm))) \<subseteq> {..< Suc (length (rsOps rsm))}"
    unfolding lessThan_Suc by blast
  then show ?thesis using assms by (simp add: rsm_ok_def waiter_ok_def)
qed

lemma Submit_begin_ok:
  assumes "Submit_begin start rsm req = (rsm', r)" "rsm_ok (rsm, h)"
  shows "rsm_ok (rsm', h)"
proof -
  define rsm1 where "rsm1 = rsm\<lparr> rsIdCounter := rsIdCounter rsm + 1 \<rparr>"
  have g: "genID rsm = (rsm1, rsIdCounter rsm + 1)" by (simp only: genID_def rsm1_def)
  define oper where "oper = \<lparr> opMe = rsMe rsm, opId = rsIdCounter rsm + 1, opReq = req \<rparr>"
  have 1: "rsm_ok (rsm1, h)" using assms(2) by (simp add: rsm1_def rsm_ok_def)
  obtain i l where st: "start oper = (i, l)" by (rule prod.exhaust)
  note E = assms(1) [unfolded Submit_begin_def g prod.case Let_def, folded oper_def, unfolded st prod.case]
  show ?thesis
  proof (cases "rsShutdown rsm \<or> \<not> l")
    case True
    then have "rsm' = rsm \<or> rsm' = rsm1" using E by (auto split: if_splits)
    then show ?thesis using assms(2) 1 by blast
  next
    case False
    then have "rsm' = (signal_waiting False rsm1 i)\<lparr>
        rsOps := rsOps (signal_waiting False rsm1 i) @ [\<lparr> woOper = oper, woResult = None, woDone = [] \<rparr>],
        rsWaitingOps := (rsWaitingOps (signal_waiting False rsm1 i))(i \<mapsto> length (rsOps (signal_waiting False rsm1 i))) \<rparr>"
      using E by simp
    then show ?thesis using rsm_ok_alloc [OF signal_waiting_ok [OF 1]] by blast
  qed
qed

lemma Submit_return_ok:
  assumes "Submit_return rsm (p, index) wk = Some (rsm', r)" "p < length (rsOps rsm)" "rsm_ok (rsm, h)"
  shows "rsm_ok (rsm', h)"
proof (cases "wk = WakeDone")
  case True
  have "waiter_ok h ((rsOps rsm ! p)\<lparr> woDone := [] \<rparr>)" using assms(2,3) by (auto simp: rsm_ok_def waiter_ok_def)
  then show ?thesis
    using assms True ran_delete [of "rsWaitingOps rsm" index]
    by (intro rsm_ok_update [OF assms(3)]) (auto simp: Submit_return_def Let_def split: list.splits)
next
  case False
  then have "rsOps rsm' = rsOps rsm" "ran (rsWaitingOps rsm') \<subseteq> ran (rsWaitingOps rsm)"
    using assms(1) ran_delete [of "rsWaitingOps rsm" index]
    by (auto simp: Submit_return_def Let_def split: wake.splits if_splits)
  then show ?thesis using assms(3) by (auto simp: rsm_ok_def)
qed

lemma answer_waiting_ok:
  assumes "rsm_ok (rsm, h)"
  shows "rsm_ok (answer_waiting rsm i oper r, h @ [(oper, r)])"
proof (cases "rsWaitingOps rsm i")
  case (Some p)
  let ?w = "rsOps rsm ! p"
  have p: "p < length (rsOps rsm)" using assms Some by (auto simp: rsm_ok_def ran_def)
  then have w: "waiter_ok h ?w" using assms by (simp add: rsm_ok_def)
  show ?thesis
  proof (cases "opEquals (woOper ?w) oper")
    case True
    have "waiter_ok (h @ [(oper, r)]) (signal True (?w\<lparr> woResult := Some r \<rparr>))"
      using w True by (auto simp: waiter_ok_def signal_def)
    then show ?thesis
      using Some p True by (intro rsm_ok_update [OF rsm_ok_later [OF assms]]) (auto simp: answer_waiting_def signal_at_def)
  next
    case False
    show ?thesis
      using Some p False waiter_ok_later [OF waiter_ok_signal [OF w]]
      by (intro rsm_ok_update [OF rsm_ok_later [OF assms]]) (auto simp: answer_waiting_def signal_at_def)
  qed
qed (use rsm_ok_later [OF assms] in \<open>simp add: answer_waiting_def\<close>)

lemma log_command_frame [simp]:
  "rsOps (log_command X rsm i oper) = rsOps rsm" "rsWaitingOps (log_command X rsm i oper) = rsWaitingOps rsm"
  by (simp_all add: log_command_def split: option.split)

lemma truncateWALAsync_frame:
  "truncateWALAsync rsm i = (rsm', effs) \<Longrightarrow> rsOps rsm' = rsOps rsm \<and> rsWaitingOps rsm' = rsWaitingOps rsm"
  by (auto simp: truncateWALAsync_def split: option.splits if_splits)

lemma applySnapshot_frame:
  "applySnapshot M now rsm i d = Some (rsm', effs) \<Longrightarrow> rsOps rsm' = rsOps rsm \<and> rsWaitingOps rsm' = rsWaitingOps rsm"
  by (auto simp: applySnapshot_def Let_def split: if_splits payload.splits option.splits dest!: truncateWALAsync_frame)

lemma applyCommand_ok:
  assumes "applyCommand M X rsm i c = Some (rsm', effs)" "rsm_ok (rsm, h)" "\<not> rsShutdown rsm"
  shows "rsm_ok (rsm', h @ loop_history M X rsm (Some (CommandMsg i c)))"
proof (cases c)
  case None
  then show ?thesis using assms by (simp add: applyCommand_def loop_history_def)
next
  case (Some oper)
  then obtain s r where d: "smDoOp M (aeClock X) (rsSm rsm) (opReq oper) = Some (s, r)"
    using assms(1) by (auto simp: applyCommand_def Let_def split: option.splits)
  let ?l = "log_command X rsm i oper"
  let ?r = "?l\<lparr> rsSm := s, rsLastApplied := (if sint i > sint (rsLastApplied ?l) then i else rsLastApplied ?l) \<rparr>"
  have "rsm_ok (?r, h)" using assms(2) by (simp add: rsm_ok_def)
  from answer_waiting_ok [OF this, of i oper r] show ?thesis
    using assms(1,3) Some d
    by (auto simp: applyCommand_def loop_history_def Let_def rsm_ok_def split: if_splits)
qed

lemma applyLoop_step_ok:
  assumes "applyLoop_step M X wt wd rsm msg = Some (rsm', effs, b)" "rsm_ok (rsm, h)"
  shows "rsm_ok (rsm', h @ loop_history M X rsm msg)"
proof -
  let ?r = "rsm\<lparr> rsBlockedNanos := rsBlockedNanos rsm + wt \<rparr>"
  have r: "rsm_ok (?r, h)" using assms(2) by (simp add: rsm_ok_def)
  have lh: "loop_history M X ?r msg = loop_history M X rsm msg"
    by (simp add: loop_history_def split: option.split ApplyMsg.split)
  consider (closed) "msg = None" | (down) m where "msg = Some m" "rsShutdown rsm"
    | (cmd) i c where "msg = Some (CommandMsg i c)" "\<not> rsShutdown rsm"
    | (snap) i d where "msg = Some (SnapshotMsg i d)" "\<not> rsShutdown rsm"
    by (cases msg; cases "the msg") auto
  then show ?thesis
  proof cases
    case closed
    then show ?thesis
      using assms signal_all_ok [of "?r\<lparr> rsShutdown := True \<rparr>" h] r
      by (simp add: applyLoop_step_def loop_history_def rsm_kill_def rsm_ok_def)
  next
    case down
    then show ?thesis
      using assms r rsm_ok_later by (auto simp: applyLoop_step_def Let_def)
  next
    case cmd
    then obtain r1 where r1: "applyCommand M X ?r i c = Some (r1, effs)"
      "rsm' = r1\<lparr> rsProcessNanos := rsProcessNanos r1 + wd, rsIterCount := rsIterCount r1 + 1 \<rparr>"
      using assms(1) by (auto simp: applyLoop_step_def Let_def)
    have "rsm_ok (r1, h @ loop_history M X ?r msg)" using applyCommand_ok [OF r1(1) r] cmd by simp
    then show ?thesis using r1(2) lh by (simp add: rsm_ok_def)
  next
    case snap
    then obtain r1 where r1: "applySnapshot M (aeTime X) ?r i d = Some (r1, effs)"
      "rsm' = r1\<lparr> rsProcessNanos := rsProcessNanos r1 + wd, rsIterCount := rsIterCount r1 + 1 \<rparr>"
      using assms(1) by (auto simp: applyLoop_step_def Let_def)
    then show ?thesis using applySnapshot_frame [OF r1(1)] r snap by (simp add: rsm_ok_def loop_history_def)
  qed
qed

lemma lease_read_ok:
  assumes "SubmitLeaseReadWithMode M start leased now rsm req = Some (rsm', r)" "rsm_ok (rsm, h)"
  shows "rsm_ok (rsm', h)"
proof (cases "\<not> rsLeaseRead rsm \<or> \<not> leased")
  case True
  then have "Submit_begin start rsm req = (rsm', snd (Submit_begin start rsm req))"
    using assms(1) by (cases "Submit_begin start rsm req") (auto simp: SubmitLeaseReadWithMode_def)
  then show ?thesis using assms(2) by (rule Submit_begin_ok)
next
  case False
  then show ?thesis using assms by (auto simp: SubmitLeaseReadWithMode_def rsm_ok_def split: option.splits)
qed

lemma createSnapshot_frame:
  "createSnapshot M now rsm i = (rsm', effs) \<Longrightarrow> rsOps rsm' = rsOps rsm \<and> rsWaitingOps rsm' = rsWaitingOps rsm"
  by (auto simp: createSnapshot_def split: if_splits prod.splits dest!: truncateWALAsync_frame)

lemma rsm_Close_ok:
  assumes "rsm_Close w c rsm = Some (rsm', effs)" "rsm_ok (rsm, h)"
  shows "rsm_ok (rsm', h)"
proof -
  have "rsm_ok (rsm\<lparr> rsShutdown := True, rsWatchMgr := wm, rsWal := l \<rparr>, h)" for wm l
    using assms(2) by (simp add: rsm_ok_def)
  then show ?thesis
    using assms signal_all_ok by (auto simp: rsm_Close_def split: if_splits option.splits)
qed

lemma rsm_step_ok: "rsm_step M st st' \<Longrightarrow> rsm_ok st \<Longrightarrow> rsm_ok st'"
proof (induction rule: rsm_step.induct)
  case (s_snapshot now rsm i rsm' effs h)
  then show ?case using createSnapshot_frame [OF s_snapshot(1)] by (simp add: rsm_ok_def)
next
  case (s_truncate rsm h io i)
  then show ?case by (simp add: truncate_done_def rsm_ok_def split: option.split)
next
  case (s_enable rsm h b)
  then show ?case by (simp add: EnableLeaseRead_def rsm_ok_def)
next
  case (s_listen rsm h)
  then show ?case by (simp add: RegisterOpCompleteListener_def rsm_ok_def)
qed (blast intro: Submit_begin_ok Submit_return_ok lease_read_ok applyLoop_step_ok rsm_Close_ok)+

text \<open>No caller waits.\<close>

definition rsm_idle :: "'s RSM \<Rightarrow> bool" where
  "rsm_idle rsm \<longleftrightarrow> rsOps rsm = [] \<and> rsWaitingOps rsm = Map.empty"

interpretation rsm_run: invariant_system "\<lambda>st. rsm_idle (fst st) \<and> snd st = []" "rsm_step M" rsm_ok for M
proof
  fix st :: "'a RSM \<times> (Op \<times> Reply) list"
  assume "rsm_idle (fst st) \<and> snd st = []"
  then show "rsm_ok st" by (cases st) (simp add: rsm_ok_def rsm_idle_def)
qed (rule rsm_step_ok)

section \<open>Properties\<close>

text \<open>
  \<^bold>\<open>C29\<close>. Over every run of callers, apply loop, snapshots and shutdown: when \<open>Submit\<close>
  returns \<open>OK\<close>, it returns the result that the state machine gave when it executed, for the
  log, an operation with the node and number of the one submitted.
\<close>

theorem Submit_answers_own_operation:
  assumes "rsm_idle rsm0" "(rsm_step M)\<^sup>*\<^sup>* (rsm0, []) (rsm, h)" "p < length (rsOps rsm)"
    "Submit_return rsm (p, index) wk = Some (rsm', OK, res)"
  shows "\<exists>oper r. res = Some r \<and> (oper, r) \<in> set h \<and> opEquals (woOper (rsOps rsm ! p)) oper"
proof -
  have "rsm_ok (rsm, h)" using rsm_run.steps_inv [OF assms(2)] rsm_run.inv_init assms(1) by fastforce
  then have w: "waiter_ok h (rsOps rsm ! p)" using assms(3) by (simp add: rsm_ok_def)
  have "woDone (rsOps rsm ! p) \<noteq> [] \<and> hd (woDone (rsOps rsm ! p)) \<and> res = woResult (rsOps rsm ! p)"
    using assms(4) by (auto simp: Submit_return_def Let_def split: wake.splits if_splits list.splits)
  then show ?thesis using w by (cases "woDone (rsOps rsm ! p)") (auto simp: waiter_ok_def)
qed

definition get_op :: Op where
  "get_op = \<lparr> opMe = 0, opId = 1, opReq = ReqGet \<lparr> gKey = ''a'' \<rparr> \<rparr>"

theorem Submit_answers_own_operation_witness:
  "\<exists>rsm h rsm' oper r. (rsm_step (kv_machine (mem_badger []) demo_env))\<^sup>*\<^sup>* (demo_rsm, []) (rsm, h)
     \<and> Submit_return rsm (0, 7) WakeDone = Some (rsm', OK, Some r)
     \<and> (oper, r) \<in> set h \<and> opEquals get_op oper"
proof -
  let ?M = "kv_machine (mem_badger []) demo_env"
  have d: "rsOps demo_rsm = []" "rsWaitingOps demo_rsm = Map.empty" "\<not> rsShutdown demo_rsm" "rsWal demo_rsm = None"
    "rsMe demo_rsm = 0" "rsIdCounter demo_rsm = 0" "rsMaxraftstate demo_rsm = -1" "\<not> rsListener demo_rsm"
    by (simp_all add: demo_rsm_def MakeRSM_def Let_def)
  obtain s r where op: "smDoOp ?M (40, 41) demo_kv (opReq get_op) = Some (s, r)"
    by (cases "doGet (mem_badger []) demo_env 40 demo_kv \<lparr> gKey = ''a'' \<rparr>")
       (simp add: kv_machine_def DoOp_def get_op_def)
  define r1 where "r1 = fst (Submit_begin (\<lambda>_. (7, True)) demo_rsm (opReq get_op))"
  have r1: "rsOps r1 = [\<lparr> woOper = get_op, woResult = None, woDone = [] \<rparr>]" "rsWaitingOps r1 = [7 \<mapsto> 0]"
    "\<not> rsShutdown r1" "rsSm r1 = demo_kv" "rsWal r1 = None" "rsMaxraftstate r1 = -1" "\<not> rsListener r1"
    by (simp_all add: r1_def Submit_begin_def genID_def signal_waiting_def d demo_rsm_sm get_op_def Let_def)
  obtain r2 where r2: "applyLoop_step ?M demo_apply 1 1 r1 (Some (CommandMsg 7 (Some get_op))) = Some (r2, [], True)"
    "rsOps r2 = [\<lparr> woOper = get_op, woResult = Some r, woDone = [True] \<rparr>]"
    using op
    by (simp add: applyLoop_step_def applyCommand_def log_command_def answer_waiting_def shouldCreateSnapshot_def
          signal_at_def signal_def opEquals_def r1 demo_apply_def Let_def)
  have h: "loop_history ?M demo_apply r1 (Some (CommandMsg 7 (Some get_op))) = [(get_op, r)]"
    using op r1 by (simp add: loop_history_def demo_apply_def)
  have b: "rsm_step ?M (demo_rsm, []) (r1, [])"
    unfolding r1_def by (rule s_begin [OF prod.collapse [symmetric]])
  have l: "rsm_step ?M (r1, []) (r2, [(get_op, r)])"
    using s_loop [OF r2(1), of "[]"] h by simp
  have run: "(rsm_step ?M)\<^sup>*\<^sup>* (demo_rsm, []) (r2, [(get_op, r)])"
    by (rule converse_rtranclp_into_rtranclp, rule b, rule r_into_rtranclp, rule l)
  obtain r3 where r3: "Submit_return r2 (0, 7) WakeDone = Some (r3, OK, Some r)"
    by (simp add: Submit_return_def r2(2) Let_def)
  have "\<exists>oper r'. Some r = Some r' \<and> (oper, r') \<in> set [(get_op, r)] \<and> opEquals (woOper (rsOps r2 ! 0)) oper"
    by (rule Submit_answers_own_operation [OF _ run _ r3]) (simp_all add: rsm_idle_def d r2(2))
  then show ?thesis
    using run r3 by (intro exI [of _ r2] exI [of _ "[(get_op, r)]"] exI [of _ r3] exI [of _ get_op] exI [of _ r])
      (auto simp: r2(2))
qed

end
