(* ===== verification/Raft.thy ===== *)
theory Raft
  imports Prelude
begin

text \<open>
  One Raft node (\<^verbatim>\<open>src/pkg/raft/raft.go\<close>): elections, replication, commitment, snapshots and
  delivery, every handler with the persistence request it makes. Terms and indices count
  events of one cluster and stay far below \<open>2\<^sup>6\<^sup>3\<close>; they are integers. Commands are a type
  parameter. A handler takes the clock as a parameter; \<open>None\<close> is a run-time panic (an index
  outside the log).
\<close>

section \<open>State\<close>

datatype role = Follower | Candidate | Leader

text \<open>\<open>None\<close> is the nil command of the entry at the head of a log.\<close>

record 'c LogEntry =
  leTerm :: int
  leCommand :: "'c option"

text \<open>
  \<open>rfLeaseDur\<close> is the heartbeat interval times the lease ratio. The cache of the encoded state
  is modelled with the encoding, in theory \<open>Raft_Persist\<close>.
\<close>

record 'c Raft =
  rfPeers :: nat
  rfMe :: nat
  rfDead :: bool
  rfVotes :: int
  rfState :: role
  rfElectionTimeout :: int
  rfLastHeard :: int
  rfCurrentTerm :: int
  rfVotedFor :: int
  rfLog :: "'c LogEntry list"
  rfCommitIndex :: int
  rfLastApplied :: int
  rfPersistedIndex :: int
  rfNextIndex :: "int list"
  rfMatchIndex :: "int list"
  rfLeaseDur :: int
  rfLeaseUntil :: int
  rfLastIncludedIndex :: int
  rfLastIncludedTerm :: int

text \<open>
  What is written to disk: the hard state (term and vote) alone, or the whole persistent state,
  with a snapshot when there is a new one.
\<close>

record 'c persistent =
  psTerm :: int
  psVote :: int
  psLastIncludedIndex :: int
  psLastIncludedTerm :: int
  psLog :: "'c LogEntry list"

datatype ('c, 'd) persist_req = PersistHard int int | PersistState "'c persistent" "'d option"

definition enqueuePersistHardStateLocked :: "'c Raft \<Rightarrow> ('c, 'd) persist_req" where
  "enqueuePersistHardStateLocked rf = PersistHard (rfCurrentTerm rf) (rfVotedFor rf)"

definition enqueuePersist :: "'c Raft \<Rightarrow> 'd option \<Rightarrow> ('c, 'd) persist_req" where
  "enqueuePersist rf snapshot =
     PersistState \<lparr> psTerm = rfCurrentTerm rf, psVote = rfVotedFor rf,
       psLastIncludedIndex = rfLastIncludedIndex rf, psLastIncludedTerm = rfLastIncludedTerm rf,
       psLog = rfLog rf \<rparr> snapshot"

section \<open>The log\<close>

definition getLastLogIndex :: "'c Raft \<Rightarrow> int" where
  "getLastLogIndex rf = rfLastIncludedIndex rf + int (length (rfLog rf)) - 1"

text \<open>The handlers call \<open>getTerm\<close> up to the last index only.\<close>

definition getTerm :: "'c Raft \<Rightarrow> int \<Rightarrow> int" where
  "getTerm rf index =
     (if index \<le> rfLastIncludedIndex rf then rfLastIncludedTerm rf
      else leTerm (rfLog rf ! nat (index - rfLastIncludedIndex rf)))"

definition getLastLogTerm :: "'c Raft \<Rightarrow> int" where
  "getLastLogTerm rf = (if rfLog rf = [] then rfLastIncludedTerm rf else getTerm rf (getLastLogIndex rf))"

definition raft_GetState :: "'c Raft \<Rightarrow> int \<times> bool" where
  "raft_GetState rf = (rfCurrentTerm rf, rfState rf = Leader)"

definition SyncAppliedIndex :: "'c Raft \<Rightarrow> int \<Rightarrow> 'c Raft" where
  "SyncAppliedIndex rf index0 =
     (let index1 = (if index0 < rfLastIncludedIndex rf then rfLastIncludedIndex rf else index0);
          index = (if index1 > getLastLogIndex rf then getLastLogIndex rf else index1)
      in rf\<lparr> rfCommitIndex := (if index > rfCommitIndex rf then index else rfCommitIndex rf),
             rfLastApplied := (if index > rfLastApplied rf then index else rfLastApplied rf) \<rparr>)"

section \<open>Leases\<close>

definition ms :: int where "ms = 1000000"

definition go_half :: "int \<Rightarrow> int" where
  "go_half x = (if x < 0 then - ((- x) div 2) else x div 2)"

definition leaseDurationLocked :: "'c Raft \<Rightarrow> int" where
  "leaseDurationLocked rf =
     (let m1 = rfElectionTimeout rf - 20 * ms;
          m2 = (if m1 \<le> 0 then go_half (rfElectionTimeout rf) else m1);
          maxLease = (if m2 \<le> 0 then 100 * ms else m2);
          d = (if rfLeaseDur rf > maxLease then maxLease else rfLeaseDur rf)
      in if d \<le> 0 then 100 * ms else d)"

definition IsLeaderWithLease :: "int \<Rightarrow> 'c Raft \<Rightarrow> bool" where
  "IsLeaderWithLease now rf \<longleftrightarrow> \<not> rfDead rf \<and> rfState rf = Leader \<and> now < rfLeaseUntil rf"

section \<open>Elections\<close>

record RequestVoteArgs =
  rvTerm :: int
  rvCandidateId :: int
  rvLastLogIndex :: int
  rvLastLogTerm :: int

record RequestVoteReply =
  rvrTerm :: int
  rvrVoteGranted :: bool

text \<open>The fall-back to follower when another node has a higher term.\<close>

definition stepDown :: "'c Raft \<Rightarrow> int \<Rightarrow> 'c Raft" where
  "stepDown rf t = rf\<lparr> rfCurrentTerm := t, rfState := Follower, rfLeaseUntil := 0, rfVotedFor := -1 \<rparr>"

definition resetElectionTimer :: "int \<Rightarrow> 'c Raft \<Rightarrow> 'c Raft" where
  "resetElectionTimer now rf = rf\<lparr> rfLastHeard := now \<rparr>"

text \<open>The reply is sent once the persistence request, if any, is done.\<close>

definition RequestVote ::
  "int \<Rightarrow> 'c Raft \<Rightarrow> RequestVoteArgs \<Rightarrow> 'c Raft \<times> RequestVoteReply \<times> ('c, 'd) persist_req option" where
  "RequestVote now rf args =
     (if rvTerm args < rfCurrentTerm rf
      then (rf, \<lparr> rvrTerm = rfCurrentTerm rf, rvrVoteGranted = False \<rparr>, None)
      else
        let newer = rvTerm args > rfCurrentTerm rf;
            rf1 = (if newer then rf\<lparr> rfCurrentTerm := rvTerm args, rfState := Follower, rfVotedFor := -1 \<rparr> else rf)
        in if rvLastLogTerm args < getLastLogTerm rf1
              \<or> (rvLastLogTerm args = getLastLogTerm rf1 \<and> rvLastLogIndex args < getLastLogIndex rf1)
           then (rf1, \<lparr> rvrTerm = rfCurrentTerm rf1, rvrVoteGranted = False \<rparr>,
                 if newer then Some (enqueuePersistHardStateLocked rf1) else None)
           else if rfVotedFor rf1 = -1 \<or> rfVotedFor rf1 = rvCandidateId args
           then let rf2 = resetElectionTimer now (rf1\<lparr> rfVotedFor := rvCandidateId args \<rparr>)
                in (rf2, \<lparr> rvrTerm = rfCurrentTerm rf2, rvrVoteGranted = True \<rparr>, Some (enqueuePersistHardStateLocked rf2))
           else (rf1, \<lparr> rvrTerm = rfCurrentTerm rf1, rvrVoteGranted = False \<rparr>,
                 if newer then Some (enqueuePersistHardStateLocked rf1) else None))"

definition becomeLeader :: "int \<Rightarrow> 'c Raft \<Rightarrow> 'c Raft" where
  "becomeLeader now rf =
     rf\<lparr> rfState := Leader, rfLeaseUntil := now + leaseDurationLocked rf,
         rfNextIndex := replicate (rfPeers rf) (getLastLogIndex rf + 1),
         rfMatchIndex := (replicate (rfPeers rf) 0)[rfMe rf := getLastLogIndex rf] \<rparr>"

text \<open>Whether a number of votes is more than half of the nodes.\<close>

definition majority :: "'c Raft \<Rightarrow> int \<Rightarrow> bool" where
  "majority rf n \<longleftrightarrow> n > int (rfPeers rf div 2)"

text \<open>The hard state is on disk when these two return: the request is waited for.\<close>

definition handleVoteResponse ::
  "int \<Rightarrow> 'c Raft \<Rightarrow> RequestVoteReply \<Rightarrow> 'c Raft \<times> ('c, 'd) persist_req option" where
  "handleVoteResponse now rf reply =
     (if rvrTerm reply > rfCurrentTerm rf
      then let rf1 = stepDown rf (rvrTerm reply) in (rf1, Some (enqueuePersistHardStateLocked rf1))
      else if rvrTerm reply < rfCurrentTerm rf then (rf, None)
      else if rfState rf \<noteq> Candidate then (rf, None)
      else if rvrVoteGranted reply
      then let rf1 = rf\<lparr> rfVotes := rfVotes rf + 1 \<rparr>
           in (if majority rf1 (rfVotes rf1) then becomeLeader now rf1 else rf1, None)
      else (rf, None))"

definition startElection ::
  "int \<Rightarrow> 'c Raft \<Rightarrow> 'c Raft \<times> RequestVoteArgs \<times> ('c, 'd) persist_req" where
  "startElection now rf =
     (let rf1 = rf\<lparr> rfState := Candidate, rfLeaseUntil := 0, rfCurrentTerm := rfCurrentTerm rf + 1,
                    rfVotedFor := int (rfMe rf) \<rparr>;
          rf2 = resetElectionTimer now (rf1\<lparr> rfVotes := 1 \<rparr>);
          rf3 = (if majority rf2 (rfVotes rf2) then becomeLeader now rf2 else rf2)
      in (rf3, \<lparr> rvTerm = rfCurrentTerm rf3, rvCandidateId = int (rfMe rf3),
                 rvLastLogIndex = getLastLogIndex rf3, rvLastLogTerm = getLastLogTerm rf3 \<rparr>,
          enqueuePersistHardStateLocked rf1))"

text \<open>One round of \<open>ticker\<close>: whether an election is to start.\<close>

definition ticker_due :: "int \<Rightarrow> 'c Raft \<Rightarrow> bool" where
  "ticker_due now rf \<longleftrightarrow> \<not> rfDead rf \<and> rfState rf \<noteq> Leader \<and> now - rfLastHeard rf > rfElectionTimeout rf"

section \<open>Replication\<close>

record 'c AppendEntriesArgs =
  aeTerm' :: int
  aeLeaderId :: nat
  aePrevLogIndex :: int
  aePrevLogTerm :: int
  aeEntries :: "'c LogEntry list"
  aeLeaderCommit :: int

record AppendEntriesReply =
  aerTerm :: int
  aerSuccess :: bool
  aerConflictTerm :: int
  aerConflictIndex :: int

text \<open>The loop that looks for the first index of the conflicting term.\<close>

function conflict_start :: "'c Raft \<Rightarrow> int \<Rightarrow> int \<Rightarrow> int" where
  "conflict_start rf t index =
     (if index > rfLastIncludedIndex rf \<and> getTerm rf (index - 1) = t then conflict_start rf t (index - 1)
      else index)"
  by pat_completeness auto
termination by (relation "measure (\<lambda>(rf, t, index). nat (index - rfLastIncludedIndex rf))") auto

text \<open>
  The loop of step 6, from the position \<open>i\<close> of the entries on: the position where it stops,
  and the length to which the log is cut, if it is.
\<close>

fun match_entries :: "'c Raft \<Rightarrow> int \<Rightarrow> 'c LogEntry list \<Rightarrow> nat \<Rightarrow> nat \<times> nat option" where
  "match_entries rf index [] i = (i, None)"
| "match_entries rf index (e # es) i =
     (if index > getLastLogIndex rf then (i, None)
      else if getTerm rf index \<noteq> leTerm e
      then let cut = nat (max 1 (index - rfLastIncludedIndex rf))
           in (i, if cut < length (rfLog rf) then Some cut else None)
      else match_entries rf (index + 1) es (i + 1))"

definition append_result ::
  "'c Raft \<Rightarrow> bool \<Rightarrow> int \<Rightarrow> int \<Rightarrow> 'c Raft \<times> AppendEntriesReply \<times> ('c, 'd) persist_req option" where
  "append_result rf hardPersistNeeded ct ci =
     (rf, \<lparr> aerTerm = rfCurrentTerm rf, aerSuccess = False, aerConflictTerm = ct, aerConflictIndex = ci \<rparr>,
      if hardPersistNeeded then Some (enqueuePersistHardStateLocked rf) else None)"

definition AppendEntries ::
  "int \<Rightarrow> 'c Raft \<Rightarrow> 'c AppendEntriesArgs
   \<Rightarrow> 'c Raft \<times> AppendEntriesReply \<times> ('c, 'd) persist_req option" where
  "AppendEntries now rf args =
     (if aeTerm' args < rfCurrentTerm rf then append_result rf False 0 0
      else
        let newer = aeTerm' args > rfCurrentTerm rf;
            rf0 = (if newer then rf\<lparr> rfCurrentTerm := aeTerm' args, rfVotedFor := -1 \<rparr> else rf);
            rf1 = resetElectionTimer now (rf0\<lparr> rfState := Follower \<rparr>)
        in if aePrevLogIndex args > getLastLogIndex rf1
           then append_result rf1 newer (-1) (getLastLogIndex rf1 + 1)
           else if aePrevLogIndex args < rfLastIncludedIndex rf1
           then append_result rf1 newer (-1) (rfLastIncludedIndex rf1 + 1)
           else if getTerm rf1 (aePrevLogIndex args) \<noteq> aePrevLogTerm args
           then append_result rf1 newer (getTerm rf1 (aePrevLogIndex args))
                  (conflict_start rf1 (getTerm rf1 (aePrevLogIndex args)) (aePrevLogIndex args))
           else
             let (i, cut) = match_entries rf1 (aePrevLogIndex args + 1) (aeEntries args) 0;
                 rf2 = (case cut of None \<Rightarrow> rf1 | Some n \<Rightarrow> rf1\<lparr> rfLog := take n (rfLog rf1) \<rparr>);
                 rf3 = (if i < length (aeEntries args) then rf2\<lparr> rfLog := rfLog rf2 @ drop i (aeEntries args) \<rparr> else rf2);
                 persistNeeded = (cut \<noteq> None \<or> i < length (aeEntries args));
                 rf4 = (if aeLeaderCommit args > rfCommitIndex rf3
                        then rf3\<lparr> rfCommitIndex := min (aeLeaderCommit args) (getLastLogIndex rf3) \<rparr> else rf3)
             in (rf4, \<lparr> aerTerm = rfCurrentTerm rf4, aerSuccess = True, aerConflictTerm = 0, aerConflictIndex = 0 \<rparr>,
                 if persistNeeded then Some (enqueuePersist rf3 None)
                 else if newer then Some (enqueuePersistHardStateLocked rf1) else None))"

text \<open>
  \<open>finalize\<close> and \<open>completePersistAsync\<close>, once a state with \<open>logCount\<close> entries is on disk.
\<close>

definition persist_done :: "'c Raft \<Rightarrow> int \<Rightarrow> 'c Raft" where
  "persist_done rf coveredIndex =
     (if coveredIndex > rfPersistedIndex rf then rf\<lparr> rfPersistedIndex := coveredIndex \<rparr> else rf)"

definition append_finalize :: "'c Raft \<Rightarrow> nat \<Rightarrow> 'c Raft" where
  "append_finalize rf logCount = persist_done rf (rfLastIncludedIndex rf + int logCount - 1)"

text \<open>The index, the term and whether this node leads.\<close>

definition raft_Start :: "'c Raft \<Rightarrow> 'c \<Rightarrow> 'c Raft \<times> (int \<times> int \<times> bool) \<times> ('c, 'd) persist_req option" where
  "raft_Start rf command =
     (if rfState rf \<noteq> Leader then (rf, (-1, rfCurrentTerm rf, False), None)
      else let rf1 = rf\<lparr> rfLog := rfLog rf @ [\<lparr> leTerm = rfCurrentTerm rf, leCommand = Some command \<rparr>] \<rparr>
           in (rf1, (getLastLogIndex rf + 1, rfCurrentTerm rf, True), Some (enqueuePersist rf1 None)))"

definition raft_Kill :: "'c Raft \<Rightarrow> 'c Raft" where
  "raft_Kill rf = rf\<lparr> rfDead := True \<rparr>"

section \<open>Snapshots\<close>

definition raft_Snapshot :: "'c Raft \<Rightarrow> int \<Rightarrow> 'd \<Rightarrow> ('c Raft \<times> ('c, 'd) persist_req option) option" where
  "raft_Snapshot rf index snapshot =
     (if index \<le> rfLastIncludedIndex rf then Some (rf, None)
      else if index > rfCommitIndex rf then Some (rf, None)
      else let offset = nat (index - rfLastIncludedIndex rf)
           in if offset \<ge> length (rfLog rf) then None
              else let t = leTerm (rfLog rf ! offset);
                       rf1 = rf\<lparr> rfLog := \<lparr> leTerm = t, leCommand = None \<rparr> # drop (offset + 1) (rfLog rf),
                                 rfLastIncludedIndex := index, rfLastIncludedTerm := t,
                                 rfLastApplied := (if rfLastApplied rf < index then index else rfLastApplied rf) \<rparr>
                   in Some (persist_done rf1 index, Some (enqueuePersist rf1 (Some snapshot))))"

record 'd InstallSnapshotArgs =
  isTerm :: int
  isLeaderId :: nat
  isLastIncludedIndex :: int
  isLastIncludedTerm :: int
  isData :: 'd

text \<open>The node, the term of the reply, the requests, and the message to the state machine.\<close>

definition InstallSnapshot ::
  "int \<Rightarrow> 'c Raft \<Rightarrow> 'd InstallSnapshotArgs
   \<Rightarrow> 'c Raft \<times> int \<times> ('c, 'd) persist_req list \<times> (int \<times> int \<times> 'd) option" where
  "InstallSnapshot now rf args =
     (if isTerm args < rfCurrentTerm rf then (rf, rfCurrentTerm rf, [], None)
      else
        let newer = isTerm args > rfCurrentTerm rf;
            rf0 = (if newer then stepDown rf (isTerm args) else rf);
            hard = (if newer then [enqueuePersistHardStateLocked rf0] else []);
            rf1 = resetElectionTimer now rf0
        in if isLastIncludedIndex args \<le> rfLastIncludedIndex rf1 then (rf1, rfCurrentTerm rf, hard, None)
           else
             let keep = isLastIncludedIndex args \<le> getLastLogIndex rf1
                        \<and> getTerm rf1 (isLastIncludedIndex args) = isLastIncludedTerm args;
                 offset = nat (isLastIncludedIndex args - rfLastIncludedIndex rf1);
                 rf2 = rf1\<lparr> rfLog := \<lparr> leTerm = isLastIncludedTerm args, leCommand = None \<rparr>
                                     # (if keep then drop (offset + 1) (rfLog rf1) else []),
                            rfLastIncludedIndex := isLastIncludedIndex args,
                            rfLastIncludedTerm := isLastIncludedTerm args,
                            rfCommitIndex := max (rfCommitIndex rf1) (isLastIncludedIndex args),
                            rfLastApplied := max (rfLastApplied rf1) (isLastIncludedIndex args) \<rparr>
             in (persist_done rf2 (isLastIncludedIndex args), rfCurrentTerm rf,
                 hard @ [enqueuePersist rf2 (Some (isData args))],
                 Some (isLastIncludedIndex args, isLastIncludedTerm args, isData args)))"

section \<open>Leading\<close>

text \<open>
  The goroutine that \<open>sendHeartbeats\<close> starts for a peer: what it sends. It reads the node as it
  finds it, which may have ceased to lead since \<open>sendHeartbeats\<close> looked. \<open>snap\<close> is the
  snapshot on disk, if it is not empty.
\<close>

datatype ('c, 'd) heartbeat =
    SendNothing
  | SendSnapshot "'d InstallSnapshotArgs"
  | SendEntries "'c AppendEntriesArgs"

definition heartbeat_send :: "'c Raft \<Rightarrow> nat \<Rightarrow> 'd option \<Rightarrow> ('c Raft \<times> ('c, 'd) heartbeat) option" where
  "heartbeat_send rf server snap =
     (if server \<ge> length (rfNextIndex rf) then None
      else
        let next = rfNextIndex rf ! server
        in if next \<le> rfLastIncludedIndex rf
           then (case snap of
                   None \<Rightarrow> Some (rf\<lparr> rfNextIndex := (rfNextIndex rf)[server := rfLastIncludedIndex rf + 1] \<rparr>, SendNothing)
                 | Some d \<Rightarrow>
                     Some (rf, SendSnapshot \<lparr> isTerm = rfCurrentTerm rf, isLeaderId = rfMe rf,
                       isLastIncludedIndex = rfLastIncludedIndex rf, isLastIncludedTerm = rfLastIncludedTerm rf,
                       isData = d \<rparr>))
           else
             let prevIndex = max 0 (next - 1);
                 pos = prevIndex - rfLastIncludedIndex rf;
                 start = nat (max 0 (next - rfLastIncludedIndex rf))
             in if prevIndex \<noteq> rfLastIncludedIndex rf \<and> (pos < 0 \<or> nat pos \<ge> length (rfLog rf)) then None
                else if start > length (rfLog rf) then None
                else Some (rf, SendEntries
                       \<lparr> aeTerm' = rfCurrentTerm rf, aeLeaderId = rfMe rf, aePrevLogIndex = prevIndex,
                         aePrevLogTerm = (if prevIndex = rfLastIncludedIndex rf then rfLastIncludedTerm rf
                                          else leTerm (rfLog rf ! nat pos)),
                         aeEntries = drop start (rfLog rf), aeLeaderCommit = rfCommitIndex rf \<rparr>))"

definition heartbeat_snapshot_reply ::
  "'c Raft \<Rightarrow> nat \<Rightarrow> int \<Rightarrow> 'c Raft \<times> ('c, 'd) persist_req option" where
  "heartbeat_snapshot_reply rf server replyTerm =
     (if replyTerm > rfCurrentTerm rf
      then let rf1 = stepDown rf replyTerm in (rf1, Some (enqueuePersistHardStateLocked rf1))
      else (rf\<lparr> rfNextIndex := (rfNextIndex rf)[server := rfLastIncludedIndex rf + 1],
                rfMatchIndex := (rfMatchIndex rf)[server := rfLastIncludedIndex rf] \<rparr>, None))"

text \<open>The nodes counted for an index: the leader when its own copy is on disk.\<close>

definition replicas_of :: "'c Raft \<Rightarrow> int \<Rightarrow> nat" where
  "replicas_of rf N =
     (if N \<le> rfPersistedIndex rf then 1 else 0)
     + length (filter (\<lambda>i. i \<noteq> rfMe rf \<and> rfMatchIndex rf ! i \<ge> N) [0..<rfPeers rf])"

text \<open>The loop that advances \<open>CommitIndex\<close>, from \<open>N\<close> down.\<close>

function advance_commit :: "'c Raft \<Rightarrow> int \<Rightarrow> 'c Raft" where
  "advance_commit rf N =
     (if \<not> (N > rfCommitIndex rf \<and> N \<ge> 1) then rf
      else if N = rfLastIncludedIndex rf \<or> getTerm rf N \<noteq> rfCurrentTerm rf then advance_commit rf (N - 1)
      else if replicas_of rf N > rfPeers rf div 2 then rf\<lparr> rfCommitIndex := N \<rparr>
      else advance_commit rf (N - 1))"
  by pat_completeness auto
termination by (relation "measure (\<lambda>(rf, N). nat N)") auto

text \<open>The last entry of a term in the leader's log, by the loop from its end.\<close>

fun last_of_term :: "'c LogEntry list \<Rightarrow> int \<Rightarrow> nat \<Rightarrow> nat option" where
  "last_of_term es t 0 = None"
| "last_of_term es t (Suc i) = (if leTerm (es ! i) = t then Some i else last_of_term es t i)"

definition next_after_conflict :: "'c Raft \<Rightarrow> AppendEntriesReply \<Rightarrow> int" where
  "next_after_conflict rf reply =
     max 1 (if aerConflictTerm reply = -1 then aerConflictIndex reply
            else case last_of_term (rfLog rf) (aerConflictTerm reply) (length (rfLog rf)) of
                   Some i \<Rightarrow> (if rfLastIncludedIndex rf + int i \<noteq> -1 then rfLastIncludedIndex rf + int i + 1
                              else aerConflictIndex reply)
                 | None \<Rightarrow> aerConflictIndex reply)"

text \<open>
  The rest of the goroutine, on a reply; \<open>successCount\<close> is shared by the goroutines of one
  round.
\<close>

definition heartbeat_reply ::
  "int \<Rightarrow> 'c Raft \<Rightarrow> nat \<Rightarrow> 'c AppendEntriesArgs \<Rightarrow> AppendEntriesReply \<Rightarrow> int
   \<Rightarrow> 'c Raft \<times> int \<times> ('c, 'd) persist_req option" where
  "heartbeat_reply now rf server args reply successCount =
     (if rfState rf \<noteq> Leader \<or> aeTerm' args \<noteq> rfCurrentTerm rf then (rf, successCount, None)
      else if aerTerm reply > rfCurrentTerm rf
      then let rf1 = stepDown rf (aerTerm reply) in (rf1, successCount, Some (enqueuePersistHardStateLocked rf1))
      else if aerSuccess reply
      then let mi = aePrevLogIndex args + int (length (aeEntries args));
               rf1 = rf\<lparr> rfMatchIndex := (rfMatchIndex rf)[server := mi], rfNextIndex := (rfNextIndex rf)[server := mi + 1] \<rparr>;
               n = successCount + 1;
               rf2 = (if n > int (rfPeers rf1 div 2) then rf1\<lparr> rfLeaseUntil := now + leaseDurationLocked rf1 \<rparr> else rf1)
           in (advance_commit rf2 (getLastLogIndex rf2), n, None)
      else let rf1 = rf\<lparr> rfNextIndex := (rfNextIndex rf)[server := next_after_conflict rf reply] \<rparr>
           in (advance_commit rf1 (getLastLogIndex rf1), successCount, None))"

section \<open>Delivery\<close>

text \<open>One pass of \<open>applier\<close>: the messages it sends, by index.\<close>

function apply_pass :: "'c Raft \<Rightarrow> 'c Raft \<times> (int \<times> 'c option) list" where
  "apply_pass rf =
     (if \<not> (rfLastApplied rf < rfCommitIndex rf \<and> rfLastApplied rf < rfPersistedIndex rf) then (rf, [])
      else let index = rfLastApplied rf + 1;
               rf1 = rf\<lparr> rfLastApplied := index \<rparr>;
               pos = index - rfLastIncludedIndex rf
           in if index \<le> rfLastIncludedIndex rf then apply_pass rf1
              else if pos < 1 \<or> nat pos \<ge> length (rfLog rf) then (rf, [])
              else case apply_pass rf1 of (rf2, msgs) \<Rightarrow> (rf2, (index, leCommand (rfLog rf ! nat pos)) # msgs))"
  by pat_completeness auto
termination
  by (relation "measure (\<lambda>rf. nat (rfCommitIndex rf - rfLastApplied rf))") (auto simp: Let_def)

section \<open>Start and restart\<close>

text \<open>What is read from disk: the state, if it decodes, and the hard state.\<close>

definition readHardState :: "'c Raft \<Rightarrow> (int \<times> int) option \<Rightarrow> 'c Raft" where
  "readHardState rf hs =
     (case hs of
        None \<Rightarrow> rf
      | Some (t, v) \<Rightarrow>
          if t > rfCurrentTerm rf \<or> (t = rfCurrentTerm rf \<and> v \<noteq> -1)
          then rf\<lparr> rfCurrentTerm := t, rfVotedFor := v \<rparr> else rf)"

definition readPersist :: "'c Raft \<Rightarrow> 'c persistent option \<Rightarrow> 'c Raft" where
  "readPersist rf data =
     (case data of
        None \<Rightarrow> rf
      | Some p \<Rightarrow>
          rf\<lparr> rfCurrentTerm := psTerm p, rfVotedFor := psVote p,
              rfLog := (if psLog p = [] then [\<lparr> leTerm = psLastIncludedTerm p, leCommand = None \<rparr>] else psLog p),
              rfLastIncludedIndex := psLastIncludedIndex p, rfLastIncludedTerm := psLastIncludedTerm p \<rparr>)"

definition raft_Make ::
  "nat \<Rightarrow> nat \<Rightarrow> int \<Rightarrow> int \<Rightarrow> int \<Rightarrow> 'c persistent option \<Rightarrow> (int \<times> int) option \<Rightarrow> 'c Raft" where
  "raft_Make peers me electionTimeout leaseDur now state hard =
     (let rf0 = \<lparr> rfPeers = peers, rfMe = me, rfDead = False, rfVotes = 0, rfState = Follower,
                  rfElectionTimeout = electionTimeout, rfLastHeard = now, rfCurrentTerm = 0, rfVotedFor = -1,
                  rfLog = [\<lparr> leTerm = 0, leCommand = None \<rparr>], rfCommitIndex = 0, rfLastApplied = 0,
                  rfPersistedIndex = 0, rfNextIndex = replicate peers 0, rfMatchIndex = replicate peers 0,
                  rfLeaseDur = leaseDur, rfLeaseUntil = now, rfLastIncludedIndex = 0, rfLastIncludedTerm = 0 \<rparr>;
          rf1 = readHardState (readPersist rf0 state) hard
      in rf1\<lparr> rfCommitIndex := rfLastIncludedIndex rf1, rfLastApplied := rfLastIncludedIndex rf1,
              rfPersistedIndex := getLastLogIndex rf1 \<rparr>)"

text \<open>The loops are unfolded on demand.\<close>

declare conflict_start.simps [simp del] advance_commit.simps [simp del] apply_pass.simps [simp del]

end
