(* ===== verification/Raft_Cluster.thy ===== *)
theory Raft_Cluster
  imports Raft
begin

text \<open>
  A cluster of Raft nodes (theory \<open>Raft\<close>) as a step relation: elections, votes, replication,
  snapshots, crashes and restarts interleave, messages are lost, late or reordered and the
  disks complete writes late. The lemmas say what each handler does to the term, the vote and
  the role of its node.
\<close>

section \<open>The cluster\<close>

text \<open>
  A vote request of a candidate to a peer, and the answer to the call made in a term. Messages
  stay in the network; each call is answered to its caller at most once.
\<close>

datatype vmsg =
    VReq nat nat RequestVoteArgs
  | VRep nat nat int RequestVoteReply

text \<open>
  Per node: the files of the hard state, of the persistent state and of the snapshot, the states
  whose writing has been asked for (any of them may reach the disk, in any order), and the queue of the
  hard states with the replies that wait for them. \<open>cVoted\<close> is the history of the votes that
  were given: voter, term and candidate.
\<close>

record ('c, 'd) cluster =
  cNode :: "nat \<Rightarrow> 'c Raft"
  cHard :: "nat \<Rightarrow> (int \<times> int) option"
  cState :: "nat \<Rightarrow> 'c persistent option"
  cSnap :: "nat \<Rightarrow> 'd option"
  cEnq :: "nat \<Rightarrow> ('c persistent \<times> 'd option) set"
  cPend :: "nat \<Rightarrow> ((int \<times> int) \<times> vmsg option) list"
  cNet :: "vmsg set"
  cDone :: "(nat \<times> nat \<times> int) set"
  cVoted :: "(nat \<times> int \<times> nat) set"

definition set_node :: "nat \<Rightarrow> 'c Raft \<Rightarrow> ('c, 'd) cluster \<Rightarrow> ('c, 'd) cluster" where
  "set_node p rf s = s\<lparr> cNode := (cNode s)(p := rf) \<rparr>"

text \<open>A persistence request of a node, with the message that waits for it.\<close>

definition push_req :: "nat \<Rightarrow> vmsg option \<Rightarrow> ('c, 'd) persist_req option \<Rightarrow> ('c, 'd) cluster \<Rightarrow> ('c, 'd) cluster" where
  "push_req p m req s =
     (case req of
        None \<Rightarrow> (case m of None \<Rightarrow> s | Some x \<Rightarrow> s\<lparr> cNet := insert x (cNet s) \<rparr>)
      | Some (PersistHard t v) \<Rightarrow> s\<lparr> cPend := (cPend s)(p := cPend s p @ [((t, v), m)]) \<rparr>
      | Some (PersistState ps d) \<Rightarrow> s\<lparr> cEnq := (cEnq s)(p := insert (ps, d) (cEnq s p)) \<rparr>)"

text \<open>
  The worker of the persister writes the last of the first \<open>k\<close> hard states of the queue and
  answers all of them.
\<close>

definition released :: "((int \<times> int) \<times> vmsg option) list \<Rightarrow> vmsg set" where
  "released ps = {m. \<exists>h. (h, Some m) \<in> set ps}"

definition votes_in :: "nat \<Rightarrow> vmsg set \<Rightarrow> (nat \<times> int \<times> nat) set" where
  "votes_in p msgs = {(q, t, c). q = p \<and> (\<exists>r. VRep c p t r \<in> msgs \<and> rvrVoteGranted r)}"

definition flush_hard :: "nat \<Rightarrow> nat \<Rightarrow> ('c, 'd) cluster \<Rightarrow> ('c, 'd) cluster" where
  "flush_hard p k s =
     (let ps = take k (cPend s p)
      in if ps = [] then s
         else s\<lparr> cHard := (cHard s)(p := Some (fst (last ps))), cPend := (cPend s)(p := drop k (cPend s p)),
                 cNet := cNet s \<union> released ps, cVoted := cVoted s \<union> votes_in p (released ps) \<rparr>)"

text \<open>A request that is waited for while the node is locked: the queue of hard states is written.\<close>

definition push_sync :: "nat \<Rightarrow> ('c, 'd) persist_req option \<Rightarrow> ('c, 'd) cluster \<Rightarrow> ('c, 'd) cluster" where
  "push_sync p req s =
     (let s1 = push_req p None req s
      in case req of Some (PersistHard t v) \<Rightarrow> flush_hard p (length (cPend s1 p)) s1 | _ \<Rightarrow> s1)"

text \<open>
  The steps of a cluster of \<open>n\<close> nodes. The messages of replication and their replies are
  arbitrary: no election depends on them.
\<close>

inductive cl_step :: "nat \<Rightarrow> ('c, 'd) cluster \<Rightarrow> ('c, 'd) cluster \<Rightarrow> bool" for n where
  c_elect: "p < n \<Longrightarrow> startElection now (cNode s p) = (rf, args, req)
    \<Longrightarrow> s1 = push_sync p (Some req) (set_node p rf s)
    \<Longrightarrow> cl_step n s (s1\<lparr> cNet := cNet s1 \<union> {VReq p q args | q. q < n \<and> q \<noteq> p},
                         cVoted := insert (p, rvTerm args, p) (cVoted s1) \<rparr>)"
| c_vote: "VReq c p args \<in> cNet s \<Longrightarrow> RequestVote now (cNode s p) args = (rf, reply, req)
    \<Longrightarrow> cl_step n s (push_req p (Some (VRep c p (rvTerm args) reply)) req (set_node p rf s))"
| c_reply: "VRep c p t r \<in> cNet s \<Longrightarrow> (c, p, t) \<notin> cDone s \<Longrightarrow> handleVoteResponse now (cNode s c) r = (rf, req)
    \<Longrightarrow> cl_step n s ((push_sync c req (set_node c rf s))\<lparr> cDone := insert (c, p, t) (cDone s) \<rparr>)"
| c_flush: "p < n \<Longrightarrow> cl_step n s (flush_hard p k s)"
| c_written: "p < n \<Longrightarrow> (x, d) \<in> cEnq s p
    \<Longrightarrow> cl_step n s (s\<lparr> cState := (cState s)(p := Some x),
                         cSnap := (case d of None \<Rightarrow> cSnap s | Some _ \<Rightarrow> (cSnap s)(p := d)) \<rparr>)"
| c_append: "p < n \<Longrightarrow> AppendEntries now (cNode s p) args = (rf, reply, req)
    \<Longrightarrow> cl_step n s (push_req p None req (set_node p rf s))"
| c_install: "p < n \<Longrightarrow> InstallSnapshot now (cNode s p) args = (rf, t, reqs, msg)
    \<Longrightarrow> cl_step n s (fold (\<lambda>r. push_sync p (Some r)) reqs (set_node p rf s))"
| c_append_reply: "p < n \<Longrightarrow> heartbeat_reply now (cNode s p) q args reply cnt = (rf, cnt', req)
    \<Longrightarrow> cl_step n s (push_sync p req (set_node p rf s))"
| c_install_reply: "p < n \<Longrightarrow> heartbeat_snapshot_reply (cNode s p) q t = (rf, req)
    \<Longrightarrow> cl_step n s (push_sync p req (set_node p rf s))"
| c_send: "p < n \<Longrightarrow> heartbeat_send (cNode s p) q (cSnap s p) = Some (rf, hb) \<Longrightarrow> cl_step n s (set_node p rf s)"
| c_start: "p < n \<Longrightarrow> raft_Start (cNode s p) cmd = (rf, r, req)
    \<Longrightarrow> cl_step n s (push_req p None req (set_node p rf s))"
| c_snapshot: "p < n \<Longrightarrow> raft_Snapshot (cNode s p) i d = Some (rf, req)
    \<Longrightarrow> cl_step n s (push_req p None req (set_node p rf s))"
| c_persisted: "p < n \<Longrightarrow> cl_step n s (set_node p (persist_done (cNode s p) i) s)"
| c_deliver: "p < n \<Longrightarrow> apply_pass (cNode s p) = (rf, msgs) \<Longrightarrow> cl_step n s (set_node p rf s)"
| c_sync: "p < n \<Longrightarrow> cl_step n s (set_node p (SyncAppliedIndex (cNode s p) i) s)"
| c_kill: "p < n \<Longrightarrow> cl_step n s (set_node p (raft_Kill (cNode s p)) s)"
| c_crash: "p < n \<Longrightarrow> cl_step n s
    ((set_node p (raft_Make n p et ld now (cState s p) (cHard s p)) s)
       \<lparr> cPend := (cPend s)(p := []), cEnq := (cEnq s)(p := {}) \<rparr>)"

text \<open>A cluster that starts for the first time.\<close>

definition cl_init :: "nat \<Rightarrow> ('c, 'd) cluster \<Rightarrow> bool" where
  "cl_init n s \<longleftrightarrow>
     (\<forall>p < n. (\<exists>et ld now. cNode s p = raft_Make n p et ld now None None) \<and> cHard s p = None \<and> cState s p = None
        \<and> cSnap s p = None \<and> cEnq s p = {} \<and> cPend s p = []) \<and> cNet s = {} \<and> cDone s = {} \<and> cVoted s = {}"

section \<open>Terms and votes\<close>

text \<open>A later hard state of a node: a later term, or the same term with the vote kept.\<close>

definition hs_le :: "int \<times> int \<Rightarrow> int \<times> int \<Rightarrow> bool" where
  "hs_le x y \<longleftrightarrow> fst x < fst y \<or> (fst x = fst y \<and> (snd x = -1 \<or> snd x = snd y))"

lemma hs_le_refl [simp]: "hs_le x x"
  by (simp add: hs_le_def)

lemma hs_le_trans: "hs_le x y \<Longrightarrow> hs_le y z \<Longrightarrow> hs_le x z"
  by (auto simp: hs_le_def)

definition hs_agree :: "int \<times> int \<Rightarrow> int \<times> int \<Rightarrow> bool" where
  "hs_agree x y \<longleftrightarrow> (fst x = fst y \<longrightarrow> snd x = -1 \<or> snd y = -1 \<or> snd x = snd y)"

definition mem_hs :: "'c Raft \<Rightarrow> int \<times> int" where
  "mem_hs rf = (rfCurrentTerm rf, rfVotedFor rf)"

definition ps_hs :: "'c persistent \<Rightarrow> int \<times> int" where
  "ps_hs ps = (psTerm ps, psVote ps)"

definition file_hs :: "(int \<times> int) option \<Rightarrow> int \<times> int" where
  "file_hs f = (case f of None \<Rightarrow> (0, -1) | Some h \<Rightarrow> h)"

text \<open>All hard states of a node that may yet be read.\<close>

definition stored_hs :: "('c, 'd) cluster \<Rightarrow> nat \<Rightarrow> (int \<times> int) set" where
  "stored_hs s p = insert (file_hs (cHard s p)) (ps_hs ` (fst ` cEnq s p \<union> set_option (cState s p)) \<union> fst ` set (cPend s p))"

text \<open>What a restart reads is the later of the two files, and as late as the hard state file.\<close>

lemma Make_hs:
  assumes "\<forall>ps. st = Some ps \<longrightarrow> 0 \<le> psTerm ps"
  shows "mem_hs (raft_Make n p et ld now st h) =
    (let x = (case st of None \<Rightarrow> (0, -1) | Some ps \<Rightarrow> ps_hs ps); y = file_hs h
     in if fst y > fst x \<or> (fst y = fst x \<and> snd y \<noteq> -1) then y else x)"
  using assms
  by (cases st; cases h) (auto simp: raft_Make_def readHardState_def readPersist_def mem_hs_def ps_hs_def file_hs_def Let_def)

lemma Make_fields [simp]:
  "rfMe (raft_Make n p et ld now st h) = p" "rfPeers (raft_Make n p et ld now st h) = n"
  "rfState (raft_Make n p et ld now st h) = Follower"
  by (auto simp: raft_Make_def readHardState_def readPersist_def Let_def split: option.split)

text \<open>What the handlers do to the term, the vote and the role of a node.\<close>

definition retreats :: "'c Raft \<Rightarrow> 'c Raft \<Rightarrow> bool" where
  "retreats rf rf' \<longleftrightarrow> rfMe rf' = rfMe rf \<and> rfPeers rf' = rfPeers rf \<and> hs_le (mem_hs rf) (mem_hs rf')
     \<and> (rfState rf' = Follower
        \<or> (rfState rf' = rfState rf \<and> rfCurrentTerm rf' = rfCurrentTerm rf \<and> rfVotes rf' = rfVotes rf))"

lemma retreats_same:
  "rfMe rf' = rfMe rf \<Longrightarrow> rfPeers rf' = rfPeers rf \<Longrightarrow> mem_hs rf' = mem_hs rf \<Longrightarrow> rfState rf' = rfState rf
   \<Longrightarrow> rfVotes rf' = rfVotes rf \<Longrightarrow> retreats rf rf'"
  by (auto simp: retreats_def mem_hs_def)

lemma retreats_stepDown: "t > rfCurrentTerm rf \<Longrightarrow> retreats rf (stepDown rf t)"
  by (simp add: retreats_def stepDown_def mem_hs_def hs_le_def)

text \<open>A request writes the state the node has.\<close>

definition req_hs :: "('c, 'd) persist_req \<Rightarrow> int \<times> int" where
  "req_hs req = (case req of PersistHard t v \<Rightarrow> (t, v) | PersistState ps d \<Rightarrow> ps_hs ps)"

lemma req_hs_enq [simp]:
  "req_hs (enqueuePersistHardStateLocked rf) = mem_hs rf" "req_hs (enqueuePersist rf d) = mem_hs rf"
  by (simp_all add: req_hs_def enqueuePersistHardStateLocked_def enqueuePersist_def mem_hs_def ps_hs_def)

lemma RequestVote_effect:
  assumes "RequestVote now rf args = (rf', reply, req)"
  shows "retreats rf rf'" and "\<forall>x. req = Some x \<longrightarrow> x = PersistHard (rfCurrentTerm rf') (rfVotedFor rf')"
    and "rvrVoteGranted reply \<Longrightarrow> rvrTerm reply = rvTerm args \<and> req \<noteq> None \<and> mem_hs rf' = (rvTerm args, rvCandidateId args)"
  using assms
  by (auto simp: RequestVote_def Let_def retreats_def mem_hs_def hs_le_def resetElectionTimer_def
      enqueuePersistHardStateLocked_def split: if_splits)

lemma advance_commit_frame:
  "rfMe (advance_commit rf N) = rfMe rf \<and> rfPeers (advance_commit rf N) = rfPeers rf
   \<and> mem_hs (advance_commit rf N) = mem_hs rf \<and> rfState (advance_commit rf N) = rfState rf
   \<and> rfVotes (advance_commit rf N) = rfVotes rf"
proof (induction rf N rule: advance_commit.induct)
  case (1 rf N)
  then show ?case by (simp add: advance_commit.simps [of rf N] mem_hs_def)
qed

lemma apply_pass_frame: "\<exists>x. fst (apply_pass rf) = rf\<lparr> rfLastApplied := x \<rparr>"
proof (induction "nat (rfCommitIndex rf - rfLastApplied rf)" arbitrary: rf rule: less_induct)
  case less
  let ?rf1 = "rf\<lparr> rfLastApplied := rfLastApplied rf + 1 \<rparr>"
  show ?case
  proof (cases "fst (apply_pass rf) = rf")
    case True
    then show ?thesis by (intro exI [of _ "rfLastApplied rf"]) simp
  next
    case False
    then have c: "rfLastApplied rf < rfCommitIndex rf" "fst (apply_pass rf) = fst (apply_pass ?rf1)"
      by (simp_all add: apply_pass.simps [of rf] Let_def case_prod_unfold split: if_split_asm)
    obtain x where "fst (apply_pass ?rf1) = ?rf1\<lparr> rfLastApplied := x \<rparr>" using less [of ?rf1] c(1) by auto
    then show ?thesis using c(2) by (intro exI [of _ x]) simp
  qed
qed

lemma AppendEntries_effect:
  fixes req :: "('c, 'd) persist_req option"
  assumes "AppendEntries now rf args = (rf', reply, req)"
  shows "retreats rf rf' \<and> (\<forall>x. req = Some x \<longrightarrow> req_hs x = mem_hs rf')"
proof -
  have "case AppendEntries now rf args :: 'c Raft \<times> AppendEntriesReply \<times> ('c, 'd) persist_req option of
      (rf', reply, req) \<Rightarrow> retreats rf rf' \<and> (\<forall>x. req = Some x \<longrightarrow> req_hs x = mem_hs rf')"
    by (cases "aeTerm' args < rfCurrentTerm rf"; cases "aeTerm' args > rfCurrentTerm rf")
       (simp_all add: AppendEntries_def append_result_def Let_def retreats_def mem_hs_def hs_le_def resetElectionTimer_def
          req_hs_def enqueuePersistHardStateLocked_def enqueuePersist_def ps_hs_def case_prod_unfold split: option.split)
  then show ?thesis by (simp add: assms)
qed

lemma handler_retreats:
  "AppendEntries now rf args = (rf', reply, req) \<Longrightarrow> retreats rf rf' \<and> (\<forall>x. req = Some x \<longrightarrow> req_hs x = mem_hs rf')"
  "heartbeat_reply now rf q args reply cnt = (rf', cnt', req) \<Longrightarrow> retreats rf rf' \<and> (\<forall>x. req = Some x \<longrightarrow> req_hs x = mem_hs rf')"
  "heartbeat_snapshot_reply rf q t = (rf', req) \<Longrightarrow> retreats rf rf' \<and> (\<forall>x. req = Some x \<longrightarrow> req_hs x = mem_hs rf')"
  "heartbeat_send rf q snap = Some (rf', hb) \<Longrightarrow> retreats rf rf'"
  "raft_Start rf cmd = (rf', r, req) \<Longrightarrow> retreats rf rf' \<and> (\<forall>x. req = Some x \<longrightarrow> req_hs x = mem_hs rf')"
  "raft_Snapshot rf i d = Some (rf', req) \<Longrightarrow> retreats rf rf' \<and> (\<forall>x. req = Some x \<longrightarrow> req_hs x = mem_hs rf')"
  "retreats rf (persist_done rf i)" "retreats rf (SyncAppliedIndex rf i)" "retreats rf (raft_Kill rf)"
  "apply_pass rf = (rf', msgs) \<Longrightarrow> retreats rf rf'"
subgoal by (rule AppendEntries_effect)
subgoal
  by (auto simp: heartbeat_reply_def Let_def retreats_def stepDown_def mem_hs_def hs_le_def
      advance_commit_frame [unfolded mem_hs_def prod.inject] req_hs_def enqueuePersistHardStateLocked_def split: if_splits)
subgoal
  by (auto simp: heartbeat_snapshot_reply_def Let_def retreats_def stepDown_def mem_hs_def hs_le_def
      req_hs_def enqueuePersistHardStateLocked_def split: if_splits)
subgoal by (auto simp: heartbeat_send_def Let_def retreats_def mem_hs_def split: if_splits option.splits)
subgoal
  by (auto simp: raft_Start_def Let_def retreats_def mem_hs_def req_hs_def enqueuePersist_def ps_hs_def split: if_splits)
subgoal
  by (auto simp: raft_Snapshot_def Let_def retreats_def mem_hs_def persist_done_def req_hs_def enqueuePersist_def ps_hs_def
      split: if_splits)
subgoal by (simp add: persist_done_def retreats_def mem_hs_def)
subgoal by (simp add: SyncAppliedIndex_def Let_def retreats_def mem_hs_def)
subgoal by (simp add: raft_Kill_def retreats_def mem_hs_def)
subgoal using apply_pass_frame [of rf] by (auto simp: retreats_def mem_hs_def)
done

lemma InstallSnapshot_effect:
  fixes reqs :: "('c, 'd) persist_req list"
  assumes "InstallSnapshot now rf args = (rf', t, reqs, msg)"
  shows "retreats rf rf' \<and> (\<forall>x \<in> set reqs. req_hs x = mem_hs rf')"
proof -
  have "case InstallSnapshot now rf args of
      (rf', t, reqs, msg) \<Rightarrow> retreats rf rf' \<and> (\<forall>x \<in> set reqs. req_hs x = mem_hs rf')"
    by (cases "isTerm args < rfCurrentTerm rf"; cases "isTerm args > rfCurrentTerm rf")
       (simp_all add: InstallSnapshot_def Let_def retreats_def stepDown_def mem_hs_def hs_le_def resetElectionTimer_def
          persist_done_def req_hs_def enqueuePersistHardStateLocked_def enqueuePersist_def ps_hs_def)
  then show ?thesis by (simp add: assms)
qed

end
