(* ===== verification/Raft_Election.thy ===== *)
theory Raft_Election
  imports Raft_Cluster
begin

text \<open>
  The safety of elections in a cluster (theory \<open>Raft_Cluster\<close>): no term has two leaders. The
  invariant ties the hard states on disk, in the queues and in memory of each node together,
  so that a vote that was given survives every crash.
\<close>

section \<open>The invariant\<close>

definition node_ok :: "nat \<Rightarrow> ('c, 'd) cluster \<Rightarrow> nat \<Rightarrow> bool" where
  "node_ok n s p \<longleftrightarrow> rfMe (cNode s p) = p \<and> rfPeers (cNode s p) = n \<and> 0 \<le> rfCurrentTerm (cNode s p) \<and>
     (\<forall>x \<in> stored_hs s p. 0 \<le> fst x \<and> hs_le x (mem_hs (cNode s p))) \<and>
     (\<forall>x \<in> stored_hs s p. \<forall>y \<in> stored_hs s p. hs_agree x y) \<and>
     sorted_wrt hs_le (file_hs (cHard s p) # map fst (cPend s p))"

text \<open>A reply that gives a vote gives it in the term of the call.\<close>

definition rep_ok :: "nat \<Rightarrow> vmsg \<Rightarrow> bool" where
  "rep_ok n m = (case m of
     VReq c p args \<Rightarrow> c < n \<and> p < n \<and> c \<noteq> p \<and> rvCandidateId args = int c
   | VRep c p t r \<Rightarrow> c < n \<and> p < n \<and> c \<noteq> p \<and> (rvrVoteGranted r \<longrightarrow> rvrTerm r = t))"

definition pend_ok :: "nat \<Rightarrow> nat \<Rightarrow> ((int \<times> int) \<times> vmsg option) list \<Rightarrow> bool" where
  "pend_ok n p ps \<longleftrightarrow> (\<forall>(h, m) \<in> set ps. \<forall>x. m = Some x \<longrightarrow> rep_ok n x \<and>
     (\<exists>c t r. x = VRep c p t r \<and> (rvrVoteGranted r \<longrightarrow> h = (t, int c))))"

definition voters :: "('c, 'd) cluster \<Rightarrow> int \<Rightarrow> nat \<Rightarrow> nat set" where
  "voters s t c = {p. (p, t, c) \<in> cVoted s}"

definition votes_ok :: "nat \<Rightarrow> ('c, 'd) cluster \<Rightarrow> bool" where
  "votes_ok n s \<longleftrightarrow> (\<forall>m \<in> cNet s. rep_ok n m) \<and> (\<forall>p < n. pend_ok n p (cPend s p)) \<and>
     (\<forall>c p t r. VRep c p t r \<in> cNet s \<longrightarrow> rvrVoteGranted r \<longrightarrow> (p, t, c) \<in> cVoted s) \<and>
     (\<forall>(p, t, c) \<in> cVoted s. p < n \<and> hs_le (t, int c) (file_hs (cHard s p))) \<and>
     (\<forall>p t c c'. (p, t, c) \<in> cVoted s \<longrightarrow> (p, t, c') \<in> cVoted s \<longrightarrow> c = c')"

definition role_ok :: "nat \<Rightarrow> ('c, 'd) cluster \<Rightarrow> nat \<Rightarrow> bool" where
  "role_ok n s c =
     (let rf = cNode s c; t = rfCurrentTerm rf
      in case rfState rf of
           Follower \<Rightarrow> True
         | Candidate \<Rightarrow> c \<in> voters s t c
             \<and> rfVotes rf \<le> 1 + int (card {p \<in> voters s t c. p \<noteq> c \<and> (c, p, t) \<in> cDone s})
         | Leader \<Rightarrow> n div 2 < card (voters s t c))"

definition cl_inv :: "nat \<Rightarrow> ('c, 'd) cluster \<Rightarrow> bool" where
  "cl_inv n s \<longleftrightarrow> (\<forall>p < n. node_ok n s p \<and> role_ok n s p) \<and> votes_ok n s"

lemma cl_invI:
  "(\<And>p. p < n \<Longrightarrow> node_ok n s p) \<Longrightarrow> (\<And>p. p < n \<Longrightarrow> role_ok n s p) \<Longrightarrow> votes_ok n s \<Longrightarrow> cl_inv n s"
  by (simp add: cl_inv_def)

lemma voters_finite: "votes_ok n s \<Longrightarrow> finite (voters s t c)"
  by (rule finite_subset [of _ "{..<n}"]) (auto simp: votes_ok_def voters_def)

section \<open>Preservation\<close>

text \<open>More votes and more answered calls keep the roles.\<close>

lemma role_ok_mono:
  assumes "role_ok n s c" "votes_ok n s'" "cVoted s \<subseteq> cVoted s'" "cDone s \<subseteq> cDone s'"
    "rfState (cNode s' c) = Follower \<or> rfState (cNode s' c) = rfState (cNode s c)
       \<and> rfCurrentTerm (cNode s' c) = rfCurrentTerm (cNode s c) \<and> rfVotes (cNode s' c) = rfVotes (cNode s c)"
  shows "role_ok n s' c"
proof -
  let ?t = "rfCurrentTerm (cNode s c)"
  have v: "voters s ?t c \<subseteq> voters s' ?t c" using assms(3) by (auto simp: voters_def)
  have f: "finite (voters s' ?t c)" using assms(2) by (rule voters_finite)
  have "card (voters s ?t c) \<le> card (voters s' ?t c)" using v f by (simp add: card_mono)
  moreover have "card {p \<in> voters s ?t c. p \<noteq> c \<and> (c, p, ?t) \<in> cDone s}
      \<le> card {p \<in> voters s' ?t c. p \<noteq> c \<and> (c, p, ?t) \<in> cDone s'}"
    using v f assms(4) by (intro card_mono) auto
  ultimately show ?thesis
    using assms(1,5) v by (auto simp: role_ok_def Let_def split: role.splits)
qed

lemma set_node_frame [simp]:
  "cNode (set_node p rf s) = (cNode s)(p := rf)" "cHard (set_node p rf s) = cHard s" "cState (set_node p rf s) = cState s"
  "cSnap (set_node p rf s) = cSnap s"
  "cEnq (set_node p rf s) = cEnq s" "cPend (set_node p rf s) = cPend s" "cNet (set_node p rf s) = cNet s"
  "cDone (set_node p rf s) = cDone s" "cVoted (set_node p rf s) = cVoted s"
  "stored_hs (set_node p rf s) = stored_hs s"
  by (simp_all add: set_node_def stored_hs_def fun_eq_iff)

lemma set_node_inv:
  assumes "cl_inv n s" "p < n" "retreats (cNode s p) rf"
  shows "cl_inv n (set_node p rf s)"
proof (rule cl_invI)
  have v: "votes_ok n s" using assms(1) by (simp add: cl_inv_def)
  then show v': "votes_ok n (set_node p rf s)" by (simp add: votes_ok_def)
  fix q assume q: "q < n"
  have ok: "node_ok n s q" "role_ok n s q" using assms(1) q by (simp_all add: cl_inv_def)
  have r: "hs_le (mem_hs (cNode s p)) (mem_hs rf)" "rfMe rf = rfMe (cNode s p)" "rfPeers rf = rfPeers (cNode s p)"
    using assms(3) by (simp_all add: retreats_def)
  have t: "rfCurrentTerm (cNode s p) \<le> rfCurrentTerm rf" using r(1) by (auto simp: hs_le_def mem_hs_def)
  show "node_ok n (set_node p rf s) q"
    using ok(1) r t by (cases "q = p") (auto simp: node_ok_def dest: hs_le_trans)
  show "role_ok n (set_node p rf s) q"
    using assms(3) by (intro role_ok_mono [OF ok(2) v']) (auto simp: retreats_def)
qed

lemma push_req_frame [simp]:
  "cNode (push_req p m req s) = cNode s" "cHard (push_req p m req s) = cHard s" "cState (push_req p m req s) = cState s"
  "cDone (push_req p m req s) = cDone s" "cVoted (push_req p m req s) = cVoted s"
  by (simp_all add: push_req_def split: option.split persist_req.split)

lemma stored_push:
  "stored_hs (push_req p m req s) q
   = (case req of Some x \<Rightarrow> if q = p then insert (req_hs x) (stored_hs s q) else stored_hs s q | None \<Rightarrow> stored_hs s q)"
  by (auto simp: stored_hs_def push_req_def req_hs_def split: option.split persist_req.split)

lemma hs_le_agree: "hs_le x y \<Longrightarrow> hs_agree x y \<and> hs_agree y x"
  by (auto simp: hs_le_def hs_agree_def)

lemma push_req_node_ok:
  assumes "node_ok n s q" "\<forall>x. req = Some x \<longrightarrow> req_hs x = mem_hs (cNode s p)"
  shows "node_ok n (push_req p m req s) q"
proof (cases "req = None \<or> q \<noteq> p")
  case True
  then have "stored_hs (push_req p m req s) q = stored_hs s q" by (auto simp: stored_push split: option.split)
  moreover have "cPend (push_req p m req s) q = cPend s q"
    using True by (auto simp: push_req_def split: option.split persist_req.split)
  ultimately show ?thesis using assms(1) by (simp add: node_ok_def)
next
  case False
  then obtain x where x: "req = Some x" "q = p" by auto
  let ?h = "mem_hs (cNode s p)"
  have st: "stored_hs (push_req p m req s) p = insert ?h (stored_hs s p)" using assms(2) x by (simp add: stored_push)
  have le: "\<forall>y \<in> stored_hs s p. hs_le y ?h" using assms(1) x by (simp add: node_ok_def)
  have "sorted_wrt hs_le (file_hs (cHard s p) # map fst (cPend (push_req p m req s) p))"
  proof (cases x)
    case (PersistHard t v)
    have "(t, v) = ?h" using assms(2) x PersistHard by (simp add: req_hs_def)
    moreover have "\<forall>y \<in> set (file_hs (cHard s p) # map fst (cPend s p)). hs_le y ?h"
      using le by (auto simp: stored_hs_def)
    ultimately show ?thesis
      using assms(1) x PersistHard by (auto simp: node_ok_def push_req_def sorted_wrt_append)
  next
    case (PersistState ps d)
    then show ?thesis using assms(1) x by (simp add: node_ok_def push_req_def)
  qed
  moreover have "0 \<le> fst ?h" using assms(1) x by (simp add: node_ok_def mem_hs_def)
  ultimately show ?thesis using assms(1) x st le hs_le_agree unfolding node_ok_def by auto
qed

text \<open>A message that waits for a request gives the vote the request writes.\<close>

definition waits_ok :: "nat \<Rightarrow> nat \<Rightarrow> vmsg option \<Rightarrow> ('c, 'd) persist_req option \<Rightarrow> bool" where
  "waits_ok n p m req \<longleftrightarrow> (\<forall>x. m = Some x \<longrightarrow> rep_ok n x \<and> (\<exists>c t r. x = VRep c p t r \<and>
     (rvrVoteGranted r \<longrightarrow> req = Some (PersistHard t (int c)))))"

lemma push_req_inv:
  assumes "cl_inv n s" "p < n" "\<forall>x. req = Some x \<longrightarrow> req_hs x = mem_hs (cNode s p)" "waits_ok n p m req"
  shows "cl_inv n (push_req p m req s)"
proof (rule cl_invI)
  have v: "votes_ok n s" using assms(1) by (simp add: cl_inv_def)
  have net: "\<forall>x \<in> cNet (push_req p m req s). x \<in> cNet s \<or> (m = Some x \<and> req = None)"
    by (auto simp: push_req_def split: option.split persist_req.split)
  have pend: "pend_ok n q (cPend (push_req p m req s) q)" if "q < n" for q
    using v that assms(4)
    by (fastforce simp: votes_ok_def push_req_def pend_ok_def waits_ok_def split: option.split persist_req.split)
  show v': "votes_ok n (push_req p m req s)"
    unfolding votes_ok_def
  proof (intro conjI)
    show "\<forall>x \<in> cNet (push_req p m req s). rep_ok n x"
      using v net assms(4) by (auto simp: votes_ok_def waits_ok_def)
    show "\<forall>q < n. pend_ok n q (cPend (push_req p m req s) q)" using pend by blast
    show "\<forall>c q t r. VRep c q t r \<in> cNet (push_req p m req s) \<longrightarrow> rvrVoteGranted r
        \<longrightarrow> (q, t, c) \<in> cVoted (push_req p m req s)"
      using v net assms(4) by (fastforce simp: votes_ok_def waits_ok_def)
  qed (use v in \<open>simp_all add: votes_ok_def\<close>)
  fix q assume q: "q < n"
  then have ok: "node_ok n s q" "role_ok n s q" using assms(1) by (simp_all add: cl_inv_def)
  show "node_ok n (push_req p m req s) q" using push_req_node_ok [OF ok(1) assms(3)] .
  show "role_ok n (push_req p m req s) q" by (rule role_ok_mono [OF ok(2) v']) simp_all
qed

lemma sorted_hs_last:
  assumes "sorted_wrt hs_le (h # hs)" "0 < k" "hs \<noteq> []"
  shows "sorted_wrt hs_le (last (take k hs) # drop k hs)" "hs_le h (last (take k hs))"
    "x \<in> set (take k hs) \<Longrightarrow> hs_le x (last (take k hs))" "last (take k hs) \<in> set hs"
proof -
  have ne: "take k hs \<noteq> []" using assms(2,3) by auto
  have split: "hs = butlast (take k hs) @ [last (take k hs)] @ drop k hs"
    using append_butlast_last_id [OF ne] append_take_drop_id [of k hs] by (metis append.assoc)
  have s: "sorted_wrt hs_le (h # butlast (take k hs) @ [last (take k hs)] @ drop k hs)"
    using assms(1) split by simp
  show "sorted_wrt hs_le (last (take k hs) # drop k hs)" "hs_le h (last (take k hs))"
    using s by (simp_all add: sorted_wrt_append)
  show "last (take k hs) \<in> set hs" using ne by (metis in_set_takeD last_in_set)
  show "hs_le x (last (take k hs))" if "x \<in> set (take k hs)"
  proof -
    have "x \<in> set (butlast (take k hs)) \<or> x = last (take k hs)"
      using that append_butlast_last_id [OF ne] by (metis Un_iff insertE list.set(2) set_append empty_iff list.set(1))
    then show ?thesis using s by (auto simp: sorted_wrt_append)
  qed
qed

lemma sorted_hs_both:
  "sorted_wrt hs_le hs \<Longrightarrow> (t, a) \<in> set hs \<Longrightarrow> (t, b) \<in> set hs \<Longrightarrow> a \<noteq> -1 \<Longrightarrow> b \<noteq> -1 \<Longrightarrow> a = b"
  by (induction hs) (auto simp: hs_le_def)

lemma pend_ok_subset: "pend_ok n p ps \<Longrightarrow> set ps' \<subseteq> set ps \<Longrightarrow> pend_ok n p ps'"
  unfolding pend_ok_def by blast

lemma votes_in_pend:
  assumes "pend_ok n p ps" "(q, t, c) \<in> votes_in p (released ps)"
  shows "q = p" "(t, int c) \<in> set (map fst ps)"
proof -
  obtain h r where "q = p" "(h, Some (VRep c p t r)) \<in> set ps" "rvrVoteGranted r"
    using assms(2) by (auto simp: votes_in_def released_def)
  moreover from this have "h = (t, int c)" using assms(1) by (auto simp: pend_ok_def)
  ultimately show "q = p" "(t, int c) \<in> set (map fst ps)" by force+
qed

lemma stored_flush: "stored_hs (flush_hard p k s) q \<subseteq> stored_hs s q"
proof (cases "take k (cPend s p) = []")
  case True
  then show ?thesis by (simp add: flush_hard_def)
next
  case False
  then have "last (take k (cPend s p)) \<in> set (cPend s p)" by (metis in_set_takeD last_in_set)
  moreover have "fst ` set (drop k (cPend s p)) \<subseteq> fst ` set (cPend s p)" by (meson image_mono set_drop_subset)
  ultimately show ?thesis
    using False by (auto simp: stored_hs_def flush_hard_def Let_def file_hs_def)
qed

lemma node_ok_shrink:
  assumes "node_ok n s q" "cNode s' q = cNode s q" "stored_hs s' q \<subseteq> stored_hs s q"
    "sorted_wrt hs_le (file_hs (cHard s' q) # map fst (cPend s' q))"
  shows "node_ok n s' q"
  using assms unfolding node_ok_def by (metis subsetD)

lemma flush_hard_inv:
  assumes "cl_inv n s" "p < n"
  shows "cl_inv n (flush_hard p k s)"
proof (cases "take k (cPend s p) = []")
  case True
  then show ?thesis using assms(1) by (simp add: flush_hard_def)
next
  case False
  let ?ps = "take k (cPend s p)" and ?s' = "flush_hard p k s"
  let ?h = "fst (last ?ps)"
  have v: "votes_ok n s" and ok: "node_ok n s p" using assms by (simp_all add: cl_inv_def)
  have s': "?s' = s\<lparr> cHard := (cHard s)(p := Some ?h), cPend := (cPend s)(p := drop k (cPend s p)),
                 cNet := cNet s \<union> released ?ps, cVoted := cVoted s \<union> votes_in p (released ?ps) \<rparr>"
    using False by (simp add: flush_hard_def Let_def)
  have srt: "sorted_wrt hs_le (file_hs (cHard s p) # map fst (cPend s p))" using ok by (simp add: node_ok_def)
  have k: "0 < k" "map fst (cPend s p) \<noteq> []" using False by auto
  have lst: "last (take k (map fst (cPend s p))) = ?h" using False by (simp add: take_map last_map)
  note L = sorted_hs_last [OF srt k, unfolded lst]
  have "pend_ok n p (cPend s p)" using v assms(2) by (simp add: votes_ok_def)
  then have pk: "pend_ok n p ?ps" "pend_ok n p (drop k (cPend s p))"
    using set_take_subset [of k "cPend s p"] set_drop_subset [of k "cPend s p"] by (auto intro: pend_ok_subset)
  have gain: "hs_le (t, int c) ?h" "hs_le (file_hs (cHard s p)) (t, int c)" "(t, int c) \<in> set (map fst (cPend s p))"
    if "(q, t, c) \<in> votes_in p (released ?ps)" for q t c
  proof -
    have x: "(t, int c) \<in> set (take k (map fst (cPend s p)))" using votes_in_pend(2) [OF pk(1) that] by (simp add: take_map)
    show "hs_le (t, int c) ?h" using L(3) [OF x] .
    show m: "(t, int c) \<in> set (map fst (cPend s p))" using x by (rule in_set_takeD)
    show "hs_le (file_hs (cHard s p)) (t, int c)" using srt m by (simp only: sorted_wrt.simps(2))
  qed
  show ?thesis
  proof (rule cl_invI)
    show v': "votes_ok n ?s'"
      unfolding votes_ok_def
    proof (intro conjI)
      show "\<forall>m \<in> cNet ?s'. rep_ok n m" using v pk(1) by (auto simp: s' votes_ok_def released_def pend_ok_def)
      show "\<forall>q < n. pend_ok n q (cPend ?s' q)" using v pk(2) by (simp add: s' votes_ok_def)
      show "\<forall>c q t r. VRep c q t r \<in> cNet ?s' \<longrightarrow> rvrVoteGranted r \<longrightarrow> (q, t, c) \<in> cVoted ?s'"
        using v pk(1) by (fastforce simp: s' votes_ok_def votes_in_def released_def pend_ok_def)
      show "\<forall>(q, t, c) \<in> cVoted ?s'. q < n \<and> hs_le (t, int c) (file_hs (cHard ?s' q))"
      proof safe
        fix q t c assume "(q, t, c) \<in> cVoted ?s'"
        then consider (old) "(q, t, c) \<in> cVoted s" | (new) "(q, t, c) \<in> votes_in p (released ?ps)" by (auto simp: s')
        then have "q < n \<and> hs_le (t, int c) (file_hs (cHard ?s' q))"
        proof cases
          case old
          then have *: "q < n" "hs_le (t, int c) (file_hs (cHard s q))" using v unfolding votes_ok_def by auto
          show ?thesis
          proof (cases "q = p")
            case True
            then show ?thesis using hs_le_trans [OF *(2)] *(1) L(2) by (simp add: s' file_hs_def [of "Some _"])
          next
            case False
            then show ?thesis using * by (simp add: s')
          qed
        next
          case new
          then show ?thesis using gain [OF new] votes_in_pend(1) [OF pk(1) new] assms(2) by (simp add: s' file_hs_def)
        qed
        then show "q < n" "hs_le (t, int c) (file_hs (cHard ?s' q))" by blast+
      qed
      have old_new: "c = c'" if "(q, t, c) \<in> cVoted s" "(q, t, c') \<in> votes_in p (released ?ps)" for q t c c'
      proof -
        have "hs_le (t, int c) (file_hs (cHard s p))"
          using v that votes_in_pend(1) [OF pk(1) that(2)] by (auto simp: votes_ok_def)
        from hs_le_trans [OF this gain(2) [OF that(2)]] show ?thesis by (auto simp: hs_le_def)
      qed
      moreover have "c = c'"
        if "(q, t, c) \<in> votes_in p (released ?ps)" "(q, t, c') \<in> votes_in p (released ?ps)" for q t c c'
        using sorted_hs_both [of "map fst (cPend s p)" t "int c" "int c'"] gain(3) that srt by fastforce
      moreover have "c = c'" if "(q, t, c) \<in> cVoted s" "(q, t, c') \<in> cVoted s" for q t c c'
        using v that unfolding votes_ok_def by blast
      ultimately show "\<forall>q t c c'. (q, t, c) \<in> cVoted ?s' \<longrightarrow> (q, t, c') \<in> cVoted ?s' \<longrightarrow> c = c'"
        unfolding s' by (simp, blast)
    qed
    fix q assume q: "q < n"
    then have okq: "node_ok n s q" "role_ok n s q" using assms(1) by (simp_all add: cl_inv_def)
    show "role_ok n ?s' q" by (rule role_ok_mono [OF okq(2) v']) (auto simp: s')
    show "node_ok n ?s' q"
    proof (rule node_ok_shrink [OF okq(1) _ stored_flush])
      show "sorted_wrt hs_le (file_hs (cHard ?s' q) # map fst (cPend ?s' q))"
        using okq(1) L(1) by (cases "q = p") (simp_all add: s' node_ok_def drop_map file_hs_def [of "Some _"])
    qed (simp add: s')
  qed
qed

lemma flush_hard_frame [simp]: "cNode (flush_hard p k s) = cNode s" "cDone (flush_hard p k s) = cDone s"
  by (simp_all add: flush_hard_def Let_def)

lemma push_sync_inv:
  assumes "cl_inv n s" "p < n" "\<forall>x. req = Some x \<longrightarrow> req_hs x = mem_hs (cNode s p)"
  shows "cl_inv n (push_sync p req s)"
proof -
  have s1: "cl_inv n (push_req p None req s)" using push_req_inv [OF assms, of None] by (simp add: waits_ok_def)
  then show ?thesis
    using flush_hard_inv [OF s1 assms(2)] by (auto simp: push_sync_def Let_def split: option.split persist_req.split)
qed

lemma push_sync_frame [simp]: "cNode (push_sync p req s) = cNode s" "cDone (push_sync p req s) = cDone s"
  by (simp_all add: push_sync_def Let_def split: option.split persist_req.split)

lemma push_sync_None [simp]: "push_sync p None s = s"
  by (simp add: push_sync_def push_req_def)

lemma push_sync_hard: "file_hs (cHard (push_sync p (Some (PersistHard t v)) s) p) = (t, v)"
  by (simp add: push_sync_def push_req_def flush_hard_def file_hs_def Let_def)

lemma push_sync_set_node: "push_sync p req (set_node p rf s) = set_node p rf (push_sync p req s)"
  by (simp add: push_sync_def push_req_def flush_hard_def set_node_def Let_def split: option.split persist_req.split)

lemma push_syncs_inv:
  "cl_inv n s \<Longrightarrow> p < n \<Longrightarrow> \<forall>x \<in> set reqs. req_hs x = mem_hs (cNode s p)
   \<Longrightarrow> cl_inv n (fold (\<lambda>r. push_sync p (Some r)) reqs s)"
proof (induction reqs arbitrary: s)
  case (Cons a reqs)
  have "cl_inv n (push_sync p (Some a) s)" using Cons.prems by (intro push_sync_inv) auto
  then show ?case using Cons.IH [of "push_sync p (Some a) s"] Cons.prems by simp
qed simp

text \<open>A candidate: its own vote is on disk before it asks for others.\<close>

lemma elected_inv:
  assumes "cl_inv n s" "p < n" "file_hs (cHard s p) = (t, int p)" "mem_hs (cNode s p) = (t, int p)"
    "rfMe rf = p" "rfPeers rf = n" "mem_hs rf = (t, int p)" "rfState rf = Candidate \<and> rfVotes rf = 1 \<or> rfState rf = Leader \<and> n div 2 = 0"
    "\<forall>m \<in> new. \<exists>q args. m = VReq p q args \<and> q < n \<and> q \<noteq> p \<and> rvCandidateId args = int p"
  shows "cl_inv n ((set_node p rf s)\<lparr> cNet := cNet s \<union> new, cVoted := insert (p, t, p) (cVoted s) \<rparr>)" (is "cl_inv n ?s'")
proof (rule cl_invI)
  have v: "votes_ok n s" using assms(1) by (simp add: cl_inv_def)
  have fn: "c = p" if "(p, t, c) \<in> cVoted s" for c
  proof -
    have "hs_le (t, int c) (t, int p)" using v that assms(3) unfolding votes_ok_def by fastforce
    then show ?thesis by (auto simp: hs_le_def)
  qed
  show v': "votes_ok n ?s'"
    unfolding votes_ok_def
  proof (intro conjI)
    show "\<forall>m \<in> cNet ?s'. rep_ok n m"
    proof
      fix m assume "m \<in> cNet ?s'"
      then show "rep_ok n m" using v assms(2,9) by (cases "m \<in> new") (auto simp: votes_ok_def rep_ok_def)
    qed
    show "\<forall>c q u r. VRep c q u r \<in> cNet ?s' \<longrightarrow> rvrVoteGranted r \<longrightarrow> (q, u, c) \<in> cVoted ?s'"
      using v assms(9) by (auto simp: votes_ok_def)
    show "\<forall>(q, u, c) \<in> cVoted ?s'. q < n \<and> hs_le (u, int c) (file_hs (cHard ?s' q))"
      using v assms(2,3) by (simp add: votes_ok_def)
    show "\<forall>q u c c'. (q, u, c) \<in> cVoted ?s' \<longrightarrow> (q, u, c') \<in> cVoted ?s' \<longrightarrow> c = c'"
    proof -
      have "c = c'" if "(q, u, c) \<in> cVoted s" "(q, u, c') \<in> cVoted s" for q u c c'
        using v that unfolding votes_ok_def by blast
      then show ?thesis using fn [symmetric] by (auto dest: fn)
    qed
  qed (use v in \<open>simp add: votes_ok_def\<close>)
  fix q assume q: "q < n"
  then have ok: "node_ok n s q" "role_ok n s q" using assms(1) by (simp_all add: cl_inv_def)
  have st: "stored_hs ?s' q = stored_hs s q" by (simp add: stored_hs_def)
  show "node_ok n ?s' q"
    using ok(1) assms(4-7) unfolding node_ok_def st by (auto simp: mem_hs_def)
  show "role_ok n ?s' q"
  proof (cases "q = p")
    case False
    then show ?thesis by (intro role_ok_mono [OF ok(2) v']) auto
  next
    case True
    have t: "rfCurrentTerm rf = t" using assms(7) by (simp add: mem_hs_def)
    have "p \<in> voters ?s' t p" by (simp add: voters_def)
    moreover from this have "0 < card (voters ?s' t p)" using voters_finite [OF v'] card_gt_0_iff by blast
    ultimately show ?thesis using assms(8) True t by (auto simp: role_ok_def Let_def)
  qed
qed

lemma startElection_effect:
  assumes "startElection now rf = (rf', args, req)" "rfPeers rf = n"
  shows "rfMe rf' = rfMe rf" "rfPeers rf' = n" "mem_hs rf' = (rfCurrentTerm rf + 1, int (rfMe rf))"
    "rvTerm args = rfCurrentTerm rf + 1" "rvCandidateId args = int (rfMe rf)"
    "req = PersistHard (rfCurrentTerm rf + 1) (int (rfMe rf))"
    "rfState rf' = Candidate \<and> rfVotes rf' = 1 \<or> rfState rf' = Leader \<and> n div 2 = 0"
  using assms
  by (auto simp: startElection_def Let_def becomeLeader_def resetElectionTimer_def mem_hs_def majority_def
      enqueuePersistHardStateLocked_def split: if_splits)

lemma c_elect_inv:
  assumes "cl_inv n s" "p < n" "startElection now (cNode s p) = (rf, args, req)"
    "s1 = push_sync p (Some req) (set_node p rf s)"
  shows "cl_inv n (s1\<lparr> cNet := cNet s1 \<union> {VReq p q args | q. q < n \<and> q \<noteq> p},
                       cVoted := insert (p, rvTerm args, p) (cVoted s1) \<rparr>)"
proof -
  have ok: "node_ok n s p" using assms(1,2) by (simp add: cl_inv_def)
  then have me: "rfMe (cNode s p) = p" "rfPeers (cNode s p) = n" by (simp_all add: node_ok_def)
  note E = startElection_effect [OF assms(3) me(2), unfolded me(1)]
  let ?t = "rfCurrentTerm (cNode s p) + 1"
  let ?rf0 = "rf\<lparr> rfState := Follower \<rparr>"
  have r: "retreats (cNode s p) ?rf0" using E me by (simp add: retreats_def mem_hs_def hs_le_def)
  let ?s0 = "push_sync p (Some req) (set_node p ?rf0 s)"
  have s0: "cl_inv n ?s0"
    using E(3,6) by (intro push_sync_inv [OF set_node_inv [OF assms(1,2) r] assms(2)]) (simp add: req_hs_def mem_hs_def)
  have hard: "file_hs (cHard ?s0 p) = (?t, int p)" unfolding E(6) by (rule push_sync_hard)
  have eq: "s1 = set_node p rf ?s0"
    unfolding assms(4) push_sync_set_node by (simp add: set_node_def)
  have n0: "mem_hs (cNode ?s0 p) = (?t, int p)" using E(3) by (simp add: mem_hs_def)
  have "cl_inv n ((set_node p rf ?s0)\<lparr> cNet := cNet ?s0 \<union> {VReq p q args | q. q < n \<and> q \<noteq> p},
      cVoted := insert (p, ?t, p) (cVoted ?s0) \<rparr>)"
    by (rule elected_inv [OF s0 assms(2) hard n0 E(1-3,7)]) (use E(5) in auto)
  then show ?thesis by (simp add: eq E(4))
qed

text \<open>A vote that is counted was given, and its call is answered for the first time.\<close>

lemma node_ok_same:
  assumes "node_ok n s q" "stored_hs s' q = stored_hs s q" "mem_hs (cNode s' q) = mem_hs (cNode s q)"
    "rfMe (cNode s' q) = rfMe (cNode s q)" "rfPeers (cNode s' q) = rfPeers (cNode s q)"
    "cHard s' q = cHard s q" "cPend s' q = cPend s q"
  shows "node_ok n s' q"
proof -
  have "rfCurrentTerm (cNode s' q) = rfCurrentTerm (cNode s q)" using assms(3) by (simp add: mem_hs_def)
  then show ?thesis using assms(1) unfolding node_ok_def assms(2-) by simp
qed

lemma counted_inv:
  assumes "cl_inv n s" "c < n" "rfState (cNode s c) = Candidate" "VRep c p t r \<in> cNet s" "rvrVoteGranted r"
    "(c, p, t) \<notin> cDone s" "t = rfCurrentTerm (cNode s c)"
    "rf1 = (cNode s c)\<lparr> rfVotes := rfVotes (cNode s c) + 1 \<rparr>"
    "rf = (if majority rf1 (rfVotes rf1) then becomeLeader now rf1 else rf1)"
  shows "cl_inv n ((set_node c rf s)\<lparr> cDone := insert (c, p, t) (cDone s) \<rparr>)" (is "cl_inv n ?s'")
proof (rule cl_invI)
  have v: "votes_ok n s" using assms(1) by (simp add: cl_inv_def)
  then show v': "votes_ok n ?s'" by (simp add: votes_ok_def)
  have vt: "voters ?s' = voters s" by (simp add: voters_def fun_eq_iff)
  have p: "p \<in> voters s t c" "p \<noteq> c"
    using v assms(4,5) by (auto simp: votes_ok_def voters_def rep_ok_def)
  have okc: "node_ok n s c" "role_ok n s c" using assms(1,2) by (simp_all add: cl_inv_def)
  let ?D = "{q \<in> voters s t c. q \<noteq> c \<and> (c, q, t) \<in> cDone s}"
  let ?D' = "{q \<in> voters s t c. q \<noteq> c \<and> (c, q, t) \<in> cDone ?s'}"
  have fin: "finite (voters s t c)" using v by (rule voters_finite)
  have "?D' = insert p ?D" "p \<notin> ?D" using p assms(6) by auto
  then have card: "card ?D' = card ?D + 1" using fin by simp
  have self: "c \<in> voters s t c" "rfVotes (cNode s c) \<le> 1 + int (card ?D)"
    using okc(2) assms(3,7) by (simp_all add: role_ok_def Let_def)
  have "insert c ?D' \<subseteq> voters s t c" using self(1) by auto
  then have all: "card ?D' + 1 \<le> card (voters s t c)" using card_mono [OF fin, of "insert c ?D'"] fin by simp
  fix q assume q: "q < n"
  then have ok: "node_ok n s q" "role_ok n s q" using assms(1) by (simp_all add: cl_inv_def)
  have mem: "mem_hs rf = mem_hs (cNode s c)" "rfMe rf = rfMe (cNode s c)" "rfPeers rf = rfPeers (cNode s c)"
    "rfCurrentTerm rf = t"
    by (simp_all add: assms(7-9) becomeLeader_def mem_hs_def)
  show "node_ok n ?s' q"
    by (rule node_ok_same [OF ok(1)]) (use mem assms(7) in \<open>simp_all add: stored_hs_def\<close>)
  show "role_ok n ?s' q"
  proof (cases "q = c")
    case False
    then show ?thesis by (intro role_ok_mono [OF ok(2) v']) auto
  next
    case True
    show ?thesis
    proof (cases "majority rf1 (rfVotes rf1)")
      case maj: True
      then have "n div 2 < card (voters s t c)"
        using all card self(2) okc(1) by (simp add: majority_def assms(8) node_ok_def)
      then show ?thesis using True maj mem(4) vt by (simp add: role_ok_def assms(9) becomeLeader_def Let_def)
    next
      case False
      then have rf: "rf = rf1" using assms(9) by simp
      have "rfVotes rf \<le> 1 + int (card ?D')" using self(2) card by (simp add: rf assms(8))
      then show ?thesis using True mem(4) vt self(1) assms(3) by (simp add: role_ok_def rf assms(8) Let_def)
    qed
  qed
qed

lemma done_inv:
  assumes "cl_inv n s" shows "cl_inv n (s\<lparr> cDone := insert d (cDone s) \<rparr>)" (is "cl_inv n ?s'")
proof (rule cl_invI)
  show v': "votes_ok n ?s'" using assms by (simp add: cl_inv_def votes_ok_def)
  fix q assume "q < n"
  then have ok: "node_ok n s q" "role_ok n s q" using assms by (simp_all add: cl_inv_def)
  have "stored_hs ?s' q = stored_hs s q" by (simp add: stored_hs_def)
  then show "node_ok n ?s' q" using ok(1) by (simp add: node_ok_def)
  show "role_ok n ?s' q" by (rule role_ok_mono [OF ok(2) v']) auto
qed

lemma c_reply_inv:
  assumes "cl_inv n s" "VRep c p t r \<in> cNet s" "(c, p, t) \<notin> cDone s" "handleVoteResponse now (cNode s c) r = (rf, req)"
  shows "cl_inv n ((push_sync c req (set_node c rf s))\<lparr> cDone := insert (c, p, t) (cDone s) \<rparr>)"
proof -
  have c: "c < n" "rvrVoteGranted r \<Longrightarrow> rvrTerm r = t"
    using assms(1,2) by (auto simp: cl_inv_def votes_ok_def rep_ok_def)
  consider (down) "rvrTerm r > rfCurrentTerm (cNode s c)" "rf = stepDown (cNode s c) (rvrTerm r)"
      "req = Some (enqueuePersistHardStateLocked rf)"
    | (same) "rf = cNode s c" "req = None"
    | (count) "rfState (cNode s c) = Candidate" "rvrTerm r = rfCurrentTerm (cNode s c)" "rvrVoteGranted r" "req = None"
      "rf = (let rf1 = (cNode s c)\<lparr> rfVotes := rfVotes (cNode s c) + 1 \<rparr>
             in if majority rf1 (rfVotes rf1) then becomeLeader now rf1 else rf1)"
    using assms(4) by (auto simp: handleVoteResponse_def Let_def split: if_splits)
  then show ?thesis
  proof cases
    case down
    have "cl_inv n (push_sync c req (set_node c rf s))"
      using down by (intro push_sync_inv [OF set_node_inv [OF assms(1) c(1)] c(1)]) (simp_all add: retreats_stepDown)
    from done_inv [OF this, of "(c, p, t)"] show ?thesis by simp
  next
    case same
    then show ?thesis
      using done_inv [OF assms(1), of "(c, p, t)"] by (simp add: set_node_def)
  next
    case count
    have "cl_inv n ((set_node c rf s)\<lparr> cDone := insert (c, p, t) (cDone s) \<rparr>)"
      using c(2) [OF count(3)] count(2)
      by (intro counted_inv [OF assms(1) c(1) count(1) assms(2) count(3) assms(3) _ refl count(5) [unfolded Let_def]]) simp
    then show ?thesis using count(4) by simp
  qed
qed

lemma written_inv:
  assumes "cl_inv n s" "p < n" "(x, d) \<in> cEnq s p"
  shows "cl_inv n (s\<lparr> cState := (cState s)(p := Some x), cSnap := f \<rparr>)" (is "cl_inv n ?s'")
proof (rule cl_invI)
  show v': "votes_ok n ?s'" using assms by (simp add: cl_inv_def votes_ok_def)
  fix q assume "q < n"
  then have ok: "node_ok n s q" "role_ok n s q" using assms(1) by (simp_all add: cl_inv_def)
  show "role_ok n ?s' q" by (rule role_ok_mono [OF ok(2) v']) auto
  have "ps_hs x \<in> ps_hs ` fst ` cEnq s p" using imageI [OF imageI [OF assms(3), of fst], of ps_hs] by simp
  then have "stored_hs ?s' q \<subseteq> stored_hs s q"
    by (cases "q = p"; simp add: stored_hs_def image_Un; blast)
  moreover have "sorted_wrt hs_le (file_hs (cHard s q) # map fst (cPend s q))" using ok(1) by (simp only: node_ok_def)
  ultimately show "node_ok n ?s' q" by (intro node_ok_shrink [OF ok(1)]) simp_all
qed

text \<open>A restart reads what the files have.\<close>

lemma crash_node_ok:
  assumes "node_ok n s p" "s' = (set_node p (raft_Make n p et ld now (cState s p) (cHard s p)) s)
       \<lparr> cPend := (cPend s)(p := []), cEnq := (cEnq s)(p := {}) \<rparr>"
  shows "node_ok n s' p"
proof -
  let ?rf = "raft_Make n p et ld now (cState s p) (cHard s p)"
  define x where "x = (case cState s p of None \<Rightarrow> (0, -1) | Some ps \<Rightarrow> ps_hs ps)"
  define y where "y = file_hs (cHard s p)"
  have st: "stored_hs s' p = insert y (ps_hs ` set_option (cState s p))" by (simp add: stored_hs_def assms(2) y_def)
  have sub: "stored_hs s' p \<subseteq> stored_hs s p" unfolding st by (auto simp: stored_hs_def y_def)
  have nn: "\<forall>h \<in> stored_hs s p. 0 \<le> fst h" "\<forall>h \<in> stored_hs s p. \<forall>h' \<in> stored_hs s p. hs_agree h h'"
    using assms(1) by (simp_all add: node_ok_def)
  have x0: "0 \<le> fst x" "\<forall>ps. cState s p = Some ps \<longrightarrow> 0 \<le> psTerm ps"
    using nn(1) by (auto simp: x_def stored_hs_def ps_hs_def split: option.split)
  have y0: "0 \<le> fst y" using nn(1) by (simp add: stored_hs_def y_def)
  have mem: "mem_hs ?rf = (if fst y > fst x \<or> (fst y = fst x \<and> snd y \<noteq> -1) then y else x)"
    using Make_hs [OF x0(2), of n p et ld now "cHard s p"] by (simp add: x_def y_def Let_def)
  have agree: "hs_agree x y"
    using nn(2) by (cases "cState s p") (auto simp: x_def y_def stored_hs_def hs_agree_def)
  have le: "hs_le x (mem_hs ?rf)" "hs_le y (mem_hs ?rf)"
    using agree by (auto simp: mem hs_le_def hs_agree_def)
  have "\<forall>h \<in> stored_hs s' p. 0 \<le> fst h \<and> hs_le h (mem_hs ?rf)"
    using le nn(1) sub unfolding st by (auto simp: x_def)
  moreover have "0 \<le> fst (mem_hs ?rf)" using x0(1) y0 by (simp add: mem)
  moreover have "\<forall>h \<in> stored_hs s' p. \<forall>h' \<in> stored_hs s' p. hs_agree h h'" using sub nn(2) by blast
  moreover have "cNode s' p = ?rf" "cPend s' p = []" by (simp_all add: assms(2))
  ultimately show ?thesis by (simp add: node_ok_def mem_hs_def)
qed

lemma crash_inv:
  assumes "cl_inv n s" "p < n"
  shows "cl_inv n ((set_node p (raft_Make n p et ld now (cState s p) (cHard s p)) s)
       \<lparr> cPend := (cPend s)(p := []), cEnq := (cEnq s)(p := {}) \<rparr>)" (is "cl_inv n ?s'")
proof (rule cl_invI)
  show v': "votes_ok n ?s'" using assms by (simp add: cl_inv_def votes_ok_def pend_ok_def)
  fix q assume "q < n"
  then have ok: "node_ok n s q" "role_ok n s q" using assms(1) by (simp_all add: cl_inv_def)
  show "role_ok n ?s' q" by (rule role_ok_mono [OF ok(2) v']) auto
  show "node_ok n ?s' q"
  proof (cases "q = p")
    case True
    show ?thesis unfolding True by (rule crash_node_ok [OF _ refl]) (use assms in \<open>simp add: cl_inv_def\<close>)
  next
    case False
    then show ?thesis by (intro node_ok_same [OF ok(1)]) (simp_all add: stored_hs_def)
  qed
qed

lemma c_vote_inv:
  assumes "cl_inv n s" "VReq c p args \<in> cNet s" "RequestVote now (cNode s p) args = (rf, reply, req)"
  shows "cl_inv n (push_req p (Some (VRep c p (rvTerm args) reply)) req (set_node p rf s))"
proof -
  have m: "c < n" "p < n" "c \<noteq> p" "rvCandidateId args = int c"
    using assms(1,2) by (auto simp: cl_inv_def votes_ok_def rep_ok_def)
  note R = RequestVote_effect [OF assms(3)]
  have hs: "\<forall>x. req = Some x \<longrightarrow> req_hs x = mem_hs rf" using R(2) by (auto simp: req_hs_def mem_hs_def)
  have "waits_ok n p (Some (VRep c p (rvTerm args) reply)) req"
    using R(2,3) m by (auto simp: waits_ok_def rep_ok_def mem_hs_def)
  then show ?thesis
    using hs by (intro push_req_inv [OF set_node_inv [OF assms(1) m(2) R(1)] m(2)]) simp_all
qed

lemma waits_None [simp]: "waits_ok n p None req"
  by (simp add: waits_ok_def)

lemma cl_step_inv: "cl_step n s s' \<Longrightarrow> cl_inv n s \<Longrightarrow> cl_inv n s'"
proof (induction rule: cl_step.induct)
  case (c_install p now s args rf t reqs msg)
  then show ?case
    using InstallSnapshot_effect [OF c_install(2)] by (intro push_syncs_inv set_node_inv) simp_all
next
  case (c_append p now s args rf reply req)
  then show ?case using handler_retreats(1) [OF c_append(2)] by (intro push_req_inv set_node_inv) simp_all
next
  case (c_append_reply p now s q args reply cnt rf cnt' req)
  then show ?case using handler_retreats(2) [OF c_append_reply(2)] by (intro push_sync_inv set_node_inv) simp_all
next
  case (c_install_reply p s q t rf req)
  then show ?case using handler_retreats(3) [OF c_install_reply(2)] by (intro push_sync_inv set_node_inv) simp_all
next
  case (c_start p s cmd rf r req)
  then show ?case using handler_retreats(5) [OF c_start(2)] by (intro push_req_inv set_node_inv) simp_all
next
  case (c_snapshot p s i d rf req)
  then show ?case using handler_retreats(6) [OF c_snapshot(2)] by (intro push_req_inv set_node_inv) simp_all
qed (simp_all add: c_elect_inv c_vote_inv c_reply_inv flush_hard_inv written_inv crash_inv set_node_inv handler_retreats)

lemma cl_init_inv: "cl_init n s \<Longrightarrow> cl_inv n s"
  by (auto simp: cl_init_def cl_inv_def node_ok_def role_ok_def votes_ok_def pend_ok_def stored_hs_def file_hs_def
      hs_agree_def hs_le_def mem_hs_def raft_Make_def readPersist_def readHardState_def Let_def)

interpretation elections: invariant_system "cl_init n" "cl_step n" "cl_inv n" for n
  by unfold_locales (auto intro: cl_init_inv cl_step_inv)

section \<open>Election safety\<close>

lemma push_req_voted [simp]: "cVoted (push_req p m req s) = cVoted s"
  by (simp add: push_req_def split: option.split persist_req.split)

lemma flush_hard_voted: "cVoted s \<subseteq> cVoted (flush_hard p k s)"
  by (auto simp: flush_hard_def Let_def)

lemma push_sync_voted: "cVoted s \<subseteq> cVoted (push_sync p req s)"
proof -
  have "cVoted s \<subseteq> cVoted (flush_hard p k (push_req p None req s))" for k
    using flush_hard_voted [of "push_req p None req s" p k] by simp
  then show ?thesis by (auto simp: push_sync_def Let_def split: option.split persist_req.split)
qed

lemma push_syncs_voted: "cVoted s \<subseteq> cVoted (fold (\<lambda>r. push_sync p (Some r)) reqs s)"
proof (induction reqs arbitrary: s)
  case (Cons r reqs)
  show ?case using subset_trans [OF push_sync_voted Cons.IH] by simp
qed simp

text \<open>A vote that was given stays given.\<close>

lemma cl_step_voted: "cl_step n s s' \<Longrightarrow> cVoted s \<subseteq> cVoted s'"
proof (induction rule: cl_step.induct)
  case (c_elect p now s rf args req s1)
  then show ?case using push_sync_voted [of "set_node p rf s" p "Some req"] by auto
next
  case (c_reply c p t r s now rf req)
  then show ?case using push_sync_voted [of "set_node c rf s" c req] by simp
next
  case (c_install p now s args rf t reqs msg)
  then show ?case using push_syncs_voted [of "set_node p rf s" p reqs] by simp
next
  case (c_append_reply p now s q args reply cnt rf cnt' req)
  then show ?case using push_sync_voted [of "set_node p rf s" p req] by simp
next
  case (c_install_reply p s q t rf req)
  then show ?case using push_sync_voted [of "set_node p rf s" p req] by simp
qed (simp_all add: flush_hard_voted)

lemma cl_steps_voted: "(cl_step n)\<^sup>*\<^sup>* s s' \<Longrightarrow> cVoted s \<subseteq> cVoted s'"
  by (induction rule: rtranclp_induct) (auto dest: cl_step_voted)

text \<open>Two sets of more than half of the nodes have a node in common.\<close>

lemma quorums_meet:
  assumes "A \<subseteq> {..<n}" "B \<subseteq> {..<n}" "n div 2 < card A" "n div 2 < card B"
  shows "A \<inter> B \<noteq> {}"
proof
  assume "A \<inter> B = {}"
  then have "card (A \<union> B) = card A + card B" using assms(1,2) by (intro card_Un_disjoint) (auto intro: finite_subset)
  moreover have "card (A \<union> B) \<le> n" using card_mono [of "{..<n}" "A \<union> B"] assms(1,2) by simp
  ultimately show False using assms(3,4) by linarith
qed

lemma leader_elected:
  assumes "cl_inv n s" "a < n" "rfState (cNode s a) = Leader"
  shows "n div 2 < card (voters s (rfCurrentTerm (cNode s a)) a)"
  using assms by (auto simp: cl_inv_def role_ok_def Let_def)

text \<open>
  \<^bold>\<open>C30\<close> Election safety of \<open>raft.go\<close>: in a run of a cluster that starts for the
  first time, whatever messages are lost, delayed, repeated or reordered, whichever nodes crash and restart from
  their files, and however late the persister completes its writes, a term has at most one
  leader: a node that leads a term and a node that leads the same term then or at any later time
  are the same node.
\<close>

theorem election_safety:
  assumes "cl_init n s0" "(cl_step n)\<^sup>*\<^sup>* s0 s" "(cl_step n)\<^sup>*\<^sup>* s s'" "a < n" "b < n"
    "rfState (cNode s a) = Leader" "rfState (cNode s' b) = Leader"
    "rfCurrentTerm (cNode s a) = rfCurrentTerm (cNode s' b)"
  shows "a = b"
proof -
  let ?t = "rfCurrentTerm (cNode s a)"
  have inv: "cl_inv n s" by (rule elections.steps_inv [OF assms(2) elections.inv_init [OF assms(1)]])
  have inv': "cl_inv n s'" by (rule elections.steps_inv [OF assms(3) inv])
  have v: "votes_ok n s'" using inv' by (simp add: cl_inv_def)
  have "card (voters s ?t a) \<le> card (voters s' ?t a)"
    using cl_steps_voted [OF assms(3)] voters_finite [OF v] by (intro card_mono) (auto simp: voters_def)
  then have "n div 2 < card (voters s' ?t a)" using leader_elected [OF inv assms(4,6)] by simp
  moreover have "n div 2 < card (voters s' ?t b)" using leader_elected [OF inv' assms(5,7)] assms(8) by simp
  moreover have "voters s' ?t c \<subseteq> {..<n}" for c using v by (auto simp: votes_ok_def voters_def)
  ultimately have "voters s' ?t a \<inter> voters s' ?t b \<noteq> {}" by (intro quorums_meet)
  then obtain p where "(p, ?t, a) \<in> cVoted s'" "(p, ?t, b) \<in> cVoted s'" by (auto simp: voters_def)
  moreover have "\<forall>p t c c'. (p, t, c) \<in> cVoted s' \<longrightarrow> (p, t, c') \<in> cVoted s' \<longrightarrow> c = c'"
    using v unfolding votes_ok_def by (elim conjE)
  ultimately show ?thesis by blast
qed

text \<open>Three nodes: the first asks the second for its vote and leads the first term.\<close>

definition three :: "(unit, unit) cluster" where
  "three = \<lparr> cNode = \<lambda>p. raft_Make 3 p 0 0 0 None None, cHard = \<lambda>_. None, cState = \<lambda>_. None, cSnap = \<lambda>_. None,
     cEnq = \<lambda>_. {}, cPend = \<lambda>_. [], cNet = {}, cDone = {}, cVoted = {} \<rparr>"

definition three_elect :: "(unit, unit) cluster" where
  "three_elect = (let (rf, args, req) = startElection 0 (cNode three 0); s1 = push_sync 0 (Some req) (set_node 0 rf three)
     in s1\<lparr> cNet := cNet s1 \<union> {VReq 0 q args | q. q < 3 \<and> q \<noteq> 0}, cVoted := insert (0, rvTerm args, 0) (cVoted s1) \<rparr>)"

definition three_args :: RequestVoteArgs where
  "three_args = \<lparr> rvTerm = 1, rvCandidateId = 0, rvLastLogIndex = 0, rvLastLogTerm = 0 \<rparr>"

definition three_vote :: "(unit, unit) cluster" where
  "three_vote = (let (rf, reply, req) = RequestVote 0 (cNode three_elect 1) three_args
     in push_req 1 (Some (VRep 0 1 (rvTerm three_args) reply)) req (set_node 1 rf three_elect))"

definition three_reply :: "(unit, unit) cluster" where
  "three_reply = (let s = flush_hard 1 1 three_vote;
       (rf, req) = handleVoteResponse 0 (cNode s 0) \<lparr> rvrTerm = 1, rvrVoteGranted = True \<rparr>
     in (push_sync 0 req (set_node 0 rf s))\<lparr> cDone := insert (0, 1, 1) (cDone s) \<rparr>)"

lemmas three_node = raft_Make_def readPersist_def readHardState_def getLastLogIndex_def getLastLogTerm_def getTerm_def Let_def
  startElection_def resetElectionTimer_def majority_def enqueuePersistHardStateLocked_def RequestVote_def
  handleVoteResponse_def becomeLeader_def

lemmas three_run = three_node push_sync_def push_req_def flush_hard_def released_def

lemma three_elect_step: "cl_step 3 three three_elect"
  unfolding three_elect_def Let_def case_prod_unfold by (rule c_elect) simp_all

lemma three_vote_step: "cl_step 3 three_elect three_vote"
  unfolding three_vote_def Let_def case_prod_unfold
  by (rule c_vote) (simp_all add: three_elect_def three_def three_args_def three_run)

lemma three_voted:
  "VRep 0 1 1 \<lparr> rvrTerm = 1, rvrVoteGranted = True \<rparr> \<in> cNet (flush_hard 1 1 three_vote)"
  "(0, 1, 1) \<notin> cDone (flush_hard 1 1 three_vote)"
  by (simp_all add: three_vote_def three_elect_def three_def three_args_def three_run)

lemma three_reply_step: "cl_step 3 (flush_hard 1 1 three_vote) three_reply"
  unfolding three_reply_def Let_def case_prod_unfold
  by (rule c_reply [OF three_voted prod.collapse [symmetric]])

lemma three_steps: "(cl_step 3)\<^sup>*\<^sup>* three three_reply"
  by (rule converse_rtranclp_into_rtranclp, rule three_elect_step, rule converse_rtranclp_into_rtranclp,
      rule three_vote_step, rule converse_rtranclp_into_rtranclp, rule c_flush [of 1 _ _ 1], simp,
      rule r_into_rtranclp, rule three_reply_step)

lemma three_init: "cl_init 3 three"
  by (auto simp: cl_init_def three_def)

lemma three_leader: "rfState (cNode three_reply 0) = Leader" "rfCurrentTerm (cNode three_reply 0) = 1"
  by (simp_all add: three_reply_def three_vote_def three_elect_def three_def three_args_def three_run)

theorem election_safety_witness:
  "rfState (cNode three_reply 0) = Leader \<and>
   \<not> (rfState (cNode three_reply 1) = Leader \<and> rfCurrentTerm (cNode three_reply 1) = rfCurrentTerm (cNode three_reply 0))"
  using election_safety [OF three_init three_steps rtranclp.rtrancl_refl, of 0 1] three_leader by auto

end
