(* ===== verification/Topology.thy ===== *)
theory Topology
  imports Prelude
begin

text \<open>
  The ownership table of the shards (\<^verbatim>\<open>src/pkg/sharding/topology.go\<close>): a key has a shard, a shard
  has a group, and groups are added and shards moved at run time. The hash function (the
  package \<open>xxhash\<close>) is a parameter. A Go map is an association list with distinct keys; the map
  of the groups is only ever visited after sorting its keys.
\<close>

section \<open>The table\<close>

record ShardTopology =
  stNumShards :: nat
  stEpoch :: int64
  stShardToGroup :: "goint list"
  stGroups :: "(goint \<times> string list) list"

definition topo_GroupIDs :: "ShardTopology \<Rightarrow> goint list" where
  "topo_GroupIDs st = sort_key sint (map fst (stGroups st))"

text \<open>\<open>None\<close> is the division by zero of a topology without groups.\<close>

definition NewShardTopology :: "int \<Rightarrow> (goint \<times> string list) list \<Rightarrow> ShardTopology option" where
  "NewShardTopology numShards0 groups =
     (let numShards = (if numShards0 < 1 then 1024 else nat numShards0);
          groupIDs = sort_key sint (map fst groups)
      in if groupIDs = [] then None
         else Some \<lparr> stNumShards = numShards, stEpoch = 1,
                     stShardToGroup = map (\<lambda>i. groupIDs ! (i mod length groupIDs)) [0..<numShards],
                     stGroups = groups \<rparr>)"

text \<open>\<open>None\<close> is the nil of an owner table that does not fit.\<close>

definition NewShardTopologyWithOwnership ::
  "int \<Rightarrow> (goint \<times> string list) list \<Rightarrow> goint list \<Rightarrow> int64 \<Rightarrow> ShardTopology option" where
  "NewShardTopologyWithOwnership numShards groups owners epoch =
     (if numShards < 1 \<or> groups = [] \<or> int (length owners) \<noteq> numShards then None
      else case NewShardTopology numShards groups of
             None \<Rightarrow> None
           | Some st \<Rightarrow>
               if \<exists>gid \<in> set owners. gid \<notin> fst ` set groups then None
               else Some (st\<lparr> stShardToGroup := owners,
                              stEpoch := (if sint epoch > 0 then epoch else stEpoch st) \<rparr>))"

definition topo_shardForKey :: "(string \<Rightarrow> uint64) \<Rightarrow> ShardTopology \<Rightarrow> string \<Rightarrow> nat" where
  "topo_shardForKey h st key = unat (h key) mod stNumShards st"

text \<open>\<open>None\<close> is an index out of range.\<close>

definition topo_ResolveWithEpoch :: "(string \<Rightarrow> uint64) \<Rightarrow> ShardTopology \<Rightarrow> string \<Rightarrow> (goint \<times> int64) option" where
  "topo_ResolveWithEpoch h st key =
     (let shard = topo_shardForKey h st key
      in if shard < length (stShardToGroup st) then Some (stShardToGroup st ! shard, stEpoch st) else None)"

definition topo_Resolve :: "(string \<Rightarrow> uint64) \<Rightarrow> ShardTopology \<Rightarrow> string \<Rightarrow> goint option" where
  "topo_Resolve h st key = map_option fst (topo_ResolveWithEpoch h st key)"

definition topo_GroupForShard :: "ShardTopology \<Rightarrow> int \<Rightarrow> goint option" where
  "topo_GroupForShard st shard =
     (if shard < 0 \<or> shard \<ge> int (length (stShardToGroup st)) then None else Some (stShardToGroup st ! nat shard))"

definition RegisterGroup :: "ShardTopology \<Rightarrow> goint \<Rightarrow> string list \<Rightarrow> ShardTopology \<times> bool" where
  "RegisterGroup st gid replicas =
     (if sint gid \<le> 0 \<or> replicas = [] then (st, False)
      else if map_of (stGroups st) gid \<noteq> None then (st, True)
      else (st\<lparr> stGroups := AList.update gid replicas (stGroups st) \<rparr>, True))"

definition MoveShard :: "ShardTopology \<Rightarrow> int \<Rightarrow> goint \<Rightarrow> ShardTopology \<times> bool" where
  "MoveShard st shard toGroup =
     (if shard < 0 \<or> shard \<ge> int (stNumShards st) then (st, False)
      else if map_of (stGroups st) toGroup = None then (st, False)
      else (st\<lparr> stShardToGroup := (stShardToGroup st)[nat shard := toGroup], stEpoch := stEpoch st + 1 \<rparr>, True))"

section \<open>Adding a group\<close>

record plan =
  plOwners :: "goint list"
  plCounts :: "goint \<Rightarrow> int"
  plMoved :: "nat list"

text \<open>The scan from the last shard down for one that \<open>from\<close> owns.\<close>

fun last_owned :: "goint list \<Rightarrow> goint \<Rightarrow> nat \<Rightarrow> nat option" where
  "last_owned owners from 0 = None"
| "last_owned owners from (Suc i) = (if owners ! i = from then Some i else last_owned owners from i)"

definition move_one :: "goint \<Rightarrow> goint \<Rightarrow> nat \<Rightarrow> plan \<Rightarrow> plan" where
  "move_one gid from shard p =
     \<lparr> plOwners = (plOwners p)[shard := gid],
       plCounts = (let c = (plCounts p)(from := plCounts p from - 1) in c(gid := c gid + 1)),
       plMoved = plMoved p @ [shard] \<rparr>"

text \<open>
  The loop that takes shards from one group, which goes round for ever when it finds none to
  take: \<open>None\<close> is not returning.
\<close>

partial_function (option) take_shards :: "goint \<Rightarrow> int \<Rightarrow> goint \<Rightarrow> plan \<Rightarrow> plan option" where
  "take_shards gid target from p =
     (if plCounts p from > target \<and> plCounts p gid < target
      then (case last_owned (plOwners p) from (length (plOwners p)) of
              None \<Rightarrow> take_shards gid target from p
            | Some shard \<Rightarrow> take_shards gid target from (move_one gid from shard p))
      else Some p)"

fun take_groups :: "goint \<Rightarrow> int \<Rightarrow> goint list \<Rightarrow> plan \<Rightarrow> plan option" where
  "take_groups gid target [] p = Some p"
| "take_groups gid target (from # ids) p =
     (if from = gid then take_groups gid target ids p
      else case take_shards gid target from p of
             None \<Rightarrow> None
           | Some p' \<Rightarrow> take_groups gid target ids p')"

text \<open>The outer option is not returning, the inner one the two nil slices of a refused group.\<close>

definition PlanAddGroup :: "ShardTopology \<Rightarrow> goint \<Rightarrow> string list \<Rightarrow> (goint list \<times> nat list) option option" where
  "PlanAddGroup st gid replicas =
     (if map_of (stGroups st) gid \<noteq> None \<or> replicas = [] then Some None
      else
        let owners = stShardToGroup st;
            counts = (\<lambda>g. int (count_list owners g))(gid := 0);
            target = int (stNumShards st) div (int (length (stGroups st)) + 1);
            ids = sort_key sint (topo_GroupIDs st @ [gid])
        in map_option (\<lambda>p. Some (plOwners p, plMoved p))
             (take_groups gid target ids \<lparr> plOwners = owners, plCounts = counts, plMoved = [] \<rparr>))"

section \<open>The table is well formed\<close>

definition topo_ok :: "ShardTopology \<Rightarrow> bool" where
  "topo_ok st \<longleftrightarrow>
     0 < stNumShards st \<and> length (stShardToGroup st) = stNumShards st
     \<and> set (stShardToGroup st) \<subseteq> fst ` set (stGroups st) \<and> distinct (map fst (stGroups st))"

definition topo_init :: "ShardTopology \<Rightarrow> bool" where
  "topo_init st \<longleftrightarrow> (\<exists>n groups. distinct (map fst groups) \<and>
     (NewShardTopology n groups = Some st
      \<or> (\<exists>owners epoch. NewShardTopologyWithOwnership n groups owners epoch = Some st)))"

inductive topo_step :: "ShardTopology \<Rightarrow> ShardTopology \<Rightarrow> bool" where
  tp_register: "topo_step st (fst (RegisterGroup st gid replicas))"
| tp_move: "topo_step st (fst (MoveShard st shard gid))"

lemma NewShardTopology_ok:
  assumes "NewShardTopology n groups = Some st" "distinct (map fst groups)"
  shows "topo_ok st"
proof -
  have "sort_key sint (map fst groups) ! (i mod length groups) \<in> fst ` set groups" if "groups \<noteq> []" for i
    using that nth_mem [of "i mod length groups" "sort_key sint (map fst groups)"] by simp
  then show ?thesis
    using assms by (cases "groups = []") (auto simp: NewShardTopology_def topo_ok_def Let_def split: if_splits)
qed

lemma NewShardTopologyWithOwnership_ok:
  assumes "NewShardTopologyWithOwnership n groups owners epoch = Some st" "distinct (map fst groups)"
  shows "topo_ok st"
proof -
  obtain st0 where st0: "NewShardTopology n groups = Some st0" and n: "\<not> n < 1" "int (length owners) = n"
    and sub: "set owners \<subseteq> fst ` set groups"
    and st: "st = st0\<lparr> stShardToGroup := owners, stEpoch := (if sint epoch > 0 then epoch else stEpoch st0) \<rparr>"
    using assms(1) by (auto simp: NewShardTopologyWithOwnership_def split: if_splits option.splits)
  have "stNumShards st0 = length owners" "stGroups st0 = groups"
    using st0 n by (auto simp: NewShardTopology_def Let_def split: if_splits)
  then show ?thesis using NewShardTopology_ok [OF st0 assms(2)] sub n by (simp add: topo_ok_def st)
qed

lemma RegisterGroup_ok: "topo_ok st \<Longrightarrow> topo_ok (fst (RegisterGroup st gid replicas))"
  by (auto simp: topo_ok_def RegisterGroup_def AList.distinct_update dom_update)

lemma MoveShard_ok: "topo_ok st \<Longrightarrow> topo_ok (fst (MoveShard st shard gid))"
  by (auto simp: topo_ok_def MoveShard_def map_of_eq_None_iff dest: subsetD [OF set_update_subset_insert])

interpretation topologies: invariant_system topo_init topo_step topo_ok
proof unfold_locales
  fix s t assume "topo_ok s" "topo_step s t"
  then show "topo_ok t" by (cases rule: topo_step.cases [OF \<open>topo_step s t\<close>]) (simp_all add: RegisterGroup_ok MoveShard_ok)
qed (auto simp: topo_init_def NewShardTopology_ok NewShardTopologyWithOwnership_ok)

text \<open>
  \<^bold>\<open>C31\<close> The routing table is well typed: in every topology that the constructors, the
  registration of groups and the moves of shards can reach, a key has a shard inside the table
  and resolves, without an index out of range, to a group that is registered; every shard has
  such an owner.
\<close>

theorem topology_resolves_registered:
  assumes "reach topo_init topo_step st"
  shows "topo_shardForKey h st key < stNumShards st
    \<and> (\<exists>gid. topo_Resolve h st key = Some gid \<and> map_of (stGroups st) gid \<noteq> None
          \<and> topo_GroupForShard st (int (topo_shardForKey h st key)) = Some gid)
    \<and> (\<forall>shard < stNumShards st. \<exists>gid. topo_GroupForShard st (int shard) = Some gid \<and> map_of (stGroups st) gid \<noteq> None)"
proof -
  have ok: "topo_ok st" using assms by (rule topologies.reach_inv)
  then have s: "topo_shardForKey h st key < stNumShards st" by (simp add: topo_ok_def topo_shardForKey_def)
  have own: "map_of (stGroups st) (stShardToGroup st ! i) \<noteq> None" if "i < stNumShards st" for i
    using ok that nth_mem [of i "stShardToGroup st"] by (auto simp: topo_ok_def map_of_eq_None_iff)
  show ?thesis
    using ok s own own [OF s]
    by (simp add: topo_Resolve_def topo_ResolveWithEpoch_def Let_def topo_GroupForShard_def topo_ok_def)
qed

text \<open>Two groups and four shards, of which one has moved to a third group.\<close>

definition two_groups :: "(goint \<times> string list) list" where
  "two_groups = [(1, [''a'']), (2, [''b''])]"

definition demo_topology :: ShardTopology where
  "demo_topology = fst (MoveShard (fst (RegisterGroup (the (NewShardTopology 4 two_groups)) 3 [''c''])) 1 3)"

lemma demo_topology_reach: "reach topo_init topo_step demo_topology"
proof -
  have "topo_init (the (NewShardTopology 4 two_groups))"
    unfolding topo_init_def by (intro exI [of _ 4] exI [of _ two_groups]) (simp add: NewShardTopology_def two_groups_def Let_def)
  then have "reach topo_init topo_step (the (NewShardTopology 4 two_groups))" by (rule reach_init)
  then have "reach topo_init topo_step (fst (RegisterGroup (the (NewShardTopology 4 two_groups)) 3 [''c'']))"
    using tp_register by (rule reach_step)
  then show ?thesis unfolding demo_topology_def using tp_move by (rule reach_step)
qed

theorem topology_resolves_registered_witness:
  "topo_Resolve (\<lambda>_. 5) demo_topology ''k'' = Some 3 \<and> map_of (stGroups demo_topology) 3 \<noteq> None"
proof -
  have "topo_Resolve (\<lambda>_. 5) demo_topology ''k'' = Some 3"
    by (simp add: demo_topology_def two_groups_def MoveShard_def RegisterGroup_def NewShardTopology_def Let_def
        topo_Resolve_def topo_ResolveWithEpoch_def topo_shardForKey_def upt_rec)
  then show ?thesis using topology_resolves_registered [OF demo_topology_reach, of "\<lambda>_. 5" "''k''"] by auto
qed

section \<open>Adding a group is balanced\<close>

lemma last_owned_Some: "last_owned owners from n = Some i \<Longrightarrow> i < n \<and> owners ! i = from"
  by (induction n) (auto split: if_splits)

lemma last_owned_None: "last_owned owners from n = None \<Longrightarrow> \<forall>i < n. owners ! i \<noteq> from"
  by (induction n) (auto split: if_splits simp: less_Suc_eq)

lemma count_list_update:
  assumes "i < length xs"
  shows "int (count_list (xs[i := y]) g) = int (count_list xs g) - (if g = xs ! i then 1 else 0) + (if g = y then 1 else 0)"
proof -
  have "xs ! i \<in># mset xs" using assms by simp
  then have "count (mset xs) (xs ! i) > 0" by (simp only: count_greater_zero_iff)
  then show ?thesis
    using assms by (simp add: count_mset [symmetric] mset_update)
qed

text \<open>
  How far the plan is: the shards it has moved are the new group's, the others are where they
  were, and the counts are those of the table.
\<close>

definition planned :: "goint list \<Rightarrow> goint \<Rightarrow> plan \<Rightarrow> bool" where
  "planned old gid p \<longleftrightarrow>
     length (plOwners p) = length old \<and> gid \<notin> set old
     \<and> distinct (plMoved p) \<and> set (plMoved p) \<subseteq> {..<length old}
     \<and> (\<forall>i < length old. plOwners p ! i = (if i \<in> set (plMoved p) then gid else old ! i))
     \<and> plCounts p = (\<lambda>g. int (count_list (plOwners p) g)) \<and> count_list (plOwners p) gid = length (plMoved p)"

lemma planned_move_one:
  assumes "planned old gid p" "from \<noteq> gid" "i < length old" "plOwners p ! i = from"
  shows "planned old gid (move_one gid from i p)"
proof -
  have "i \<notin> set (plMoved p)" using assms by (auto simp: planned_def)
  moreover have "plCounts (move_one gid from i p) = (\<lambda>g. int (count_list (plOwners (move_one gid from i p)) g))"
    using assms by (auto simp: planned_def move_one_def Let_def count_list_update fun_eq_iff)
  moreover have "int (count_list (plOwners (move_one gid from i p)) gid) = int (length (plMoved (move_one gid from i p)))"
    using assms by (simp add: planned_def move_one_def count_list_update)
  ultimately show ?thesis using assms by (auto simp: planned_def move_one_def nth_list_update)
qed

text \<open>The loop returns: a group with shards to give has one to take.\<close>

lemma take_shards_returns:
  assumes "planned old gid p" "from \<noteq> gid" "0 \<le> target"
  shows "\<exists>p'. take_shards gid target from p = Some p' \<and> planned old gid p'
    \<and> \<not> (plCounts p' from > target \<and> plCounts p' gid < target)
    \<and> plCounts p gid \<le> plCounts p' gid \<and> plCounts p' gid \<le> max target (plCounts p gid)
    \<and> (\<forall>g. g \<noteq> gid \<longrightarrow> min target (plCounts p g) \<le> plCounts p' g \<and> plCounts p' g \<le> plCounts p g)"
  using assms
proof (induction "nat (target - plCounts p gid)" arbitrary: p rule: less_induct)
  case less
  show ?case
  proof (cases "plCounts p from > target \<and> plCounts p gid < target")
    case False
    then show ?thesis using less.prems by (subst take_shards.simps) auto
  next
    case True
    have pos: "0 < count_list (plOwners p) from" using less.prems(1,3) True by (simp add: planned_def)
    then have "from \<in> set (plOwners p)" by (metis count_list_0_iff less_numeral_extra(3))
    then obtain i where i: "last_owned (plOwners p) from (length (plOwners p)) = Some i"
      using last_owned_None [of "plOwners p" "from" "length (plOwners p)"] by (fastforce simp: in_set_conv_nth)
    have il: "i < length old" "plOwners p ! i = from"
      using last_owned_Some [OF i] less.prems(1) by (simp_all add: planned_def)
    let ?q = "move_one gid from i p"
    have q: "planned old gid ?q" by (rule planned_move_one [OF less.prems(1,2) il])
    have c: "plCounts ?q gid = plCounts p gid + 1" "plCounts ?q from = plCounts p from - 1"
      "\<And>g. g \<noteq> gid \<Longrightarrow> g \<noteq> from \<Longrightarrow> plCounts ?q g = plCounts p g"
      using less.prems(2) by (simp_all add: move_one_def Let_def)
    obtain p' where p': "take_shards gid target from ?q = Some p'" "planned old gid p'"
      "\<not> (plCounts p' from > target \<and> plCounts p' gid < target)"
      "plCounts ?q gid \<le> plCounts p' gid \<and> plCounts p' gid \<le> max target (plCounts ?q gid)"
      "\<forall>g. g \<noteq> gid \<longrightarrow> min target (plCounts ?q g) \<le> plCounts p' g \<and> plCounts p' g \<le> plCounts ?q g"
      using less.hyps [OF _ q less.prems(2,3)] True c(1) by auto
    have "take_shards gid target from p = Some p'" using True i p'(1) by (subst take_shards.simps) simp
    moreover have "min target (plCounts p g) \<le> plCounts p' g \<and> plCounts p' g \<le> plCounts p g" if "g \<noteq> gid" for g
      using p'(5) [rule_format, OF that] True c(2) c(3) [OF that] by (cases "g = from") auto
    ultimately show ?thesis using p'(2-4) True c(1) by auto
  qed
qed

lemma take_groups_returns:
  assumes "planned old gid p" "0 \<le> target" "plCounts p gid \<le> target"
  shows "\<exists>p'. take_groups gid target ids p = Some p' \<and> planned old gid p'
    \<and> plCounts p gid \<le> plCounts p' gid \<and> plCounts p' gid \<le> target
    \<and> (plCounts p' gid = target \<or> (\<forall>g \<in> set ids. g \<noteq> gid \<longrightarrow> plCounts p' g \<le> target))
    \<and> (\<forall>g. g \<noteq> gid \<longrightarrow> min target (plCounts p g) \<le> plCounts p' g \<and> plCounts p' g \<le> plCounts p g)"
  using assms
proof (induction ids arbitrary: p)
  case (Cons "from" ids)
  show ?case
  proof (cases "from = gid")
    case True
    then show ?thesis using Cons.IH [OF Cons.prems] by simp
  next
    case False
    obtain q where q: "take_shards gid target from p = Some q" "planned old gid q"
      "\<not> (plCounts q from > target \<and> plCounts q gid < target)"
      "plCounts p gid \<le> plCounts q gid \<and> plCounts q gid \<le> max target (plCounts p gid)"
      "\<forall>g. g \<noteq> gid \<longrightarrow> min target (plCounts p g) \<le> plCounts q g \<and> plCounts q g \<le> plCounts p g"
      using take_shards_returns [OF Cons.prems(1) False Cons.prems(2)] by blast
    have qt: "plCounts q gid \<le> target" using q(4) Cons.prems(3) by simp
    obtain p' where p': "take_groups gid target ids q = Some p'" "planned old gid p'"
      "plCounts q gid \<le> plCounts p' gid \<and> plCounts p' gid \<le> target"
      "plCounts p' gid = target \<or> (\<forall>g \<in> set ids. g \<noteq> gid \<longrightarrow> plCounts p' g \<le> target)"
      "\<forall>g. g \<noteq> gid \<longrightarrow> min target (plCounts q g) \<le> plCounts p' g \<and> plCounts p' g \<le> plCounts q g"
      using Cons.IH [OF q(2) Cons.prems(2) qt] by blast
    have g: "min target (plCounts p g) \<le> plCounts p' g \<and> plCounts p' g \<le> plCounts p g" if "g \<noteq> gid" for g
      using q(5) [rule_format, OF that] p'(5) [rule_format, OF that] by linarith
    have "plCounts p' from \<le> target" if "plCounts p' gid \<noteq> target"
      using that q(3) p'(3) p'(5) [rule_format, OF False] by linarith
    then have "plCounts p' gid = target \<or> (\<forall>g \<in> set (from # ids). g \<noteq> gid \<longrightarrow> plCounts p' g \<le> target)"
      using p'(4) by auto
    then show ?thesis using False q(1,4) p'(1-3) g by (intro exI [of _ p']) auto
  qed
qed simp

text \<open>A table of \<open>n\<close> shards whose groups have at most \<open>target\<close> each is too small for one more group.\<close>

lemma new_group_full:
  assumes "set (plOwners p) \<subseteq> insert gid (set ids)" "\<forall>g \<in> set ids. g \<noteq> gid \<longrightarrow> int (count_list (plOwners p) g) \<le> target"
    "gid \<notin> set ids" "int (count_list (plOwners p) gid) < target" "0 \<le> target"
    "(int (card (set ids)) + 1) * target \<le> int (length (plOwners p))"
  shows False
proof -
  have "length (plOwners p) = (\<Sum>g \<in> insert gid (set ids). count_list (plOwners p) g)"
    using assms(1) by (intro sum_count_set [symmetric]) simp_all
  also have "\<dots> = count_list (plOwners p) gid + (\<Sum>g \<in> set ids. count_list (plOwners p) g)"
    using assms(3) by simp
  finally have "int (length (plOwners p)) = int (count_list (plOwners p) gid) + (\<Sum>g \<in> set ids. int (count_list (plOwners p) g))"
    by simp
  also have "(\<Sum>g \<in> set ids. int (count_list (plOwners p) g)) \<le> of_nat (card (set ids)) * target"
    using assms(2,3) by (intro sum_bounded_above) auto
  finally show False using assms(4,6) by (simp add: algebra_simps)
qed

text \<open>
  \<^bold>\<open>C32\<close> Planning a new group ends and is balanced: on every reachable topology, for a
  group it does not have, \<open>PlanAddGroup\<close> returns (its loop, which would go round for ever if a group had
  fewer shards than counted, always finds a shard to take); the new group gets exactly
  the integer quotient of the shards by the new number of groups, by moving that many distinct
  shards and no more; every other shard stays, and no group is left with less than the
  quotient because of the plan.
\<close>

theorem PlanAddGroup_balances:
  assumes "reach topo_init topo_step st" "map_of (stGroups st) gid = None" "replicas \<noteq> []"
  shows "\<exists>owners moved. PlanAddGroup st gid replicas = Some (Some (owners, moved))
    \<and> length owners = stNumShards st
    \<and> count_list owners gid = stNumShards st div (length (stGroups st) + 1)
    \<and> length moved = stNumShards st div (length (stGroups st) + 1) \<and> distinct moved
    \<and> (\<forall>i < stNumShards st. owners ! i = (if i \<in> set moved then gid else stShardToGroup st ! i))
    \<and> (\<forall>g. g \<noteq> gid \<longrightarrow> min (stNumShards st div (length (stGroups st) + 1)) (count_list (stShardToGroup st) g) \<le> count_list owners g
           \<and> count_list owners g \<le> count_list (stShardToGroup st) g)"
proof -
  let ?n = "stNumShards st" and ?old = "stShardToGroup st"
  define target where "target = ?n div (length (stGroups st) + 1)"
  have t: "int target = int ?n div (int (length (stGroups st)) + 1)" by (simp add: target_def zdiv_int add.commute)
  have ok: "topo_ok st" using assms(1) by (rule topologies.reach_inv)
  have len: "length ?old = ?n" and sub: "set ?old \<subseteq> fst ` set (stGroups st)" and d: "distinct (map fst (stGroups st))"
    using ok by (simp_all add: topo_ok_def)
  have new: "gid \<notin> fst ` set (stGroups st)" using assms(2) by (simp add: map_of_eq_None_iff)
  then have gid: "gid \<notin> set ?old" using sub by blast
  let ?p = "\<lparr> plOwners = ?old, plCounts = (\<lambda>g. int (count_list ?old g))(gid := 0), plMoved = [] \<rparr>"
  have p: "planned ?old gid ?p" using gid by (auto simp: planned_def fun_eq_iff count_list_0_iff)
  let ?ids = "sort_key sint (topo_GroupIDs st @ [gid])"
  have ids: "set ?ids = insert gid (fst ` set (stGroups st))" by (simp add: topo_GroupIDs_def)
  obtain p' where p': "take_groups gid (int target) ?ids ?p = Some p'" "planned ?old gid p'" "plCounts p' gid \<le> int target"
    "plCounts p' gid = int target \<or> (\<forall>g \<in> set ?ids. g \<noteq> gid \<longrightarrow> plCounts p' g \<le> int target)"
    "\<forall>g. g \<noteq> gid \<longrightarrow> min (int target) (plCounts ?p g) \<le> plCounts p' g \<and> plCounts p' g \<le> plCounts ?p g"
    using take_groups_returns [OF p, of "int target" ?ids] by auto
  have own: "length (plOwners p') = ?n" "plCounts p' = (\<lambda>g. int (count_list (plOwners p') g))"
    "count_list (plOwners p') gid = length (plMoved p')" "distinct (plMoved p')"
    "\<forall>i < ?n. plOwners p' ! i = (if i \<in> set (plMoved p') then gid else ?old ! i)"
    using p'(2) len by (simp_all add: planned_def)
  have setp: "set (plOwners p') \<subseteq> insert gid (fst ` set (stGroups st))"
  proof
    fix g assume "g \<in> set (plOwners p')"
    then obtain i where i: "i < ?n" "g = plOwners p' ! i" using own(1) by (auto simp: in_set_conv_nth)
    have "?old ! i \<in> fst ` set (stGroups st)" using subsetD [OF sub nth_mem] i(1) len by simp
    then show "g \<in> insert gid (fst ` set (stGroups st))" using own(5) i by simp
  qed
  have "card (fst ` set (stGroups st)) = length (stGroups st)" using distinct_card [OF d] by simp
  moreover have "int ((length (stGroups st) + 1) * target) \<le> int ?n"
    unfolding of_nat_le_iff target_def by (rule times_div_less_eq_dividend)
  ultimately have room: "(int (card (fst ` set (stGroups st))) + 1) * int target \<le> int (length (plOwners p'))"
    using own(1) by (simp add: algebra_simps)
  have full: "plCounts p' gid = int target"
  proof (rule ccontr)
    assume "plCounts p' gid \<noteq> int target"
    then have "\<forall>g \<in> insert gid (fst ` set (stGroups st)). g \<noteq> gid \<longrightarrow> plCounts p' g \<le> int target"
      and "plCounts p' gid < int target"
      using p'(3,4) unfolding ids by auto
    then show False
      using new_group_full [of p' gid "map fst (stGroups st)" "int target"] setp own(2) new room by simp
  qed
  have "PlanAddGroup st gid replicas = Some (Some (plOwners p', plMoved p'))"
    using assms(2,3) p'(1) by (simp add: PlanAddGroup_def Let_def t)
  moreover have "min target (count_list ?old g) \<le> count_list (plOwners p') g \<and> count_list (plOwners p') g \<le> count_list ?old g"
    if "g \<noteq> gid" for g
    using p'(5) [rule_format, OF that] own(2) that by (simp add: min_def split: if_splits)
  moreover have "count_list (plOwners p') gid = target" using full own(2) by simp
  ultimately show ?thesis unfolding target_def [symmetric] using own by (intro exI [of _ "plOwners p'"] exI [of _ "plMoved p'"]) simp
qed

theorem PlanAddGroup_balances_witness:
  "\<exists>owners moved. PlanAddGroup (the (NewShardTopology 4 two_groups)) 3 [''c''] = Some (Some (owners, moved)) \<and> length moved = 1"
proof -
  let ?st = "the (NewShardTopology 4 two_groups)"
  have i: "reach topo_init topo_step ?st"
    by (rule reach_init, unfold topo_init_def, intro exI [of _ 4] exI [of _ two_groups])
       (simp add: NewShardTopology_def two_groups_def Let_def)
  have g: "map_of (stGroups ?st) 3 = None" "stNumShards ?st = 4" "length (stGroups ?st) = 2"
    by (simp_all add: NewShardTopology_def two_groups_def Let_def)
  show ?thesis using PlanAddGroup_balances [OF i g(1), of "[''c'']"] g(2,3) by auto
qed

end
