(* ===== verification/Proto.thy ===== *)
theory Proto
  imports Kv_Api Go_Strings
begin

text \<open>
  The messages of the gRPC service (\<^verbatim>\<open>src/api/pb/kvraft.proto\<close>) that the router, the clients and the
  handlers exchange, and the texts of the error codes.
\<close>

section \<open>Error codes\<close>

fun errReply :: "Err \<Rightarrow> string" where
  "errReply OK = ''OK''"
| "errReply ErrNoKey = ''ErrNoKey''"
| "errReply ErrWrongLeader = ''ErrWrongLeader''"
| "errReply ErrVersion = ''ErrVersion''"
| "errReply ErrMaybe = ''ErrMaybe''"
| "errReply ErrWrongGroup = ''ErrWrongGroup''"
| "errReply ErrTxConflict = ''ErrTxConflict''"
| "errReply ErrTxNotFound = ''ErrTxNotFound''"
| "errReply ErrTxTimeout = ''ErrTxTimeout''"

text \<open>The texts of the codes come back as the codes; any other text is \<open>ErrWrongLeader\<close>.\<close>

definition mapPBErr :: "string \<Rightarrow> Err" where
  "mapPBErr errText =
     (if errText = ''OK'' \<or> errText = [] then OK
      else if errText = ''ErrNoKey'' then ErrNoKey
      else if errText = ''ErrWrongLeader'' then ErrWrongLeader
      else if errText = ''ErrVersion'' then ErrVersion
      else if errText = ''ErrMaybe'' then ErrMaybe
      else if errText = ''ErrWrongGroup'' then ErrWrongGroup
      else if errText = ''ErrTxConflict'' then ErrTxConflict
      else if errText = ''ErrTxNotFound'' then ErrTxNotFound
      else if errText = ''ErrTxTimeout'' then ErrTxTimeout
      else if str_contains (to_lower errText) ''unimplemented'' then ErrWrongLeader
      else if str_contains (to_lower errText) ''wrong'' \<and> str_contains (to_lower errText) ''leader'' then ErrWrongLeader
      else ErrWrongLeader)"

lemma mapPBErr_errReply [simp]: "mapPBErr (errReply e) = e"
  by (cases e) (simp_all add: mapPBErr_def)

lemma errReply_eq [simp]: "errReply e = errReply e' \<longleftrightarrow> e = e'"
  by (metis mapPBErr_errReply)

section \<open>Messages\<close>

type_synonym int32 = "32 word"

record GetResponse =
  gpValue :: string
  gpVersion :: int64
  gpError :: string
  gpExpires :: int64
  gpHintGroupId :: int32
  gpHintReplicas :: "string list"
  gpHintEpoch :: int64

record PutRequest =
  pqKey :: string
  pqValue :: string
  pqVersion :: int64
  pqTtlSeconds :: int64

record PutResponse =
  ppError :: string
  ppHintGroupId :: int32
  ppHintReplicas :: "string list"
  ppHintEpoch :: int64

record DeleteResponse =
  dpError :: string
  dpHintGroupId :: int32
  dpHintReplicas :: "string list"
  dpHintEpoch :: int64

record ScanRequest =
  sqPrefix :: string
  sqLimit :: int32

record KeyValue =
  kvpKey :: string
  kvpValue :: string
  kvpVersion :: int64
  kvpExpires :: int64

record ScanResponse =
  spItems :: "KeyValue list"
  spError :: string

record pbReadKey =
  pbrKey :: string
  pbrExpectedVersion :: int64

record pbWriteKey =
  pbwKey :: string
  pbwValue :: string
  pbwVersion :: int64
  pbwIsDelete :: bool

record PrepareTxRequest =
  ptTxId :: string
  ptReadKeys :: "pbReadKey list"
  ptWriteKeys :: "pbWriteKey list"
  ptTimeoutMs :: int64
  ptCoordinatorGroupId :: int32
  ptParticipantGroupIds :: "int32 list"

record CommitTxRequest =
  ctTxId :: string
  ctWriteKeys :: "pbWriteKey list"
  ctDecisionOnly :: bool
  ctParticipantGroupIds :: "int32 list"

record AbortTxRequest =
  atTxId :: string
  atDecisionOnly :: bool
  atParticipantGroupIds :: "int32 list"

record ResolveTxStatusResponse =
  rtStatus :: string
  rtPreparedAt :: int64
  rtWriteKeys :: "pbWriteKey list"
  rtError :: string
  rtCoordinatorGroupId :: int32
  rtParticipantGroupIds :: "int32 list"

record QueryTxDecisionResponse =
  qdDecision :: string
  qdError :: string

text \<open>The answer to \<open>PrepareTx\<close>, \<open>CommitTx\<close> and \<open>AbortTx\<close> is an error text.\<close>

type_synonym TxResponse = string

end
