(* ===== verification/Shard_Router.thy ===== *)
theory Shard_Router
  imports Topology Proto "HOL-Library.Signed_Division"
begin

text \<open>
  The client side router (\<^verbatim>\<open>src/pkg/sharding/router.go\<close>): a key is routed to its group, a request
  to the replicas of a group one after the other until one of them answers as the leader, and
  the hints of the servers correct the ownership table. The servers are a parameter: a call has
  an effect on a world of servers and an outcome, so that a call whose answer is lost may have
  been executed. Dialling a replica is a parameter too, and the clock is an argument.
\<close>

section \<open>Configuration and state\<close>

record RaftGroupConfig =
  rgGroupID :: goint
  rgReplicas :: "string list"
  rgLeaderIdx :: int

record ShardingConfig =
  scGroups :: "RaftGroupConfig list"
  scNumShards :: int
  scVirtualNodeCount :: int
  scPreferredReplicas :: int
  scConnectTimeout :: int
  scRequestTimeout :: int
  scShardToGroup :: "goint list"
  scTopologyEpoch :: int64

text \<open>
  \<open>srClients\<close> says which replicas have a connection and its client: the maps \<open>groupClients\<close> and
  \<open>groupConns\<close> have the same keys.
\<close>

record ShardRouter =
  srConfig :: ShardingConfig
  srTopology :: "ShardTopology option"
  srClients :: "goint \<Rightarrow> string \<Rightarrow> bool"
  srGroupsByID :: "(goint \<times> RaftGroupConfig) list"
  srLeaderCache :: "goint \<rightharpoonup> string"
  srLeaderCacheUpdatedAt :: "goint \<rightharpoonup> int"

definition msec :: int where "msec = 1000000"

definition defaultLeaderCacheTTL :: int where "defaultLeaderCacheTTL = 2000 * msec"
definition defaultPerReplicaRPCTimeout :: int where "defaultPerReplicaRPCTimeout = 220 * msec"

datatype route_err =
    RpcFailed string
  | EmptyResponse string
  | WrongLeaderVia goint string
  | NoReplica goint
  | NoGroupForKey string
  | NoGroups
  | BadConfig
  | RecoveryFailed goint

definition config_defaults :: "ShardingConfig \<Rightarrow> ShardingConfig" where
  "config_defaults cfg =
     cfg\<lparr> scVirtualNodeCount := (if scVirtualNodeCount cfg \<le> 0 then 150 else scVirtualNodeCount cfg),
          scConnectTimeout := (if scConnectTimeout cfg \<le> 0 then 2000 * msec else scConnectTimeout cfg),
          scRequestTimeout := (if scRequestTimeout cfg \<le> 0 then 1200 * msec else scRequestTimeout cfg),
          scPreferredReplicas := (if scPreferredReplicas cfg \<le> 0 then 3 else scPreferredReplicas cfg) \<rparr>"

text \<open>The groups of the configuration by their numbers, or the error of one that is not valid.\<close>

fun collect_groups :: "RaftGroupConfig list \<Rightarrow> (goint \<times> RaftGroupConfig) list \<Rightarrow> (goint \<times> RaftGroupConfig) list option" where
  "collect_groups [] acc = Some acc"
| "collect_groups (g # gs) acc =
     (if sint (rgGroupID g) \<le> 0 then None
      else if rgReplicas g = [] then None
      else if map_of acc (rgGroupID g) \<noteq> None then None
      else collect_groups gs (acc @ [(rgGroupID g, g)]))"

text \<open>
  \<open>initConnections\<close> for one group: \<open>dial\<close> says which replicas can be reached. \<open>None\<close> is the panic of a
  negative leader index, \<open>Some None\<close> the error of a group without a reachable replica.
\<close>

definition connect_group :: "(string \<Rightarrow> bool) \<Rightarrow> int \<Rightarrow> RaftGroupConfig \<Rightarrow> ShardRouter \<Rightarrow> ShardRouter option option" where
  "connect_group dial now g r =
     (let gid = rgGroupID g; replicas = rgReplicas g;
          clients = (\<lambda>a. a \<in> set replicas \<and> dial a);
          r1 = r\<lparr> srClients := (srClients r)(gid := clients) \<rparr>
      in if rgLeaderIdx g < 0 \<and> rgLeaderIdx g mod int (length replicas) \<noteq> 0 then None
         else
           let leader = replicas ! nat (rgLeaderIdx g mod int (length replicas));
               r2 = (if clients leader
                     then r1\<lparr> srLeaderCache := (srLeaderCache r1)(gid \<mapsto> leader),
                              srLeaderCacheUpdatedAt := (srLeaderCacheUpdatedAt r1)(gid \<mapsto> now) \<rparr>
                     else r1)
           in Some (if list_ex clients replicas then Some r2 else None))"

fun initConnections :: "(string \<Rightarrow> bool) \<Rightarrow> int \<Rightarrow> RaftGroupConfig list \<Rightarrow> ShardRouter \<Rightarrow> ShardRouter option option" where
  "initConnections dial now [] r = Some (Some r)"
| "initConnections dial now (g # gs) r =
     (case connect_group dial now g r of
        None \<Rightarrow> None
      | Some None \<Rightarrow> Some None
      | Some (Some r') \<Rightarrow> initConnections dial now gs r')"

definition NewShardRouter :: "(string \<Rightarrow> bool) \<Rightarrow> int \<Rightarrow> ShardingConfig \<Rightarrow> ShardRouter option option" where
  "NewShardRouter dial now cfg0 =
     (let cfg = config_defaults cfg0
      in if scGroups cfg = [] then Some None
         else case collect_groups (scGroups cfg) [] of
                None \<Rightarrow> Some None
              | Some groups \<Rightarrow>
                  let topoGroups = map (\<lambda>(gid, g). (gid, rgReplicas g)) groups;
                      topology = (if scShardToGroup cfg = [] then NewShardTopology (scNumShards cfg) topoGroups
                                  else NewShardTopologyWithOwnership (scNumShards cfg) topoGroups (scShardToGroup cfg)
                                         (scTopologyEpoch cfg))
                  in if topology = None then Some None
                     else initConnections dial now (scGroups cfg)
                            \<lparr> srConfig = cfg, srTopology = topology, srClients = \<lambda>_ _. False, srGroupsByID = groups,
                              srLeaderCache = Map.empty, srLeaderCacheUpdatedAt = Map.empty \<rparr>)"

section \<open>Resolving a key\<close>

text \<open>Minus one, of a router without a topology, is \<open>None\<close>; so is an index out of range.\<close>

definition router_Resolve :: "(string \<Rightarrow> uint64) \<Rightarrow> ShardRouter \<Rightarrow> string \<Rightarrow> goint option" where
  "router_Resolve h r key = (case srTopology r of None \<Rightarrow> None | Some st \<Rightarrow> topo_Resolve h st key)"

definition router_TopologyEpoch :: "ShardRouter \<Rightarrow> int64" where
  "router_TopologyEpoch r = (case srTopology r of None \<Rightarrow> 0 | Some st \<Rightarrow> stEpoch st)"

definition router_GroupIDs :: "ShardRouter \<Rightarrow> goint list" where
  "router_GroupIDs r = sort_key sint (map fst (srGroupsByID r))"

definition groupForKey :: "(string \<Rightarrow> uint64) \<Rightarrow> ShardRouter \<Rightarrow> string \<Rightarrow> route_err + goint" where
  "groupForKey h r key =
     (case router_Resolve h r key of
        None \<Rightarrow> Inl (NoGroupForKey key)
      | Some gid \<Rightarrow> if sint gid < 0 then Inl (NoGroupForKey key) else Inr gid)"

section \<open>Replicas\<close>

definition isWrongLeader :: "string \<Rightarrow> bool" where
  "isWrongLeader errText =
     (if errText = [] then False
      else let s = to_lower (trim_space errText)
           in str_contains s ''errwrongleader'' \<or> str_contains s ''wrong leader'' \<or> str_contains s ''wrongleader''
              \<or> str_contains s ''not leader'' \<or> str_contains s ''leader changed'')"

text \<open>The time a call to one replica may take; \<open>remaining\<close> is the time to the deadline, if there is one.\<close>

definition withRequestTimeout :: "ShardRouter \<Rightarrow> int option \<Rightarrow> int option" where
  "withRequestTimeout r remaining =
     (let req = scRequestTimeout (srConfig r)
      in case remaining of
           Some rem \<Rightarrow>
             if rem \<le> 0 then None
             else let b1 = (if req > 0 \<and> rem > req then req else rem)
                  in Some (if b1 > defaultPerReplicaRPCTimeout then defaultPerReplicaRPCTimeout else b1)
         | None \<Rightarrow> Some (if req \<le> 0 \<or> req > defaultPerReplicaRPCTimeout then defaultPerReplicaRPCTimeout else req))"

text \<open>The leader when it is known, then the other replicas that have a connection, each once.\<close>

fun add_candidates :: "(string \<Rightarrow> bool) \<Rightarrow> string list \<Rightarrow> string list \<Rightarrow> string list" where
  "add_candidates clients [] acc = acc"
| "add_candidates clients (a # as) acc =
     add_candidates clients as (if a \<in> set acc then acc else if clients a then acc @ [a] else acc)"

definition cached_leader :: "ShardRouter \<Rightarrow> int \<Rightarrow> goint \<Rightarrow> string" where
  "cached_leader r now gid =
     (case srLeaderCacheUpdatedAt r gid of
        Some t \<Rightarrow> if now - t > defaultLeaderCacheTTL then [] else (case srLeaderCache r gid of None \<Rightarrow> [] | Some l \<Rightarrow> l)
      | None \<Rightarrow> (case srLeaderCache r gid of None \<Rightarrow> [] | Some l \<Rightarrow> l))"

definition groupReplicaCandidates :: "ShardRouter \<Rightarrow> int \<Rightarrow> goint \<Rightarrow> string list" where
  "groupReplicaCandidates r now gid =
     (case map_of (srGroupsByID r) gid of
        None \<Rightarrow> []
      | Some g \<Rightarrow>
          let leader = cached_leader r now gid;
              first = (if leader \<noteq> [] \<and> srClients r gid leader then [leader] else []);
              candidates = add_candidates (srClients r gid) (rgReplicas g) first;
              n = int (length candidates);
              m1 = (if length (scGroups (srConfig r)) = 1 then n else scPreferredReplicas (srConfig r));
              m2 = (if m1 \<le> 0 \<or> m1 > n then n else m1)
          in if m2 < n then take (nat m2) candidates else candidates)"

definition setLeader :: "int \<Rightarrow> ShardRouter \<Rightarrow> goint \<Rightarrow> string \<Rightarrow> ShardRouter" where
  "setLeader now r gid leaderAddr =
     (if srClients r gid leaderAddr
      then r\<lparr> srLeaderCache := (srLeaderCache r)(gid \<mapsto> leaderAddr),
              srLeaderCacheUpdatedAt := (srLeaderCacheUpdatedAt r)(gid \<mapsto> now) \<rparr>
      else r)"

definition invalidateLeader :: "ShardRouter \<Rightarrow> goint \<Rightarrow> string \<Rightarrow> ShardRouter" where
  "invalidateLeader r gid leaderAddr =
     (case srLeaderCache r gid of
        None \<Rightarrow> r
      | Some cur \<Rightarrow>
          if leaderAddr = [] \<or> cur = leaderAddr
          then r\<lparr> srLeaderCache := (srLeaderCache r)(gid := None),
                  srLeaderCacheUpdatedAt := (srLeaderCacheUpdatedAt r)(gid := None) \<rparr>
          else r)"

section \<open>Calls to a group\<close>

datatype 'r rpc = RpcErr string | RpcNil | RpcOk 'r

record pbRaftGroupConfig =
  pgGroupId :: int32
  pgReplicas :: "string list"
  pgLeaderIdx :: int32

record SetRouterAndRecoverRequest =
  rrGroups :: "pbRaftGroupConfig list"
  rrNumShards :: int32
  rrVirtualNodeCount :: int32
  rrConnectTimeoutMs :: int32
  rrRequestTimeoutMs :: int32
  rrPreferredReplicas :: int32

text \<open>The calls of the generated client: an address, a request, the world and its successor.\<close>

record 'w KVServiceClient =
  rpcGet :: "string \<Rightarrow> string \<Rightarrow> 'w \<Rightarrow> 'w \<times> GetResponse rpc"
  rpcPut :: "string \<Rightarrow> PutRequest \<Rightarrow> 'w \<Rightarrow> 'w \<times> PutResponse rpc"
  rpcDelete :: "string \<Rightarrow> string \<Rightarrow> 'w \<Rightarrow> 'w \<times> DeleteResponse rpc"
  rpcScan :: "string \<Rightarrow> ScanRequest \<Rightarrow> 'w \<Rightarrow> 'w \<times> ScanResponse rpc"
  rpcPrepareTx :: "string \<Rightarrow> PrepareTxRequest \<Rightarrow> 'w \<Rightarrow> 'w \<times> TxResponse rpc"
  rpcCommitTx :: "string \<Rightarrow> CommitTxRequest \<Rightarrow> 'w \<Rightarrow> 'w \<times> TxResponse rpc"
  rpcAbortTx :: "string \<Rightarrow> AbortTxRequest \<Rightarrow> 'w \<Rightarrow> 'w \<times> TxResponse rpc"
  rpcResolveTxStatus :: "string \<Rightarrow> string \<Rightarrow> 'w \<Rightarrow> 'w \<times> ResolveTxStatusResponse rpc"
  rpcQueryTxDecision :: "string \<Rightarrow> string \<Rightarrow> 'w \<Rightarrow> 'w \<times> QueryTxDecisionResponse rpc"
  rpcSetRouterAndRecover :: "string \<Rightarrow> SetRouterAndRecoverRequest \<Rightarrow> 'w \<Rightarrow> 'w \<times> string rpc"

text \<open>The loop over the candidates that the calls of all kinds share.\<close>

fun try_replicas ::
  "(string \<Rightarrow> 'w \<Rightarrow> 'w \<times> 'r rpc) \<Rightarrow> ('r \<Rightarrow> string) \<Rightarrow> int \<Rightarrow> goint \<Rightarrow> string list \<Rightarrow> route_err option
   \<Rightarrow> ShardRouter \<Rightarrow> 'w \<Rightarrow> ShardRouter \<times> 'w \<times> (route_err + 'r)" where
  "try_replicas call errOf now gid [] lastErr r w =
     (r, w, Inl (case lastErr of None \<Rightarrow> NoReplica gid | Some e \<Rightarrow> e))"
| "try_replicas call errOf now gid (a # as) lastErr r w =
     (if \<not> srClients r gid a then try_replicas call errOf now gid as lastErr r w
      else case call a w of
             (w', RpcErr e) \<Rightarrow> try_replicas call errOf now gid as (Some (RpcFailed e)) (invalidateLeader r gid a) w'
           | (w', RpcNil) \<Rightarrow> try_replicas call errOf now gid as (Some (EmptyResponse a)) (invalidateLeader r gid a) w'
           | (w', RpcOk resp) \<Rightarrow>
               if isWrongLeader (errOf resp)
               then try_replicas call errOf now gid as (Some (WrongLeaderVia gid a)) (invalidateLeader r gid a) w'
               else (setLeader now r gid a, w', Inr resp))"

type_synonym ('w, 'r) routed = "ShardRouter \<times> 'w \<times> (route_err + 'r)"

definition GetFromGroup :: "'w KVServiceClient \<Rightarrow> int \<Rightarrow> goint \<Rightarrow> string \<Rightarrow> ShardRouter \<Rightarrow> 'w \<Rightarrow> ('w, GetResponse) routed" where
  "GetFromGroup N now gid key r w =
     try_replicas (\<lambda>a. rpcGet N a key) gpError now gid (groupReplicaCandidates r now gid) None r w"

definition PutToGroupWithTTL ::
  "'w KVServiceClient \<Rightarrow> int \<Rightarrow> goint \<Rightarrow> string \<Rightarrow> string \<Rightarrow> int64 \<Rightarrow> int64 \<Rightarrow> ShardRouter \<Rightarrow> 'w \<Rightarrow> ('w, PutResponse) routed" where
  "PutToGroupWithTTL N now gid key value version ttlSeconds r w =
     try_replicas (\<lambda>a. rpcPut N a \<lparr> pqKey = key, pqValue = value, pqVersion = version, pqTtlSeconds = ttlSeconds \<rparr>)
       ppError now gid (groupReplicaCandidates r now gid) None r w"

definition PutToGroup ::
  "'w KVServiceClient \<Rightarrow> int \<Rightarrow> goint \<Rightarrow> string \<Rightarrow> string \<Rightarrow> int64 \<Rightarrow> ShardRouter \<Rightarrow> 'w \<Rightarrow> ('w, PutResponse) routed" where
  "PutToGroup N now gid key value version r w = PutToGroupWithTTL N now gid key value version 0 r w"

definition DeleteFromGroup :: "'w KVServiceClient \<Rightarrow> int \<Rightarrow> goint \<Rightarrow> string \<Rightarrow> ShardRouter \<Rightarrow> 'w \<Rightarrow> ('w, DeleteResponse) routed" where
  "DeleteFromGroup N now gid key r w =
     try_replicas (\<lambda>a. rpcDelete N a key) dpError now gid (groupReplicaCandidates r now gid) None r w"

definition ScanGroup ::
  "'w KVServiceClient \<Rightarrow> int \<Rightarrow> goint \<Rightarrow> string \<Rightarrow> int32 \<Rightarrow> ShardRouter \<Rightarrow> 'w \<Rightarrow> ('w, KeyValue list) routed" where
  "ScanGroup N now gid pfx limit r w =
     (case try_replicas (\<lambda>a. rpcScan N a \<lparr> sqPrefix = pfx, sqLimit = limit \<rparr>) spError now gid
             (groupReplicaCandidates r now gid) None r w of
        (r', w', res) \<Rightarrow> (r', w', map_sum id spItems res))"

definition PrepareTxToGroup ::
  "'w KVServiceClient \<Rightarrow> int \<Rightarrow> goint \<Rightarrow> PrepareTxRequest \<Rightarrow> ShardRouter \<Rightarrow> 'w \<Rightarrow> ('w, TxResponse) routed" where
  "PrepareTxToGroup N now gid req r w =
     try_replicas (\<lambda>a. rpcPrepareTx N a req) id now gid (groupReplicaCandidates r now gid) None r w"

definition CommitTxToGroup ::
  "'w KVServiceClient \<Rightarrow> int \<Rightarrow> goint \<Rightarrow> CommitTxRequest \<Rightarrow> ShardRouter \<Rightarrow> 'w \<Rightarrow> ('w, TxResponse) routed" where
  "CommitTxToGroup N now gid req r w =
     try_replicas (\<lambda>a. rpcCommitTx N a req) id now gid (groupReplicaCandidates r now gid) None r w"

definition AbortTxToGroup ::
  "'w KVServiceClient \<Rightarrow> int \<Rightarrow> goint \<Rightarrow> AbortTxRequest \<Rightarrow> ShardRouter \<Rightarrow> 'w \<Rightarrow> ('w, TxResponse) routed" where
  "AbortTxToGroup N now gid req r w =
     try_replicas (\<lambda>a. rpcAbortTx N a req) id now gid (groupReplicaCandidates r now gid) None r w"

definition ResolveTxStatusToGroup ::
  "'w KVServiceClient \<Rightarrow> int \<Rightarrow> goint \<Rightarrow> string \<Rightarrow> ShardRouter \<Rightarrow> 'w \<Rightarrow> ('w, ResolveTxStatusResponse) routed" where
  "ResolveTxStatusToGroup N now gid txID r w =
     try_replicas (\<lambda>a. rpcResolveTxStatus N a txID) rtError now gid (groupReplicaCandidates r now gid) None r w"

definition router_QueryTxDecisionToGroup ::
  "'w KVServiceClient \<Rightarrow> int \<Rightarrow> goint \<Rightarrow> string \<Rightarrow> ShardRouter \<Rightarrow> 'w \<Rightarrow> ('w, QueryTxDecisionResponse) routed" where
  "router_QueryTxDecisionToGroup N now gid txID r w =
     try_replicas (\<lambda>a. rpcQueryTxDecision N a txID) qdError now gid (groupReplicaCandidates r now gid) None r w"

text \<open>\<open>TriggerRecoveryToGroup\<close> goes on to the next replica after any answer but success.\<close>

definition recover_request :: "ShardingConfig \<Rightarrow> SetRouterAndRecoverRequest" where
  "recover_request cfg =
     \<lparr> rrGroups = map (\<lambda>g. \<lparr> pgGroupId = ucast (rgGroupID g), pgReplicas = rgReplicas g, pgLeaderIdx = word_of_int (rgLeaderIdx g) \<rparr>)
                    (scGroups cfg),
       rrNumShards = word_of_int (scNumShards cfg), rrVirtualNodeCount = word_of_int (scVirtualNodeCount cfg),
       rrConnectTimeoutMs = word_of_int (scConnectTimeout cfg sdiv msec),
       rrRequestTimeoutMs = word_of_int (scRequestTimeout cfg sdiv msec),
       rrPreferredReplicas = word_of_int (scPreferredReplicas cfg) \<rparr>"

fun trigger_loop ::
  "'w KVServiceClient \<Rightarrow> SetRouterAndRecoverRequest \<Rightarrow> goint \<Rightarrow> string list \<Rightarrow> ShardRouter \<Rightarrow> 'w \<Rightarrow> 'w \<times> bool" where
  "trigger_loop N req gid [] r w = (w, False)"
| "trigger_loop N req gid (a # as) r w =
     (if \<not> srClients r gid a then trigger_loop N req gid as r w
      else case rpcSetRouterAndRecover N a req w of
             (w', RpcOk err) \<Rightarrow> if err = ''OK'' \<or> err = [] then (w', True) else trigger_loop N req gid as r w'
           | (w', RpcErr e) \<Rightarrow> trigger_loop N req gid as r w'
           | (w', RpcNil) \<Rightarrow> (w', True))"

definition TriggerRecoveryToGroup ::
  "'w KVServiceClient \<Rightarrow> int \<Rightarrow> goint \<Rightarrow> ShardingConfig \<Rightarrow> ShardRouter \<Rightarrow> 'w \<Rightarrow> 'w \<times> route_err option" where
  "TriggerRecoveryToGroup N now gid cfg r w =
     (case trigger_loop N (recover_request cfg) gid (groupReplicaCandidates r now gid) r w of
        (w', ok) \<Rightarrow> (w', if ok then None else Some (RecoveryFailed gid)))"

section \<open>Hints\<close>

text \<open>The replicas of a hint that are not connected yet are dialled one by one.\<close>

fun dial_hint :: "(string \<Rightarrow> bool) \<Rightarrow> goint \<Rightarrow> string list \<Rightarrow> ShardRouter \<Rightarrow> ShardRouter" where
  "dial_hint dial gid [] r = r"
| "dial_hint dial gid (a # as) r =
     dial_hint dial gid as
       (if srClients r gid a \<or> \<not> dial a then r
        else r\<lparr> srClients := (srClients r)(gid := (srClients r gid)(a := True)) \<rparr>)"

definition learnHint ::
  "(string \<Rightarrow> uint64) \<Rightarrow> (string \<Rightarrow> bool) \<Rightarrow> string \<Rightarrow> int32 \<Rightarrow> string list \<Rightarrow> int64 \<Rightarrow> ShardRouter \<Rightarrow> ShardRouter" where
  "learnHint h dial key gid replicas epoch r =
     (case srTopology r of
        None \<Rightarrow> r
      | Some st \<Rightarrow>
          if sint gid \<le> 0 \<or> replicas = [] then r
          else
            let shard = int (topo_shardForKey h st key)
            in if sint epoch < sint (stEpoch st) then r
               else
                 let groupID = scast gid :: goint;
                     known = map_of (srGroupsByID r) groupID \<noteq> None;
                     r1 = (if known then r
                           else r\<lparr> srGroupsByID := AList.update groupID
                                      \<lparr> rgGroupID = groupID, rgReplicas = replicas, rgLeaderIdx = 0 \<rparr> (srGroupsByID r),
                                    srClients := (srClients r)(groupID := \<lambda>_. False) \<rparr>);
                     st1 = (if known then st else fst (RegisterGroup st groupID replicas));
                     st2 = (if sint epoch \<ge> sint (stEpoch st1) \<and> topo_GroupForShard st1 shard \<noteq> Some groupID
                            then fst (MoveShard st1 shard groupID) else st1)
                 in dial_hint dial groupID replicas (r1\<lparr> srTopology := Some st2 \<rparr>))"

section \<open>Routed requests\<close>

definition GetRoute ::
  "(string \<Rightarrow> uint64) \<Rightarrow> (string \<Rightarrow> bool) \<Rightarrow> 'w KVServiceClient \<Rightarrow> int \<Rightarrow> string \<Rightarrow> ShardRouter \<Rightarrow> 'w \<Rightarrow> ('w, GetResponse) routed" where
  "GetRoute h dial N now key r w =
     (case groupForKey h r key of
        Inl e \<Rightarrow> (r, w, Inl e)
      | Inr gid \<Rightarrow>
          (case GetFromGroup N now gid key r w of
             (r', w', Inl e) \<Rightarrow> (r', w', Inl e)
           | (r', w', Inr resp) \<Rightarrow>
               (learnHint h dial key (gpHintGroupId resp) (gpHintReplicas resp) (gpHintEpoch resp) r', w', Inr resp)))"

definition PutRouteWithTTL ::
  "(string \<Rightarrow> uint64) \<Rightarrow> (string \<Rightarrow> bool) \<Rightarrow> 'w KVServiceClient \<Rightarrow> int \<Rightarrow> string \<Rightarrow> string \<Rightarrow> int64 \<Rightarrow> int64
   \<Rightarrow> ShardRouter \<Rightarrow> 'w \<Rightarrow> ('w, PutResponse) routed" where
  "PutRouteWithTTL h dial N now key value version ttlSeconds r w =
     (case groupForKey h r key of
        Inl e \<Rightarrow> (r, w, Inl e)
      | Inr gid \<Rightarrow>
          (case PutToGroupWithTTL N now gid key value version ttlSeconds r w of
             (r', w', Inl e) \<Rightarrow> (r', w', Inl e)
           | (r', w', Inr resp) \<Rightarrow>
               (learnHint h dial key (ppHintGroupId resp) (ppHintReplicas resp) (ppHintEpoch resp) r', w', Inr resp)))"

definition DeleteRoute ::
  "(string \<Rightarrow> uint64) \<Rightarrow> (string \<Rightarrow> bool) \<Rightarrow> 'w KVServiceClient \<Rightarrow> int \<Rightarrow> string \<Rightarrow> ShardRouter \<Rightarrow> 'w \<Rightarrow> ('w, DeleteResponse) routed" where
  "DeleteRoute h dial N now key r w =
     (case groupForKey h r key of
        Inl e \<Rightarrow> (r, w, Inl e)
      | Inr gid \<Rightarrow>
          (case DeleteFromGroup N now gid key r w of
             (r', w', Inl e) \<Rightarrow> (r', w', Inl e)
           | (r', w', Inr resp) \<Rightarrow>
               (learnHint h dial key (dpHintGroupId resp) (dpHintReplicas resp) (dpHintEpoch resp) r', w', Inr resp)))"

text \<open>
  The scans of all groups. They run at the same time; here one after the other, in the order of
  the groups.
\<close>

fun scan_groups ::
  "'w KVServiceClient \<Rightarrow> int \<Rightarrow> string \<Rightarrow> int32 \<Rightarrow> goint list \<Rightarrow> ShardRouter \<Rightarrow> 'w
   \<Rightarrow> ShardRouter \<times> 'w \<times> (route_err + KeyValue list) list" where
  "scan_groups N now pfx limit [] r w = (r, w, [])"
| "scan_groups N now pfx limit (gid # gids) r w =
     (case ScanGroup N now gid pfx limit r w of
        (r1, w1, res) \<Rightarrow>
          (case scan_groups N now pfx limit gids r1 w1 of (r2, w2, rest) \<Rightarrow> (r2, w2, res # rest)))"

fun collect_scans :: "(route_err + KeyValue list) list \<Rightarrow> KeyValue list \<Rightarrow> route_err + KeyValue list" where
  "collect_scans [] acc = Inr acc"
| "collect_scans (Inl e # rest) acc = Inl e"
| "collect_scans (Inr items # rest) acc = collect_scans rest (acc @ items)"

text \<open>By key, and among the items of a key by version.\<close>

definition sort_items :: "KeyValue list \<Rightarrow> KeyValue list" where
  "sort_items items = sort_key kvpKey (sort_key (\<lambda>kv. sint (kvpVersion kv)) items)"

definition ScanRoute ::
  "'w KVServiceClient \<Rightarrow> int \<Rightarrow> string \<Rightarrow> int32 \<Rightarrow> ShardRouter \<Rightarrow> 'w \<Rightarrow> ('w, KeyValue list) routed" where
  "ScanRoute N now pfx limit r w =
     (let gids = router_GroupIDs r
      in if gids = [] then (r, w, Inl NoGroups)
         else if length gids = 1 then ScanGroup N now (hd gids) pfx limit r w
         else
           let perGroupLimit = (if sint limit \<le> 0 then 0 else limit)
           in case scan_groups N now pfx perGroupLimit gids r w of
                (r', w', results) \<Rightarrow>
                  (case collect_scans results [] of
                     Inl e \<Rightarrow> (r', w', Inl e)
                   | Inr items \<Rightarrow>
                       let sorted = sort_items items
                       in (r', w', Inr (if sint limit > 0 \<and> length sorted > nat (sint limit)
                                        then take (nat (sint limit)) sorted else sorted))))"

text \<open>The groups a watch listens to: the group of a key, or all of them for a prefix.\<close>

definition watchGroupsFor :: "(string \<Rightarrow> uint64) \<Rightarrow> ShardRouter \<Rightarrow> string \<Rightarrow> bool \<Rightarrow> route_err + goint list" where
  "watchGroupsFor h r key byPrefix =
     (if \<not> byPrefix then (case groupForKey h r key of Inl e \<Rightarrow> Inl e | Inr gid \<Rightarrow> Inr [gid])
      else if router_GroupIDs r = [] then Inl NoGroups else Inr (router_GroupIDs r))"

definition router_Close :: "ShardRouter \<Rightarrow> ShardRouter" where
  "router_Close r = r\<lparr> srClients := \<lambda>_ _. False, srGroupsByID := [], srLeaderCache := Map.empty,
     srLeaderCacheUpdatedAt := Map.empty \<rparr>"

section \<open>Failover\<close>

definition willing :: "(string \<Rightarrow> 'w \<Rightarrow> 'w \<times> 'r rpc) \<Rightarrow> ('r \<Rightarrow> string) \<Rightarrow> string \<Rightarrow> 'w \<Rightarrow> bool" where
  "willing call errOf a w = (case snd (call a w) of RpcOk resp \<Rightarrow> \<not> isWrongLeader (errOf resp) | _ \<Rightarrow> False)"

definition calls_all :: "(string \<Rightarrow> 'w \<Rightarrow> 'w \<times> 'r rpc) \<Rightarrow> string list \<Rightarrow> 'w \<Rightarrow> 'w" where
  "calls_all call as w = foldl (\<lambda>w a. fst (call a w)) w as"

fun refused :: "(string \<Rightarrow> 'w \<Rightarrow> 'w \<times> 'r rpc) \<Rightarrow> ('r \<Rightarrow> string) \<Rightarrow> string list \<Rightarrow> 'w \<Rightarrow> bool" where
  "refused call errOf [] w = True"
| "refused call errOf (a # as) w = (\<not> willing call errOf a w \<and> refused call errOf as (fst (call a w)))"

lemma calls_all_simps [simp]:
  "calls_all call [] w = w"
  "calls_all call (a # as) w = calls_all call as (fst (call a w))"
  by (simp_all add: calls_all_def)

lemma invalidateLeader_clients [simp]: "srClients (invalidateLeader r gid a) = srClients r"
  by (simp add: invalidateLeader_def split: option.split)

lemma setLeader_clients [simp]: "srClients (setLeader now r gid a) = srClients r"
  by (simp add: setLeader_def)

lemma invalidateLeader_cache: "srLeaderCache (invalidateLeader r gid a) gid \<noteq> Some a"
  by (auto simp: invalidateLeader_def split: option.split)

lemma invalidateLeader_cache_keep:
  "srLeaderCache (invalidateLeader r gid a) gid = Some b \<Longrightarrow> srLeaderCache r gid = Some b"
  by (auto simp: invalidateLeader_def split: option.splits if_splits)

lemma setLeader_cache: "srClients r gid a \<Longrightarrow> srLeaderCache (setLeader now r gid a) gid = Some a"
  by (simp add: setLeader_def)

text \<open>One step of the loop, by whether the replica answers as the leader.\<close>

lemma try_replicas_willing:
  assumes "srClients r gid a" "willing call errOf a w"
  shows "\<exists>resp. call a w = (fst (call a w), RpcOk resp) \<and> \<not> isWrongLeader (errOf resp)
    \<and> try_replicas call errOf now gid (a # as) lastErr r w = (setLeader now r gid a, fst (call a w), Inr resp)"
  using assms by (cases "call a w") (auto simp: willing_def split: rpc.splits)

lemma try_replicas_refusing:
  assumes "srClients r gid a" "\<not> willing call errOf a w"
  shows "\<exists>e. try_replicas call errOf now gid (a # as) lastErr r w
    = try_replicas call errOf now gid as (Some e) (invalidateLeader r gid a) (fst (call a w))"
  using assms by (cases "call a w") (auto simp: willing_def split: rpc.splits)

definition failover ::
  "(string \<Rightarrow> 'w \<Rightarrow> 'w \<times> 'r rpc) \<Rightarrow> ('r \<Rightarrow> string) \<Rightarrow> goint \<Rightarrow> string list \<Rightarrow> 'w \<Rightarrow> ('w, 'r) routed \<Rightarrow> bool" where
  "failover call errOf gid cs w out =
     (case out of
        (r', w', Inr resp) \<Rightarrow>
          \<exists>before a after. cs = before @ a # after \<and> refused call errOf before w
            \<and> call a (calls_all call before w) = (w', RpcOk resp) \<and> \<not> isWrongLeader (errOf resp)
            \<and> srLeaderCache r' gid = Some a
      | (r', w', Inl e) \<Rightarrow>
          refused call errOf cs w \<and> w' = calls_all call cs w
            \<and> (\<forall>a. srLeaderCache r' gid = Some a \<longrightarrow> a \<notin> set cs))"

lemma try_replicas_keep_uncached:
  assumes "\<forall>a \<in> set cs. srClients r gid a" "srLeaderCache r gid \<noteq> Some b"
    "try_replicas call errOf now gid cs lastErr r w = (r', w', Inl e)"
  shows "srLeaderCache r' gid \<noteq> Some b"
  using assms
proof (induction cs arbitrary: lastErr r w)
  case Nil
  then show ?case by simp
next
  case (Cons a cs)
  show ?case
  proof (cases "willing call errOf a w")
    case True
    with Cons.prems try_replicas_willing [of r gid a call errOf w now cs lastErr] show ?thesis by auto
  next
    case False
    with Cons.prems(1) obtain e' where eq: "try_replicas call errOf now gid (a # cs) lastErr r w
        = try_replicas call errOf now gid cs (Some e') (invalidateLeader r gid a) (fst (call a w))"
      using try_replicas_refusing [of r gid a call errOf w now cs lastErr] by auto
    have "srLeaderCache (invalidateLeader r gid a) gid \<noteq> Some b"
      using Cons.prems(2) invalidateLeader_cache_keep by blast
    then show ?thesis using Cons.IH [of "invalidateLeader r gid a"] Cons.prems eq by simp
  qed
qed

lemma try_replicas_failover:
  assumes "\<forall>a \<in> set cs. srClients r gid a"
  shows "failover call errOf gid cs w (try_replicas call errOf now gid cs lastErr r w)"
  using assms
proof (induction cs arbitrary: lastErr r w)
  case Nil
  then show ?case by (simp add: failover_def)
next
  case (Cons a cs)
  show ?case
  proof (cases "willing call errOf a w")
    case True
    with Cons.prems obtain resp where "call a w = (fst (call a w), RpcOk resp)" "\<not> isWrongLeader (errOf resp)"
      "try_replicas call errOf now gid (a # cs) lastErr r w = (setLeader now r gid a, fst (call a w), Inr resp)"
      using try_replicas_willing [of r gid a call errOf w now cs lastErr] by auto
    with Cons.prems show ?thesis
      by (simp add: failover_def setLeader_cache del: try_replicas.simps) (metis append_Nil calls_all_simps(1) refused.simps(1))
  next
    case False
    let ?r = "invalidateLeader r gid a" and ?w = "fst (call a w)"
    obtain e where eq: "try_replicas call errOf now gid (a # cs) lastErr r w
        = try_replicas call errOf now gid cs (Some e) ?r ?w"
      using False Cons.prems try_replicas_refusing [of r gid a call errOf w now cs lastErr] by auto
    obtain r' w' res where out: "try_replicas call errOf now gid cs (Some e) ?r ?w = (r', w', res)"
      by (cases "try_replicas call errOf now gid cs (Some e) ?r ?w")
    have IH: "failover call errOf gid cs ?w (r', w', res)"
      using Cons.IH [of ?r ?w "Some e"] Cons.prems out by simp
    show ?thesis
    proof (cases res)
      case (Inl e')
      have "srLeaderCache r' gid \<noteq> Some a"
        by (rule try_replicas_keep_uncached [OF _ invalidateLeader_cache out [unfolded Inl]]) (use Cons.prems in simp)
      with IH False eq out Inl show ?thesis by (auto simp: failover_def)
    next
      case (Inr resp)
      then obtain before b after where "cs = before @ b # after" "refused call errOf before ?w"
        "call b (calls_all call before ?w) = (w', RpcOk resp)" "\<not> isWrongLeader (errOf resp)"
        "srLeaderCache r' gid = Some b"
        using IH by (auto simp: failover_def)
      with False eq out Inr show ?thesis
        by (simp add: failover_def del: try_replicas.simps) (metis append_Cons calls_all_simps(2) refused.simps(2))
    qed
  qed
qed

lemma add_candidates_set: "set (add_candidates c as acc) = set acc \<union> {a \<in> set as. c a}"
  by (induction as arbitrary: acc) auto

lemma add_candidates_distinct: "distinct acc \<Longrightarrow> distinct (add_candidates c as acc)"
  by (induction as arbitrary: acc) auto

lemma candidates_connected: "a \<in> set (groupReplicaCandidates r now gid) \<Longrightarrow> srClients r gid a"
  by (auto simp: groupReplicaCandidates_def Let_def add_candidates_set split: option.splits if_splits
      dest: in_set_takeD)

lemma candidates_distinct: "distinct (groupReplicaCandidates r now gid)"
  by (auto simp: groupReplicaCandidates_def Let_def add_candidates_distinct split: option.splits)

lemma candidates_all:
  assumes "length (scGroups (srConfig r)) = 1" "map_of (srGroupsByID r) gid = Some g"
  shows "{a \<in> set (rgReplicas g). srClients r gid a} \<subseteq> set (groupReplicaCandidates r now gid)"
  using assms by (auto simp: groupReplicaCandidates_def Let_def add_candidates_set)

lemma group_failover:
  "failover call errOf gid (groupReplicaCandidates r now gid) w
     (try_replicas call errOf now gid (groupReplicaCandidates r now gid) lastErr r w)"
  by (rule try_replicas_failover) (simp add: candidates_connected)

text \<open>
  \<^bold>\<open>C33\<close>. A put to a group asks its candidates in turn, each at most once and only connected
  ones. When it returns an answer, the answer is that of the first candidate that does not
  refuse as a follower, all those before were asked and refused or failed, no later one was
  asked, and that replica is the cached leader now. When it returns an error, every candidate was
  asked once and none is the cached leader any more. Of a single group, every connected replica is
  a candidate.
\<close>

theorem PutToGroupWithTTL_failover:
  "failover (\<lambda>a. rpcPut N a \<lparr> pqKey = key, pqValue = value, pqVersion = version, pqTtlSeconds = ttl \<rparr>) ppError gid
     (groupReplicaCandidates r now gid) w (PutToGroupWithTTL N now gid key value version ttl r w)
   \<and> distinct (groupReplicaCandidates r now gid)
   \<and> (\<forall>g. length (scGroups (srConfig r)) = 1 \<longrightarrow> map_of (srGroupsByID r) gid = Some g \<longrightarrow>
        {a \<in> set (rgReplicas g). srClients r gid a} \<subseteq> set (groupReplicaCandidates r now gid))"
  unfolding PutToGroupWithTTL_def by (intro conjI allI impI group_failover candidates_distinct candidates_all)

definition demo_config :: ShardingConfig where
  "demo_config =
     \<lparr> scGroups = [\<lparr> rgGroupID = 1, rgReplicas = [''a'', ''b'', ''c''], rgLeaderIdx = 0 \<rparr>], scNumShards = 4,
       scVirtualNodeCount = 0, scPreferredReplicas = 0, scConnectTimeout = 0, scRequestTimeout = 0,
       scShardToGroup = [], scTopologyEpoch = 0 \<rparr>"

text \<open>A world that records the calls, in which \<open>b\<close> leads.\<close>

definition demo_client :: "string list KVServiceClient" where
  "demo_client =
     \<lparr> rpcGet = \<lambda>a _ w. (w @ [a], RpcNil),
       rpcPut = \<lambda>a _ w. (w @ [a], RpcOk \<lparr> ppError = (if a = ''b'' then ''OK'' else ''ErrWrongLeader''),
                                         ppHintGroupId = 0, ppHintReplicas = [], ppHintEpoch = 0 \<rparr>),
       rpcDelete = \<lambda>a _ w. (w @ [a], RpcNil), rpcScan = \<lambda>a _ w. (w @ [a], RpcNil),
       rpcPrepareTx = \<lambda>a _ w. (w @ [a], RpcNil), rpcCommitTx = \<lambda>a _ w. (w @ [a], RpcNil),
       rpcAbortTx = \<lambda>a _ w. (w @ [a], RpcNil), rpcResolveTxStatus = \<lambda>a _ w. (w @ [a], RpcNil),
       rpcQueryTxDecision = \<lambda>a _ w. (w @ [a], RpcNil), rpcSetRouterAndRecover = \<lambda>a _ w. (w @ [a], RpcNil) \<rparr>"

definition demo_router :: ShardRouter where
  "demo_router = the (the (NewShardRouter (\<lambda>a. a \<noteq> ''c'') 0 demo_config))"

lemma demo_router_eq:
  "length (scGroups (srConfig demo_router)) = 1
   \<and> map_of (srGroupsByID demo_router) 1 = Some \<lparr> rgGroupID = 1, rgReplicas = [''a'', ''b'', ''c''], rgLeaderIdx = 0 \<rparr>
   \<and> srClients demo_router 1 ''b'' \<and> groupReplicaCandidates demo_router 5 1 = [''a'', ''b'']"
  by code_simp

theorem PutToGroupWithTTL_failover_witness:
  "''b'' \<in> set (groupReplicaCandidates demo_router 5 1)
   \<and> failover (\<lambda>a. rpcPut demo_client a \<lparr> pqKey = ''k'', pqValue = ''v'', pqVersion = 0, pqTtlSeconds = 0 \<rparr>) ppError 1
       [''a'', ''b''] [] (PutToGroupWithTTL demo_client 5 1 ''k'' ''v'' 0 0 demo_router [])
   \<and> fst (snd (PutToGroupWithTTL demo_client 5 1 ''k'' ''v'' 0 0 demo_router [])) = [''a'', ''b'']"
proof -
  have "fst (snd (PutToGroupWithTTL demo_client 5 1 ''k'' ''v'' 0 0 demo_router [])) = [''a'', ''b'']" by code_simp
  then show ?thesis
    using PutToGroupWithTTL_failover [of demo_client "''k''" "''v''" 0 0 1 demo_router 5 "[]"] demo_router_eq by auto
qed

section \<open>The router is well formed\<close>

definition router_ok :: "ShardRouter \<Rightarrow> bool" where
  "router_ok r \<longleftrightarrow> (\<exists>st. srTopology r = Some st \<and> topo_ok st
        \<and> (\<forall>gid. map_of (stGroups st) gid = None \<longleftrightarrow> map_of (srGroupsByID r) gid = None))
     \<and> distinct (map fst (srGroupsByID r))
     \<and> (\<forall>gid a. srLeaderCache r gid = Some a \<longrightarrow> srClients r gid a)
     \<and> (\<forall>gid a. srClients r gid a \<longrightarrow> map_of (srGroupsByID r) gid \<noteq> None)"

lemma router_okE:
  assumes "router_ok r"
  obtains st where "srTopology r = Some st" "topo_ok st"
    "\<And>gid. map_of (stGroups st) gid = None \<longleftrightarrow> map_of (srGroupsByID r) gid = None"
    "distinct (map fst (srGroupsByID r))" "\<And>gid a. srLeaderCache r gid = Some a \<Longrightarrow> srClients r gid a"
    "\<And>gid a. srClients r gid a \<Longrightarrow> map_of (srGroupsByID r) gid \<noteq> None"
  using assms unfolding router_ok_def by blast

lemma collect_groups_ok:
  assumes "collect_groups gs acc = Some res" "distinct (map fst acc)"
  shows "distinct (map fst res)"
  using assms
  by (induction gs acc arbitrary: res rule: collect_groups.induct) (auto simp: map_of_eq_None_iff split: if_splits)

lemma router_ok_same:
  assumes "router_ok r" "srTopology r' = srTopology r" "srGroupsByID r' = srGroupsByID r" "srClients r' = srClients r"
    "\<forall>gid a. srLeaderCache r' gid = Some a \<longrightarrow> srClients r gid a"
  shows "router_ok r'"
  using assms(1,5) unfolding router_ok_def assms(2,3,4) by blast

lemma router_ok_cache: "router_ok r \<Longrightarrow> srLeaderCache r gid = Some a \<Longrightarrow> srClients r gid a"
  by (simp add: router_ok_def)

lemma setLeader_ok: "router_ok r \<Longrightarrow> router_ok (setLeader now r gid a)"
  by (rule router_ok_same [where r = r]) (auto simp: setLeader_def dest: router_ok_cache)

lemma invalidateLeader_ok: "router_ok r \<Longrightarrow> router_ok (invalidateLeader r gid a)"
  by (rule router_ok_same [where r = r]) (auto simp: invalidateLeader_def dest: router_ok_cache split: option.splits)

lemma try_replicas_ok: "router_ok r \<Longrightarrow> router_ok (fst (try_replicas call errOf now gid cs lastErr r w))"
proof (induction cs arbitrary: lastErr r w)
  case Nil
  then show ?case by simp
next
  case (Cons a cs)
  then show ?case by (auto simp: setLeader_ok invalidateLeader_ok split: prod.split rpc.split)
qed

lemma connect_group_keep:
  assumes "connect_group dial now g r = Some (Some r')"
    and "\<forall>gid a. srLeaderCache r gid = Some a \<longrightarrow> srClients r gid a" "srLeaderCache r (rgGroupID g) = None"
  shows "srTopology r' = srTopology r" "srGroupsByID r' = srGroupsByID r"
    "\<forall>gid a. srLeaderCache r' gid = Some a \<longrightarrow> srClients r' gid a"
    "\<forall>gid. gid \<noteq> rgGroupID g \<longrightarrow> srLeaderCache r' gid = srLeaderCache r gid"
    "\<forall>gid a. srClients r' gid a \<longrightarrow> gid = rgGroupID g \<or> srClients r gid a"
  using assms by (auto simp: connect_group_def Let_def split: if_splits)

lemma initConnections_keep:
  assumes "initConnections dial now gs r = Some (Some r')" "distinct (map rgGroupID gs)"
    "\<forall>gid a. srLeaderCache r gid = Some a \<longrightarrow> srClients r gid a"
    "\<forall>g \<in> set gs. srLeaderCache r (rgGroupID g) = None"
  shows "srTopology r' = srTopology r \<and> srGroupsByID r' = srGroupsByID r
    \<and> (\<forall>gid a. srLeaderCache r' gid = Some a \<longrightarrow> srClients r' gid a)
    \<and> (\<forall>gid a. srClients r' gid a \<longrightarrow> gid \<in> rgGroupID ` set gs \<or> srClients r gid a)"
  using assms
proof (induction gs arbitrary: r)
  case Nil
  then show ?case by auto
next
  case (Cons g gs)
  then obtain r1 where r1: "connect_group dial now g r = Some (Some r1)"
    and rest: "initConnections dial now gs r1 = Some (Some r')"
    by (auto split: option.splits)
  have "srLeaderCache r (rgGroupID g) = None" using Cons.prems(4) by simp
  note k = connect_group_keep [OF r1 Cons.prems(3) this]
  have "\<forall>x \<in> set gs. srLeaderCache r1 (rgGroupID x) = None"
    using k(4) Cons.prems(2,4) by (metis image_eqI image_set distinct.simps(2) list.map(2) list.set_intros(2))
  then show ?case using Cons.IH [OF rest] Cons.prems(2) k(1,2,3) k(5) by fastforce
qed

lemma collect_groups_ids:
  assumes "collect_groups gs acc = Some res"
  shows "res = acc @ map (\<lambda>g. (rgGroupID g, g)) gs"
  using assms by (induction gs acc arbitrary: res rule: collect_groups.induct) (auto split: if_splits)

lemma NewShardTopology_groups: "NewShardTopology n groups = Some st \<Longrightarrow> stGroups st = groups"
  by (auto simp: NewShardTopology_def Let_def split: if_splits)

lemma NewShardTopologyWithOwnership_groups:
  "NewShardTopologyWithOwnership n groups owners epoch = Some st \<Longrightarrow> stGroups st = groups"
  by (auto simp: NewShardTopologyWithOwnership_def NewShardTopology_groups split: if_splits option.splits)

lemma NewShardRouter_ok:
  assumes "NewShardRouter dial now cfg = Some (Some r)"
  shows "router_ok r"
proof -
  define c where "c = config_defaults cfg"
  obtain groups st where g: "collect_groups (scGroups c) [] = Some groups"
    and st: "(if scShardToGroup c = [] then NewShardTopology (scNumShards c) (map (\<lambda>(gid, g). (gid, rgReplicas g)) groups)
              else NewShardTopologyWithOwnership (scNumShards c) (map (\<lambda>(gid, g). (gid, rgReplicas g)) groups)
                     (scShardToGroup c) (scTopologyEpoch c)) = Some st"
    and init: "initConnections dial now (scGroups c)
       \<lparr> srConfig = c, srTopology = Some st, srClients = \<lambda>_ _. False, srGroupsByID = groups,
         srLeaderCache = Map.empty, srLeaderCacheUpdatedAt = Map.empty \<rparr> = Some (Some r)"
    using assms by (auto simp: NewShardRouter_def Let_def c_def [symmetric] split: if_splits option.splits)
  have d: "distinct (map fst groups)" using collect_groups_ok [OF g] by simp
  then have d': "distinct (map rgGroupID (scGroups c))" using collect_groups_ids [OF g] by (simp add: comp_def)
  have "distinct (map fst (map (\<lambda>(gid, g). (gid, rgReplicas g)) groups))" using d by (simp add: comp_def split_def)
  then have "topo_ok st" "stGroups st = map (\<lambda>(gid, g). (gid, rgReplicas g)) groups"
    using st NewShardTopology_ok NewShardTopologyWithOwnership_ok NewShardTopology_groups NewShardTopologyWithOwnership_groups
    by (auto split: if_splits)
  moreover have "map_of groups gid \<noteq> None" if "gid \<in> rgGroupID ` set (scGroups c)" for gid
    using that collect_groups_ids [OF g] by (auto simp: map_of_eq_None_iff image_image)
  ultimately show ?thesis using initConnections_keep [OF init d'] d by (auto simp: router_ok_def map_of_map_snd)
qed

lemma router_GroupIDs_distinct: "router_ok r \<Longrightarrow> distinct (router_GroupIDs r)"
  by (simp add: router_GroupIDs_def router_ok_def)

lemma router_Resolve_registered:
  assumes "router_ok r"
  shows "\<exists>gid. router_Resolve h r key = Some gid \<and> gid \<in> set (router_GroupIDs r)"
proof -
  obtain st where st: "srTopology r = Some st" "topo_ok st"
    and eq: "\<And>gid. map_of (stGroups st) gid = None \<longleftrightarrow> map_of (srGroupsByID r) gid = None"
    using assms by (auto simp: router_ok_def)
  let ?s = "topo_shardForKey h st key"
  have "?s < length (stShardToGroup st)" using st(2) by (simp add: topo_ok_def topo_shardForKey_def)
  moreover from this have "stShardToGroup st ! ?s \<in> fst ` set (stGroups st)"
    using st(2) nth_mem by (auto simp: topo_ok_def)
  then have "stShardToGroup st ! ?s \<in> set (router_GroupIDs r)"
    using eq by (auto simp: router_GroupIDs_def map_of_eq_None_iff)
  ultimately show ?thesis
    using st by (auto simp: router_Resolve_def topo_Resolve_def topo_ResolveWithEpoch_def Let_def)
qed

section \<open>Learning from hints\<close>

lemma dial_hint_keep [simp]:
  "srTopology (dial_hint dial gid as r) = srTopology r"
  "srGroupsByID (dial_hint dial gid as r) = srGroupsByID r"
  "srLeaderCache (dial_hint dial gid as r) = srLeaderCache r"
  by (induction as arbitrary: r) auto

lemma dial_hint_mono: "srClients r g a \<Longrightarrow> srClients (dial_hint dial gid as r) g a"
  by (induction as arbitrary: r; cases "g = gid") auto

lemma dial_hint_clients: "g \<noteq> gid \<Longrightarrow> srClients (dial_hint dial gid as r) g = srClients r g"
  by (induction as arbitrary: r) auto

lemma dial_hint_connects: "a \<in> set as \<Longrightarrow> dial a \<Longrightarrow> srClients (dial_hint dial gid as r) gid a"
proof (induction as arbitrary: r)
  case (Cons b as)
  then show ?case by (cases "a = b") (auto intro: dial_hint_mono)
qed simp

lemma sint_group: "sint (scast (gid :: int32) :: goint) = sint gid"
  by (rule sint_up_scast) (simp add: is_up)

lemma learnHint_moves:
  fixes h key
  assumes "topo_ok st" "map_of (stGroups st) g \<noteq> None"
  defines "s \<equiv> topo_shardForKey h st key"
  defines "st2 \<equiv> if topo_GroupForShard st (int s) \<noteq> Some g then fst (MoveShard st (int s) g) else st"
  shows "topo_ok st2" "stGroups st2 = stGroups st" "stNumShards st2 = stNumShards st"
    "stShardToGroup st2 = (stShardToGroup st)[s := g]"
proof -
  have s: "s < stNumShards st" "s < length (stShardToGroup st)"
    using assms(1) by (simp_all add: topo_ok_def s_def topo_shardForKey_def)
  show "topo_ok st2" using assms(1) MoveShard_ok by (simp add: st2_def)
  show "stGroups st2 = stGroups st" "stNumShards st2 = stNumShards st" by (simp_all add: st2_def MoveShard_def)
  show "stShardToGroup st2 = (stShardToGroup st)[s := g]"
    using s assms(2) by (auto simp: st2_def MoveShard_def topo_GroupForShard_def)
qed

lemma Resolve_update:
  assumes "topo_ok st" "stNumShards st' = stNumShards st" "stShardToGroup st' = (stShardToGroup st)[topo_shardForKey h st key := g]"
  shows "topo_Resolve h st' key = Some g"
    and "topo_shardForKey h st k \<noteq> topo_shardForKey h st key \<Longrightarrow> topo_Resolve h st' k = topo_Resolve h st k"
proof -
  have [simp]: "topo_shardForKey h st' = topo_shardForKey h st" using assms(2) by (simp add: topo_shardForKey_def fun_eq_iff)
  have "topo_shardForKey h st x < length (stShardToGroup st)" for x
    using assms(1) by (simp add: topo_ok_def topo_shardForKey_def)
  then show "topo_Resolve h st' key = Some g"
    "topo_shardForKey h st k \<noteq> topo_shardForKey h st key \<Longrightarrow> topo_Resolve h st' k = topo_Resolve h st k"
    using assms(3) by (auto simp: topo_Resolve_def topo_ResolveWithEpoch_def Let_def)
qed

text \<open>What an accepted hint does to the router before the replicas are dialled.\<close>

lemma learnHint_eq:
  assumes ok: "router_ok r" and st: "srTopology r = Some st"
    and "sint gid > 0" "replicas \<noteq> []" "sint epoch \<ge> sint (stEpoch st)"
  defines "g \<equiv> scast gid :: goint"
  obtains r2 st2 where "learnHint h dial key gid replicas epoch r = dial_hint dial g replicas r2"
    "srTopology r2 = Some st2" "router_ok r2" "stNumShards st2 = stNumShards st"
    "stShardToGroup st2 = (stShardToGroup st)[topo_shardForKey h st key := g]"
proof -
  define known where "known \<longleftrightarrow> map_of (srGroupsByID r) g \<noteq> None"
  define r1 where "r1 = (if known then r
      else r\<lparr> srGroupsByID := AList.update g \<lparr> rgGroupID = g, rgReplicas = replicas, rgLeaderIdx = 0 \<rparr> (srGroupsByID r),
              srClients := (srClients r)(g := \<lambda>_. False) \<rparr>)"
  define st1 where "st1 = (if known then st else fst (RegisterGroup st g replicas))"
  define st2 where "st2 = (if topo_GroupForShard st1 (int (topo_shardForKey h st key)) \<noteq> Some g
      then fst (MoveShard st1 (int (topo_shardForKey h st key)) g) else st1)"
  obtain okst: "topo_ok st" and eq: "\<And>gid. map_of (stGroups st) gid = None \<longleftrightarrow> map_of (srGroupsByID r) gid = None"
    and d: "distinct (map fst (srGroupsByID r))" and cache: "\<And>gid a. srLeaderCache r gid = Some a \<Longrightarrow> srClients r gid a"
    and client: "\<And>gid a. srClients r gid a \<Longrightarrow> map_of (srGroupsByID r) gid \<noteq> None"
    using router_okE [OF ok] st by (metis option.inject)
  have g: "sint g > 0" using assms(3) by (simp add: g_def sint_group)
  have "topo_ok st1" using okst RegisterGroup_ok by (simp add: st1_def)
  moreover have "map_of (stGroups st1) g \<noteq> None" "stNumShards st1 = stNumShards st"
    "stShardToGroup st1 = stShardToGroup st" "stEpoch st1 = stEpoch st"
    using eq [of g] g assms(4) by (auto simp: st1_def known_def RegisterGroup_def update_conv)
  ultimately have st1: "topo_ok st1" "map_of (stGroups st1) g \<noteq> None" "stNumShards st1 = stNumShards st"
    "stShardToGroup st1 = stShardToGroup st" "stEpoch st1 = stEpoch st" by simp_all
  then have sh: "topo_shardForKey h st1 = topo_shardForKey h st" by (simp add: topo_shardForKey_def fun_eq_iff)
  note m = learnHint_moves [OF st1(1,2), of h key, unfolded sh, folded st2_def]
  have "learnHint h dial key gid replicas epoch r = dial_hint dial g replicas (r1\<lparr> srTopology := Some st2 \<rparr>)"
    using assms(3,4,5) st st1(5)
    by (simp add: learnHint_def Let_def st2_def r1_def g_def [symmetric] known_def [symmetric] st1_def [symmetric]
        del: not_None_eq) (simp add: st1_def)
  moreover have "router_ok (r1\<lparr> srTopology := Some st2 \<rparr>)"
  proof (cases known)
    case True
    then show ?thesis using m(1,2) ok st eq d by (auto simp: router_ok_def r1_def st1_def)
  next
    case False
    then have "srLeaderCache r g = None" using cache client unfolding known_def by (metis option.exhaust)
    with False show ?thesis
      using m(1,2) eq d cache client g assms(4)
      by (auto simp: router_ok_def r1_def st1_def known_def RegisterGroup_def update_conv distinct_update)
  qed
  ultimately show ?thesis using that [of "r1\<lparr> srTopology := Some st2 \<rparr>" st2] m(3,4) st1(3,4) sh by simp
qed

text \<open>
  \<^bold>\<open>C34\<close>. A hint that is not older than the router's own table redirects the key: the key, and
  with it its whole shard, is routed to the hinted group from then on, the keys of the other shards
  are routed as before, every replica of the hint that can be dialled is connected, and the router
  stays well formed.
\<close>

theorem learnHint_redirects:
  assumes "router_ok r" "srTopology r = Some st" "sint gid > 0" "replicas \<noteq> []" "sint epoch \<ge> sint (stEpoch st)"
  shows "groupForKey h (learnHint h dial key gid replicas epoch r) key = Inr (scast gid)
    \<and> (\<forall>k. topo_shardForKey h st k \<noteq> topo_shardForKey h st key \<longrightarrow>
         groupForKey h (learnHint h dial key gid replicas epoch r) k = groupForKey h r k)
    \<and> (\<forall>a \<in> set replicas. dial a \<longrightarrow> srClients (learnHint h dial key gid replicas epoch r) (scast gid) a)
    \<and> router_ok (learnHint h dial key gid replicas epoch r)"
proof -
  obtain r2 st2 where eq: "learnHint h dial key gid replicas epoch r = dial_hint dial (scast gid) replicas r2"
    and r2: "srTopology r2 = Some st2" "router_ok r2" and st2: "stNumShards st2 = stNumShards st"
      "stShardToGroup st2 = (stShardToGroup st)[topo_shardForKey h st key := scast gid]"
    using learnHint_eq [OF assms, where h = h and dial = dial and key = key] by metis
  have ok: "topo_ok st" using assms(1,2) by (auto simp: router_ok_def)
  have known: "map_of (srGroupsByID r2) (scast gid) \<noteq> None"
    using router_Resolve_registered [OF r2(2), of h key] Resolve_update(1) [OF ok st2] r2(1)
    by (auto simp: router_Resolve_def router_GroupIDs_def map_of_eq_None_iff)
  have "router_ok (dial_hint dial (scast gid) replicas r2)"
    using r2 known dial_hint_mono [of r2] dial_hint_clients [where gid = "scast gid" and r = r2]
    unfolding router_ok_def by (simp del: not_None_eq) metis
  then show ?thesis
    using Resolve_update [OF ok st2] assms(2,3) r2(1) dial_hint_connects
    by (auto simp: eq groupForKey_def router_Resolve_def sint_group)
qed

definition demo_group2 :: "string \<Rightarrow> uint64" where
  "demo_group2 key = (if key = ''k'' then 2 else 0)"

theorem learnHint_redirects_witness:
  "groupForKey demo_group2 demo_router ''k'' = Inr 1
   \<and> groupForKey demo_group2 (learnHint demo_group2 (\<lambda>_. True) ''k'' 7 [''x''] 5 demo_router) ''k'' = Inr 7
   \<and> srClients (learnHint demo_group2 (\<lambda>_. True) ''k'' 7 [''x''] 5 demo_router) 7 ''x''"
proof -
  obtain st where st: "srTopology demo_router = Some st" "sint (stEpoch st) = 1"
    and k: "groupForKey demo_group2 demo_router ''k'' = Inr 1"
  proof
    show "srTopology demo_router = Some (the (srTopology demo_router))" by code_simp
    show "sint (stEpoch (the (srTopology demo_router))) = 1" by code_simp
    show "groupForKey demo_group2 demo_router ''k'' = Inr 1" by code_simp
  qed
  have "NewShardRouter (\<lambda>a. a \<noteq> ''c'') 0 demo_config \<noteq> None \<and> the (NewShardRouter (\<lambda>a. a \<noteq> ''c'') 0 demo_config) \<noteq> None"
    by code_simp
  then have ok: "router_ok demo_router" by (auto simp: demo_router_def intro: NewShardRouter_ok)
  have e: "sint (5 :: int64) \<ge> sint (stEpoch st)" "sint (7 :: int32) > 0" using st(2) by simp_all
  show ?thesis
    using learnHint_redirects [OF ok st(1) e(2) _ e(1), of "[''x'']" demo_group2 "\<lambda>_. True" "''k''"] k by simp
qed

section \<open>Scans over all groups\<close>

lemma distinct_concat_take: "distinct (map f (concat xss)) \<Longrightarrow> distinct (map f (concat (map (take n) xss)))"
proof (induction xss)
  case (Cons xs xss)
  have "f ` set (concat (map (take n) xss)) \<subseteq> f ` set (concat xss)" by (auto dest: in_set_takeD)
  moreover have "f ` set (take n xs) \<subseteq> f ` set xs" by (auto dest: in_set_takeD)
  moreover have "f ` set xs \<inter> f ` set (concat xss) = {}" using Cons.prems by simp
  ultimately have "f ` set (take n xs) \<inter> f ` set (concat (map (take n) xss)) = {}" by blast
  moreover have "distinct (map f (take n xs))" using Cons.prems by (simp add: take_map [symmetric])
  ultimately show ?case using Cons by simp
qed simp

lemma distinct_concat_member: "distinct (map f (concat xss)) \<Longrightarrow> xs \<in> set xss \<Longrightarrow> distinct (map f xs)"
  by (induction xss) auto

definition cut :: "int32 \<Rightarrow> 'a list \<Rightarrow> 'a list" where
  "cut limit xs = (if sint limit > 0 then take (nat (sint limit)) xs else xs)"

lemma sort_items_unique:
  assumes "distinct (map kvpKey items)" "set ys = set items" "sorted (map kvpKey ys)" "distinct (map kvpKey ys)"
  shows "sort_items items = ys"
proof (rule map_sorted_distinct_set_unique [where f = kvpKey])
  show "inj_on kvpKey (set (sort_items items) \<union> set ys)"
    using assms(1,2) by (simp add: sort_items_def distinct_map)
  have "mset (map kvpKey (sort_items items)) = mset (map kvpKey items)" by (simp add: sort_items_def)
  then show "distinct (map kvpKey (sort_items items))" using assms(1) mset_eq_imp_distinct_iff by blast
  show "sorted (map kvpKey (sort_items items))" by (simp add: sort_items_def)
qed (use assms in \<open>simp_all add: sort_items_def\<close>)

text \<open>
  The first items of all groups are among the first items of the groups: an item with fewer than
  \<open>n\<close> smaller ones over all has fewer than \<open>n\<close> smaller ones in its own group.
\<close>

lemma nth_in_take:
  assumes "sorted (map f xs)" "distinct (map f xs)" "x \<in> set xs" "card {y \<in> set xs. f y < f x} < n"
  shows "x \<in> set (take n xs)"
proof -
  obtain i where i: "i < length xs" "x = xs ! i" using assms(3) by (auto simp: in_set_conv_nth)
  have lt: "f (xs ! j) < f x" if "j < i" for j
  proof -
    have "f (xs ! j) \<le> f (xs ! i)" using assms(1) that i(1) by (simp add: sorted_iff_nth_mono)
    moreover have "f (xs ! j) \<noteq> f (xs ! i)" using assms(2) that i(1) nth_eq_iff_index_eq [of "map f xs" j i] by simp
    ultimately show ?thesis using i(2) by simp
  qed
  then have "(!) xs ` {..<i} \<subseteq> {y \<in> set xs. f y < f x}" using i(1) by auto
  then have "card ((!) xs ` {..<i}) \<le> card {y \<in> set xs. f y < f x}" by (intro card_mono) auto
  moreover have "inj_on ((!) xs) {..<i}"
    using assms(2) i(1) by (auto simp: inj_on_def distinct_map nth_eq_iff_index_eq)
  ultimately have "i < n" using assms(4) by (simp add: card_image)
  then show ?thesis using i by (metis in_set_conv_nth length_take min_less_iff_conj nth_take)
qed

lemma take_smaller:
  assumes "sorted (map f xs)" "distinct (map f xs)" "x \<in> set (take n xs)"
  shows "card {y \<in> set xs. f y < f x} < n"
proof -
  obtain i where i: "i < n" "i < length xs" "x = xs ! i" using assms(3) by (auto simp: in_set_conv_nth)
  have "{y \<in> set xs. f y < f x} \<subseteq> (!) xs ` {..<i}"
  proof
    fix y assume y: "y \<in> {y \<in> set xs. f y < f x}"
    then obtain j where j: "j < length xs" "y = xs ! j" by (auto simp: in_set_conv_nth)
    have "j < i"
    proof (rule ccontr)
      assume "\<not> j < i"
      then have "f (xs ! i) \<le> f (xs ! j)" using assms(1) j(1) by (simp add: sorted_iff_nth_mono)
      then show False using y j i by simp
    qed
    then show "y \<in> (!) xs ` {..<i}" using j by auto
  qed
  then have "card {y \<in> set xs. f y < f x} \<le> card {..<i}" 
    by (rule surj_card_le [OF finite_lessThan])
  then show ?thesis using i(1) by simp
qed

lemma take_sort_concat:
  assumes sorted: "\<And>xs. xs \<in> set xss \<Longrightarrow> sorted (map kvpKey xs)" and dist: "distinct (map kvpKey (concat xss))"
  shows "take n (sort_items (concat (map (take n) xss))) = take n (sort_items (concat xss))"
proof -
  let ?A = "concat xss" and ?B = "concat (map (take n) xss)"
  let ?S = "sort_items ?A"
  let ?T = "take n ?S" and ?R = "sort_key kvpKey (filter (\<lambda>x. x \<notin> set (take n ?S)) ?B)"
  have S: "set ?S = set ?A" "sorted (map kvpKey ?S)" "distinct (map kvpKey ?S)"
  proof -
    show "set ?S = set ?A" "sorted (map kvpKey ?S)" by (simp_all add: sort_items_def)
    have "mset (map kvpKey ?S) = mset (map kvpKey ?A)" by (simp add: sort_items_def)
    then show "distinct (map kvpKey ?S)" using dist mset_eq_imp_distinct_iff by blast
  qed
  have sub: "set ?B \<subseteq> set ?A" by (auto dest: in_set_takeD)
  have dB: "distinct (map kvpKey ?B)" using dist by (rule distinct_concat_take)
  have T: "set ?T \<subseteq> set ?B"
  proof
    fix x assume x: "x \<in> set ?T"
    then have small: "card {y \<in> set ?A. kvpKey y < kvpKey x} < n"
      using take_smaller [OF S(2,3)] S(1) by simp
    have "x \<in> set ?A" using x S(1) by (auto dest: in_set_takeD)
    then obtain xs where xs: "xs \<in> set xss" "x \<in> set xs" by auto
    have "card {y \<in> set xs. kvpKey y < kvpKey x} \<le> card {y \<in> set ?A. kvpKey y < kvpKey x}"
      using xs by (intro card_mono) auto
    then have "x \<in> set (take n xs)"
      using nth_in_take [OF sorted [OF xs(1)] distinct_concat_member [OF dist xs(1)] xs(2)] small by simp
    then show "x \<in> set ?B" using xs(1) by auto
  qed
  have rest: "kvpKey x \<le> kvpKey y" if "x \<in> set ?T" "y \<in> set ?B" "y \<notin> set ?T" for x y
  proof -
    have "y \<in> set (take n ?S @ drop n ?S)" using that(2) sub S(1) by auto
    then have y: "y \<in> set (drop n ?S)" using that(3) unfolding set_append by blast
    have "sorted (map kvpKey (take n ?S @ drop n ?S))" using S(2) by simp
    then have "\<forall>a \<in> set (map kvpKey ?T). \<forall>b \<in> set (map kvpKey (drop n ?S)). a \<le> b"
      unfolding map_append sorted_append by blast
    then show ?thesis using y that(1) by simp
  qed
  have "sort_items ?B = ?T @ ?R"
  proof (rule sort_items_unique [OF dB])
    show "set (?T @ ?R) = set ?B" using T by auto
    have "sorted (map kvpKey ?T)" using sorted_wrt_take [OF S(2), of n] by (simp add: take_map)
    moreover have "sorted (map kvpKey ?R)" by (rule sorted_sort_key)
    moreover have "\<forall>a \<in> set (map kvpKey ?T). \<forall>b \<in> set (map kvpKey ?R). a \<le> b" using rest by simp
    ultimately show "sorted (map kvpKey (?T @ ?R))" unfolding map_append sorted_append by blast
    have inj: "inj_on kvpKey (set ?B)" and "distinct ?B" using dB by (simp_all add: distinct_map)
    have "distinct ?T" using S(3) by (simp add: distinct_map)
    moreover have "distinct ?R" using \<open>distinct ?B\<close> by (simp only: distinct_sort distinct_filter)
    ultimately have "distinct (?T @ ?R)" by (simp only: distinct_append set_sort set_filter) blast
    moreover have "inj_on kvpKey (set (?T @ ?R))" by (rule inj_on_subset [OF inj]) (use T in auto)
    ultimately show "distinct (map kvpKey (?T @ ?R))" by (simp only: distinct_map)
  qed
  then have "take n (sort_items ?B) = ?T @ take (n - length ?T) ?R" by simp
  also have "take (n - length ?T) ?R = []"
  proof (cases "n \<le> length ?S")
    case False
    then have "set ?T = set ?A" using S(1) by simp
    then show ?thesis using sub by (simp add: filter_empty_conv subset_iff)
  qed simp
  finally show ?thesis by simp
qed

lemma collect_scans_ok: "collect_scans (map (\<lambda>g. Inr (f g)) gids) acc = Inr (acc @ concat (map f gids))"
  by (induction gids arbitrary: acc) auto

text \<open>
  \<^bold>\<open>C35\<close>. A scan over several groups with a limit asks every group for its first items only, and
  still returns the first items of all data: when the groups answer with the first \<open>limit\<close> of
  their items in the order of the keys, and no key is in two places, the result is what sorting all
  the items of all the groups and cutting at the limit gives.
\<close>

theorem ScanRoute_global_top:
  assumes "length (router_GroupIDs r) \<ge> 2"
    and "scan_groups N now pfx (if sint limit \<le> 0 then 0 else limit) (router_GroupIDs r) r w
           = (r', w', map (\<lambda>gid. Inr (cut limit (data gid))) (router_GroupIDs r))"
    and "\<forall>gid \<in> set (router_GroupIDs r). sorted (map kvpKey (data gid))"
    and "distinct (map kvpKey (concat (map data (router_GroupIDs r))))"
  shows "ScanRoute N now pfx limit r w = (r', w', Inr (cut limit (sort_items (concat (map data (router_GroupIDs r))))))"
proof -
  let ?gids = "router_GroupIDs r"
  have "?gids \<noteq> []" "length ?gids \<noteq> 1" using assms(1) by auto
  then have "ScanRoute N now pfx limit r w
      = (r', w', Inr (cut limit (sort_items (concat (map (\<lambda>gid. cut limit (data gid)) ?gids)))))"
    using assms(2) by (simp add: ScanRoute_def Let_def collect_scans_ok cut_def)
  moreover have "cut limit (sort_items (concat (map (\<lambda>gid. cut limit (data gid)) ?gids)))
      = cut limit (sort_items (concat (map data ?gids)))"
  proof (cases "sint limit > 0")
    case True
    then show ?thesis
      using take_sort_concat [of "map data ?gids" "nat (sint limit)"] assms(3,4) by (auto simp: cut_def comp_def)
  qed (simp add: cut_def)
  ultimately show ?thesis by simp
qed

definition demo_item :: "string \<Rightarrow> KeyValue" where
  "demo_item k = \<lparr> kvpKey = k, kvpValue = ''v'', kvpVersion = 1, kvpExpires = 0 \<rparr>"

definition demo_data :: "goint \<Rightarrow> KeyValue list" where
  "demo_data gid = (if gid = 1 then map demo_item [''a'', ''d'', ''e''] else map demo_item [''b'', ''c''])"

definition demo_scan_client :: "string list KVServiceClient" where
  "demo_scan_client = demo_client\<lparr> rpcScan := \<lambda>a req w. (w @ [a], RpcOk
     \<lparr> spItems = cut (sqLimit req) (demo_data (if a = ''a'' then 1 else 2)), spError = ''OK'' \<rparr>) \<rparr>"

definition demo_scan_router :: ShardRouter where
  "demo_scan_router = the (the (NewShardRouter (\<lambda>_. True) 0
     (demo_config\<lparr> scGroups := [\<lparr> rgGroupID = 2, rgReplicas = [''b''], rgLeaderIdx = 0 \<rparr>,
                                \<lparr> rgGroupID = 1, rgReplicas = [''a''], rgLeaderIdx = 0 \<rparr>] \<rparr>)))"

lemma demo_scan_eq:
  "router_GroupIDs demo_scan_router = [1, 2]
   \<and> snd (scan_groups demo_scan_client 0 [] 2 [1, 2] demo_scan_router [])
       = ([''a'', ''b''], map (\<lambda>gid. Inr (cut 2 (demo_data gid))) [1, 2])
   \<and> map kvpKey (concat (map demo_data [1, 2])) = [''a'', ''d'', ''e'', ''b'', ''c'']
   \<and> map kvpKey (cut 2 (sort_items (concat (map demo_data [1, 2])))) = [''a'', ''b''] \<and> sint (2 :: int32) = 2"
  by code_simp

theorem ScanRoute_global_top_witness:
  "\<exists>r' items. ScanRoute demo_scan_client 0 [] 2 demo_scan_router [] = (r', [''a'', ''b''], Inr items)
     \<and> map kvpKey items = [''a'', ''b'']"
proof -
  note e = demo_scan_eq
  let ?out = "scan_groups demo_scan_client 0 [] 2 [1, 2] demo_scan_router []"
  have "?out = (fst ?out, [''a'', ''b''], map (\<lambda>gid. Inr (cut 2 (demo_data gid))) [1, 2])"
    using e by (metis prod.collapse)
  then have "ScanRoute demo_scan_client 0 [] 2 demo_scan_router []
      = (fst ?out, [''a'', ''b''], Inr (cut 2 (sort_items (concat (map demo_data [1, 2])))))"
    using ScanRoute_global_top [of demo_scan_router demo_scan_client 0 "[]" 2 "[]" "fst ?out" "[''a'', ''b'']" demo_data] e
    by (simp add: demo_data_def demo_item_def)
  then show ?thesis using e by auto
qed

end
