(* ===== verification/Grpc.thy ===== *)
theory Grpc
  imports Kv_Server Shard_Router
begin

text \<open>
  The handlers of the gRPC service (\<^verbatim>\<open>src/pkg/kv/grpc.go\<close>, and \<open>SetShardState\<close> and \<open>GetShardStates\<close> of
  \<^verbatim>\<open>server.go\<close>). A handler turns a message into a request, has it replicated, and turns the reply
  into a message. The replicated log is a parameter of the handlers: \<open>noSubmit\<close> is \<open>rsm.Submit\<close> and
  \<open>noLeaseRead\<close> is \<open>rsm.SubmitLeaseReadWithMode\<close>, on a node state from which the server can be read.
  \<open>direct_node\<close> is the node that executes the request at once.
\<close>

record ('db, 's) node_ops =
  noServer :: "'s \<Rightarrow> 'db KVServer"
  noUpdate :: "('db KVServer \<Rightarrow> 'db KVServer) \<Rightarrow> 's \<Rightarrow> 's"
  noSubmit :: "Request \<Rightarrow> 's \<Rightarrow> 's \<times> Err \<times> Reply option"
  noLeaseRead :: "Request \<Rightarrow> 's \<Rightarrow> 's \<times> Err \<times> Reply option \<times> bool"
  noLeaseStatEnabled :: bool

definition killed :: "('db, 's) node_ops \<Rightarrow> 's \<Rightarrow> bool" where
  "killed R s = kvDead (noServer R s)"

definition ErrInternal :: string where "ErrInternal = ''ErrInternal''"

section \<open>Reads and writes\<close>

definition get_failure :: "string \<Rightarrow> GetResponse" where
  "get_failure e = \<lparr> gpValue = [], gpVersion = 0, gpError = e, gpExpires = 0, gpHintGroupId = 0,
     gpHintReplicas = [], gpHintEpoch = 0 \<rparr>"

definition put_failure :: "string \<Rightarrow> PutResponse" where
  "put_failure e = \<lparr> ppError = e, ppHintGroupId = 0, ppHintReplicas = [], ppHintEpoch = 0 \<rparr>"

definition delete_failure :: "string \<Rightarrow> DeleteResponse" where
  "delete_failure e = \<lparr> dpError = e, dpHintGroupId = 0, dpHintReplicas = [], dpHintEpoch = 0 \<rparr>"

definition grpc_Get :: "('db, 's) node_ops \<Rightarrow> string \<Rightarrow> 's \<Rightarrow> 's \<times> GetResponse" where
  "grpc_Get R key s =
     (if killed R s then (noUpdate R RecordFailure s, get_failure (errReply ErrWrongLeader))
      else case noLeaseRead R (ReqGet \<lparr> gKey = key \<rparr>) s of
             (s1, err, ret, leaseHit) \<Rightarrow>
               if err \<noteq> OK then (noUpdate R RecordLeaseFallback (noUpdate R RecordFailure s1), get_failure (errReply err))
               else case ret of
                      Some (RepGet reply) \<Rightarrow>
                        let s2 = noUpdate R RecordRead s1;
                            s3 = (if noLeaseStatEnabled R
                                  then noUpdate R (if leaseHit then RecordLeaseHit else RecordLeaseFallback) s2 else s2)
                        in (s3, \<lparr> gpValue = grValue reply, gpVersion = grVersion reply, gpError = errReply (grErr reply),
                                  gpExpires = grExpires reply, gpHintGroupId = ucast (grHintGroupID reply),
                                  gpHintReplicas = grHintReplicas reply, gpHintEpoch = grHintEpoch reply \<rparr>)
                    | _ \<Rightarrow> (noUpdate R RecordFailure s1, get_failure ErrInternal))"

definition grpc_Put :: "('db, 's) node_ops \<Rightarrow> PutRequest \<Rightarrow> 's \<Rightarrow> 's \<times> PutResponse" where
  "grpc_Put R req s =
     (if killed R s then (s, put_failure (errReply ErrWrongLeader))
      else case noSubmit R (ReqPut \<lparr> pKey = pqKey req, pValue = pqValue req, pVersion = pqVersion req,
                                     pTTL = pqTtlSeconds req \<rparr>) s of
             (s1, err, ret) \<Rightarrow>
               if err \<noteq> OK then (s1, put_failure (errReply err))
               else case ret of
                      Some (RepPut reply) \<Rightarrow>
                        (s1, \<lparr> ppError = errReply (prErr reply), ppHintGroupId = ucast (prHintGroupID reply),
                               ppHintReplicas = prHintReplicas reply, ppHintEpoch = prHintEpoch reply \<rparr>)
                    | _ \<Rightarrow> (s1, put_failure ErrInternal))"

definition grpc_Delete :: "('db, 's) node_ops \<Rightarrow> string \<Rightarrow> 's \<Rightarrow> 's \<times> DeleteResponse" where
  "grpc_Delete R key s =
     (if killed R s then (s, delete_failure (errReply ErrWrongLeader))
      else case noSubmit R (ReqDelete \<lparr> dKey = key \<rparr>) s of
             (s1, err, ret) \<Rightarrow>
               if err \<noteq> OK then (s1, delete_failure (errReply err))
               else case ret of
                      Some (RepDelete reply) \<Rightarrow>
                        (s1, \<lparr> dpError = errReply (drErr reply), dpHintGroupId = ucast (drHintGroupID reply),
                               dpHintReplicas = drHintReplicas reply, dpHintEpoch = drHintEpoch reply \<rparr>)
                    | _ \<Rightarrow> (s1, delete_failure ErrInternal))"

definition item_to_proto :: "ScanItem \<Rightarrow> KeyValue" where
  "item_to_proto it = \<lparr> kvpKey = siKey it, kvpValue = siValue it, kvpVersion = siVersion it, kvpExpires = siExpires it \<rparr>"

definition grpc_Scan :: "('db, 's) node_ops \<Rightarrow> ScanRequest \<Rightarrow> 's \<Rightarrow> 's \<times> ScanResponse" where
  "grpc_Scan R req s =
     (if killed R s then (s, \<lparr> spItems = [], spError = errReply ErrWrongLeader \<rparr>)
      else case noSubmit R (ReqScan \<lparr> saPrefix = sqPrefix req, saLimit = sint (sqLimit req) \<rparr>) s of
             (s1, err, ret) \<Rightarrow>
               if err \<noteq> OK then (s1, \<lparr> spItems = [], spError = errReply err \<rparr>)
               else case ret of
                      Some (RepScan reply) \<Rightarrow>
                        (s1, \<lparr> spItems = map item_to_proto (srItems reply), spError = errReply (srErr reply) \<rparr>)
                    | _ \<Rightarrow> (s1, \<lparr> spItems = [], spError = ErrInternal \<rparr>))"

section \<open>Transactions\<close>

definition convertReadKeysFromProto :: "pbReadKey list \<Rightarrow> ReadKey list" where
  "convertReadKeysFromProto ks =
     map (\<lambda>k. \<lparr> rkKey = pbrKey k, rkValue = [], rkExpectedVersion = pbrExpectedVersion k \<rparr>) ks"

definition convertWriteKeysFromProto :: "pbWriteKey list \<Rightarrow> WriteKey list" where
  "convertWriteKeysFromProto ks =
     map (\<lambda>k. \<lparr> wkKey = pbwKey k, wkValue = pbwValue k, wkVersion = pbwVersion k, wkIsDelete = pbwIsDelete k \<rparr>) ks"

definition convertWriteKeysToProto :: "WriteKey list \<Rightarrow> pbWriteKey list" where
  "convertWriteKeysToProto ks =
     map (\<lambda>k. \<lparr> pbwKey = wkKey k, pbwValue = wkValue k, pbwVersion = wkVersion k, pbwIsDelete = wkIsDelete k \<rparr>) ks"

definition intsFromInt32 :: "int32 list \<Rightarrow> goint list" where
  "intsFromInt32 xs = map scast xs"

definition int32Slice :: "goint list \<Rightarrow> int32 list" where
  "int32Slice xs = map ucast xs"

lemma WriteKey_eta: "\<lparr> wkKey = wkKey k, wkValue = wkValue k, wkVersion = wkVersion k, wkIsDelete = wkIsDelete k \<rparr> = k"
  by (cases k) simp

lemma write_keys_roundtrip: "convertWriteKeysFromProto (convertWriteKeysToProto ks) = ks"
  by (simp add: convertWriteKeysFromProto_def convertWriteKeysToProto_def comp_def WriteKey_eta)

definition grpc_PrepareTx :: "('db, 's) node_ops \<Rightarrow> PrepareTxRequest \<Rightarrow> 's \<Rightarrow> 's \<times> TxResponse" where
  "grpc_PrepareTx R req s =
     (if killed R s then (s, errReply ErrWrongLeader)
      else case noSubmit R (ReqPrepareTx \<lparr> paTxID = ptTxId req, paReadKeys = convertReadKeysFromProto (ptReadKeys req),
                   paWriteKeys = convertWriteKeysFromProto (ptWriteKeys req), paTimeoutMs = ptTimeoutMs req,
                   paCoordinatorGroupID = scast (ptCoordinatorGroupId req),
                   paParticipantGroupIDs = intsFromInt32 (ptParticipantGroupIds req) \<rparr>) s of
             (s1, err, ret) \<Rightarrow>
               if err \<noteq> OK then (s1, errReply err)
               else case ret of Some (RepPrepareTx e) \<Rightarrow> (s1, errReply e) | _ \<Rightarrow> (s1, ErrInternal))"

definition grpc_CommitTx :: "('db, 's) node_ops \<Rightarrow> CommitTxRequest \<Rightarrow> 's \<Rightarrow> 's \<times> TxResponse" where
  "grpc_CommitTx R req s =
     (if killed R s then (s, errReply ErrWrongLeader)
      else if ctDecisionOnly req
      then (case noSubmit R (ReqRecordTxDecision \<lparr> raTxID = ctTxId req, raDecision = TxStatusCommitted,
                    raParticipantGroupIDs = intsFromInt32 (ctParticipantGroupIds req),
                    raWriteKeys = convertWriteKeysFromProto (ctWriteKeys req) \<rparr>) s of
              (s1, err, ret) \<Rightarrow>
                if err \<noteq> OK then (s1, errReply err)
                else case ret of Some (RepRecordTxDecision e) \<Rightarrow> (s1, errReply e) | _ \<Rightarrow> (s1, ErrInternal))
      else case noSubmit R (ReqCommitTx \<lparr> caTxID = ctTxId req, caWriteKeys = convertWriteKeysFromProto (ctWriteKeys req) \<rparr>) s of
             (s1, err, ret) \<Rightarrow>
               if err \<noteq> OK then (s1, errReply err)
               else case ret of Some (RepCommitTx e) \<Rightarrow> (s1, errReply e) | _ \<Rightarrow> (s1, ErrInternal))"

definition grpc_AbortTx :: "('db, 's) node_ops \<Rightarrow> AbortTxRequest \<Rightarrow> 's \<Rightarrow> 's \<times> TxResponse" where
  "grpc_AbortTx R req s =
     (if killed R s then (s, errReply ErrWrongLeader)
      else if atDecisionOnly req
      then (case noSubmit R (ReqRecordTxDecision \<lparr> raTxID = atTxId req, raDecision = TxStatusAborted,
                    raParticipantGroupIDs = intsFromInt32 (atParticipantGroupIds req), raWriteKeys = [] \<rparr>) s of
              (s1, err, ret) \<Rightarrow>
                if err \<noteq> OK then (s1, errReply err)
                else case ret of Some (RepRecordTxDecision e) \<Rightarrow> (s1, errReply e) | _ \<Rightarrow> (s1, ErrInternal))
      else case noSubmit R (ReqAbortTx (atTxId req)) s of
             (s1, err, ret) \<Rightarrow>
               if err \<noteq> OK then (s1, errReply err)
               else case ret of Some (RepAbortTx e) \<Rightarrow> (s1, errReply e) | _ \<Rightarrow> (s1, ErrInternal))"

definition resolve_failure :: "string \<Rightarrow> ResolveTxStatusResponse" where
  "resolve_failure e = \<lparr> rtStatus = [], rtPreparedAt = 0, rtWriteKeys = [], rtError = e, rtCoordinatorGroupId = 0,
     rtParticipantGroupIds = [] \<rparr>"

definition status_text :: "TxStatus \<Rightarrow> string" where
  "status_text st =
     (if st = TxStatusPrepared then ''PREPARED'' else if st = TxStatusCommitted then ''COMMITTED''
      else if st = TxStatusAborted then ''ABORTED'' else ''NOT_FOUND'')"

definition grpc_ResolveTxStatus :: "('db, 's) node_ops \<Rightarrow> string \<Rightarrow> 's \<Rightarrow> 's \<times> ResolveTxStatusResponse" where
  "grpc_ResolveTxStatus R txID s =
     (if killed R s then (s, resolve_failure (errReply ErrWrongLeader))
      else case noSubmit R (ReqResolveTxStatus txID) s of
             (s1, err, ret) \<Rightarrow>
               if err \<noteq> OK then (s1, resolve_failure (errReply err))
               else case ret of
                      Some (RepResolveTxStatus reply) \<Rightarrow>
                        (s1, \<lparr> rtStatus = status_text (rrStatus reply), rtPreparedAt = rrPreparedAt reply,
                               rtWriteKeys = convertWriteKeysToProto (rrWriteKeys reply), rtError = errReply (rrErr reply),
                               rtCoordinatorGroupId = ucast (rrCoordinatorGroupID reply),
                               rtParticipantGroupIds = int32Slice (rrParticipantGroupIDs reply) \<rparr>)
                    | _ \<Rightarrow> (s1, resolve_failure ErrInternal))"

definition txStatusToString :: "TxStatus \<Rightarrow> string" where
  "txStatusToString st =
     (if st = TxStatusCommitted then ''COMMITTED'' else if st = TxStatusAborted then ''ABORTED'' else ''UNKNOWN'')"

text \<open>\<open>QueryTxDecision\<close> reads the local store, without going through the log.\<close>

definition grpc_QueryTxDecision :: "('db, 'txn) badger \<Rightarrow> ('db, 's) node_ops \<Rightarrow> string \<Rightarrow> 's \<Rightarrow> QueryTxDecisionResponse" where
  "grpc_QueryTxDecision B R txID s =
     (let unknown = (\<lambda>e. \<lparr> qdDecision = txStatusToString TxStatusUnknown, qdError = errReply e \<rparr>)
      in if killed R s then unknown ErrWrongLeader
         else case GetTxRecord B (kvStore (noServer R s)) (txDecisionPrefix @ txID) of
                Inl _ \<Rightarrow> unknown ErrWrongLeader
              | Inr None \<Rightarrow> unknown OK
              | Inr (Some decision) \<Rightarrow>
                  (case unmarshal_decision decision of
                     None \<Rightarrow> unknown ErrWrongLeader
                   | Some rec \<Rightarrow> \<lparr> qdDecision = txStatusToString (tdDecision rec), qdError = errReply OK \<rparr>))"

section \<open>Shards and the router\<close>

text \<open>\<open>True\<close> is an error; the connection for the double writes is made before the log is asked.\<close>

definition kv_SetShardState ::
  "node_env \<Rightarrow> ('db, 's) node_ops \<Rightarrow> SetShardStateArgs \<Rightarrow> 's \<Rightarrow> 's \<times> bool" where
  "kv_SetShardState E R args s =
     (if \<not> validateShardID (kvShardMgr (noServer R s)) (ssaShardID args) then (s, True)
      else
        let setup = (if ssaState args = MIGRATING \<and> ssaTargetReplicas args \<noteq> []
                     then (case ensureForwardClient (peerNet E) (kvShardMgr (noServer R s)) (ssaTargetGroup args)
                                  (ssaTargetReplicas args) of
                             (ssm, c) \<Rightarrow> (noUpdate R (\<lambda>kv. kv\<lparr> kvShardMgr := ssm \<rparr>) s, c = None))
                     else (s, False))
        in if snd setup then (fst setup, True)
           else case noSubmit R (ReqSetShardState args) (fst setup) of
                  (s1, err, ret) \<Rightarrow>
                    if err \<noteq> OK then (s1, True)
                    else case ret of Some (RepSetShardState reply) \<Rightarrow> (s1, ssrFailed reply) | _ \<Rightarrow> (s1, True))"

record ShardStateEntry =
  seShardId :: int32
  seState :: "32 word"
  seTargetGroup :: int32

definition kv_GetShardStates :: "'db KVServer \<Rightarrow> ShardStateEntry list \<times> int64" where
  "kv_GetShardStates kv =
     (map (\<lambda>(shardID, meta). \<lparr> seShardId = ucast shardID, seState = smState meta, seTargetGroup = ucast (smTargetGroup meta) \<rparr>)
        (AllStates (kvShardMgr kv)), GetEpoch (kvShardMgr kv))"

definition grpc_CleanupShard ::
  "('db, 's) node_ops \<Rightarrow> int32 \<Rightarrow> CleanupShardKey list \<Rightarrow> 's \<Rightarrow> 's \<times> string \<times> int32" where
  "grpc_CleanupShard R shardID ks s =
     (case GetShardState (kvShardMgr (noServer R s)) (scast shardID) of
        None \<Rightarrow> (s, errReply ErrWrongGroup, 0)
      | Some meta \<Rightarrow>
          if smState meta \<noteq> ABSENT then (s, errReply ErrWrongGroup, 0)
          else case noSubmit R (ReqCleanupShard \<lparr> csShardID = scast shardID, csKeys = ks \<rparr>) s of
                 (s1, err, ret) \<Rightarrow>
                   if err \<noteq> OK then (s1, errReply err, 0)
                   else case ret of
                          Some (RepCleanupShard reply) \<Rightarrow> (s1, errReply (csErr reply), word_of_nat (csDeleted reply))
                        | _ \<Rightarrow> (s1, ErrInternal, 0))"

definition config_of_request :: "SetRouterAndRecoverRequest \<Rightarrow> ShardingConfig" where
  "config_of_request req =
     \<lparr> scGroups = map (\<lambda>g. \<lparr> rgGroupID = scast (pgGroupId g), rgReplicas = pgReplicas g, rgLeaderIdx = sint (pgLeaderIdx g) \<rparr>)
                    (rrGroups req),
       scNumShards = sint (rrNumShards req), scVirtualNodeCount = sint (rrVirtualNodeCount req),
       scPreferredReplicas = sint (rrPreferredReplicas req),
       scConnectTimeout = (if sint (rrConnectTimeoutMs req) > 0 then sint (rrConnectTimeoutMs req) * msec else 0),
       scRequestTimeout = (if sint (rrRequestTimeoutMs req) > 0 then sint (rrRequestTimeoutMs req) * msec else 0),
       scShardToGroup = [], scTopologyEpoch = 0 \<rparr>"

text \<open>What the transaction manager uses of a router: the remote query and the group of a key.\<close>

definition tx_router :: "(string \<Rightarrow> uint64) \<Rightarrow> 'w KVServiceClient \<Rightarrow> int \<Rightarrow> ShardRouter \<Rightarrow> 'w \<Rightarrow> Router" where
  "tx_router h N now r w =
     \<lparr> QueryTxDecisionToGroup = \<lambda>gid txID.
         (case router_QueryTxDecisionToGroup N now gid txID r w of
            (_, _, Inl _) \<Rightarrow> None
          | (_, _, Inr resp) \<Rightarrow> Some (qdDecision resp)),
       Resolve = \<lambda>key. (case router_Resolve h r key of None \<Rightarrow> - 1 | Some gid \<Rightarrow> gid) \<rparr>"

text \<open>The text of the answer, or \<open>None\<close> where the handler panics or waits for a mutex that is never released.\<close>

definition grpc_SetRouterAndRecover ::
  "('db, 'txn) badger \<Rightarrow> node_env \<Rightarrow> (string \<Rightarrow> bool) \<Rightarrow> (ShardRouter \<Rightarrow> Router) \<Rightarrow> int
   \<Rightarrow> ('db, 's) node_ops \<Rightarrow> SetRouterAndRecoverRequest \<Rightarrow> 's \<Rightarrow> ('s \<times> string \<times> retryTask list) option" where
  "grpc_SetRouterAndRecover B E dial mkRouter now R req s =
     (if killed R s then Some (s, errReply ErrWrongLeader, [])
      else case NewShardRouter dial now (config_of_request req) of
             None \<Rightarrow> None
           | Some None \<Rightarrow> Some (s, ''create router'', [])
           | Some (Some router) \<Rightarrow>
               map_option (\<lambda>(tm, tasks). (noUpdate R (\<lambda>kv. kv\<lparr> kvTxMgr := tm \<rparr>) s, errReply OK, tasks))
                 (SetRouterAndRecover B (recordOrder E) (kvTxMgr (noServer R s)) (mkRouter router)))"

section \<open>A node that executes at once\<close>

text \<open>
  A request that never returns in the state machine is never answered; its caller is told nothing,
  which is the outcome of a shutdown.
\<close>

definition direct_submit ::
  "('db, 'txn) badger \<Rightarrow> node_env \<Rightarrow> int64 \<Rightarrow> Request \<Rightarrow> 'db KVServer \<Rightarrow> 'db KVServer \<times> Err \<times> Reply option" where
  "direct_submit B E now req kv =
     (case DoOp B E now now kv req of
        None \<Rightarrow> (kv, ErrWrongLeader, None)
      | Some (kv', reply) \<Rightarrow> (kv', OK, Some reply))"

definition direct_node :: "('db, 'txn) badger \<Rightarrow> node_env \<Rightarrow> int64 \<Rightarrow> ('db, 'db KVServer) node_ops" where
  "direct_node B E now =
     \<lparr> noServer = id, noUpdate = id, noSubmit = direct_submit B E now,
       noLeaseRead = \<lambda>req kv. (case direct_submit B E now req kv of (kv', err, ret) \<Rightarrow> (kv', err, ret, False)),
       noLeaseStatEnabled = False \<rparr>"

lemma direct_node_Put:
  assumes "\<not> kvDead kv"
  shows "grpc_Put (direct_node B E now) req kv
    = (case doPut B E now now kv \<lparr> pKey = pqKey req, pValue = pqValue req, pVersion = pqVersion req, pTTL = pqTtlSeconds req \<rparr> of
         (kv', reply) \<Rightarrow> (kv', \<lparr> ppError = errReply (prErr reply), ppHintGroupId = ucast (prHintGroupID reply),
                               ppHintReplicas = prHintReplicas reply, ppHintEpoch = prHintEpoch reply \<rparr>))"
  using assms by (simp add: grpc_Put_def killed_def direct_node_def direct_submit_def DoOp_def split: prod.split)

lemma direct_node_Get:
  assumes "\<not> kvDead kv"
  shows "snd (grpc_Get (direct_node B E now) key kv)
    = (case doGet B E now kv \<lparr> gKey = key \<rparr> of
         (kv', reply) \<Rightarrow> \<lparr> gpValue = grValue reply, gpVersion = grVersion reply, gpError = errReply (grErr reply),
                         gpExpires = grExpires reply, gpHintGroupId = ucast (grHintGroupID reply),
                         gpHintReplicas = grHintReplicas reply, gpHintEpoch = grHintEpoch reply \<rparr>)"
  using assms by (simp add: grpc_Get_def killed_def direct_node_def direct_submit_def DoOp_def Let_def split: prod.split)

end
