(* ===== verification/Client.thy ===== *)
theory Client
  imports Grpc Kv_Semantics
begin

text \<open>
  The client (\<^verbatim>\<open>src/pkg/kv/client.go\<close>): a clerk sends a request through its router and repeats it, with
  growing pauses, until it is answered, 80 attempts were made or ten seconds have passed. The world
  of the servers has a clock, and sleeping is a step of the world in which other clients may act.
  The jitter of a pause is computed with rational numbers where the code uses floats.
\<close>

section \<open>Pauses\<close>

definition wrap64 :: "int \<Rightarrow> int" where
  "wrap64 n = sint (word_of_int n :: int64)"

definition backoffWithJitter :: "nat \<Rightarrow> int \<Rightarrow> int \<Rightarrow> int \<Rightarrow> int" where
  "backoffWithJitter attempt base maxDelay unixNano =
     (let delay0 = wrap64 (base * 2 ^ attempt);
          delay = (if delay0 \<le> 0 \<or> delay0 > maxDelay then maxDelay else delay0);
          jitter = (delay * (2 * (unixNano mod 1000) - 1000)) sdiv 4000;
          result = delay + jitter
      in if result < 0 then base else if result > maxDelay then maxDelay else result)"

definition retryWindow :: int where "retryWindow = 10000 * msec"
definition retryBackoffBase :: int where "retryBackoffBase = 8 * msec"
definition retryBackoffMax :: int where "retryBackoffMax = 500 * msec"
definition maxAttempts :: nat where "maxAttempts = 80"

lemma backoff_bounds:
  assumes "0 < base" "base \<le> maxDelay"
  shows "0 \<le> backoffWithJitter attempt base maxDelay t \<and> backoffWithJitter attempt base maxDelay t \<le> maxDelay"
  using assms by (auto simp: backoffWithJitter_def Let_def)

section \<open>The clerk\<close>

record 'w net =
  netClient :: "'w KVServiceClient"
  netHash :: "string \<Rightarrow> uint64"
  netDial :: "string \<Rightarrow> bool"
  netClock :: "'w \<Rightarrow> int"
  netSleep :: "int \<Rightarrow> 'w \<Rightarrow> 'w"

definition pause :: "'w net \<Rightarrow> nat \<Rightarrow> 'w \<Rightarrow> 'w" where
  "pause E attempts w = netSleep E (backoffWithJitter attempts retryBackoffBase retryBackoffMax (netClock E w)) w"

definition MakeClerk :: "(string \<Rightarrow> bool) \<Rightarrow> int \<Rightarrow> string list \<Rightarrow> ShardRouter option option" where
  "MakeClerk dial now servers =
     NewShardRouter dial now
       \<lparr> scGroups = [\<lparr> rgGroupID = 1, rgReplicas = servers, rgLeaderIdx = 0 \<rparr>], scNumShards = 0, scVirtualNodeCount = 150,
         scPreferredReplicas = int (length servers), scConnectTimeout = 2000 * msec, scRequestTimeout = 1200 * msec,
         scShardToGroup = [], scTopologyEpoch = 0 \<rparr>"

text \<open>
  The loops count the attempts that are left. \<open>tryRefreshTopology\<close>, which they call on
  \<open>ErrWrongGroup\<close>, has an empty body.
\<close>

type_synonym get_result = "string \<times> int64 \<times> int64 \<times> Err"

fun get_loop :: "'w net \<Rightarrow> string \<Rightarrow> int \<Rightarrow> nat \<Rightarrow> ShardRouter \<Rightarrow> 'w \<Rightarrow> ShardRouter \<times> 'w \<times> get_result" where
  "get_loop E key deadline 0 r w = (r, w, [], 0, 0, ErrWrongLeader)"
| "get_loop E key deadline (Suc n) r w =
     (if netClock E w > deadline then (r, w, [], 0, 0, ErrWrongLeader)
      else case GetRoute (netHash E) (netDial E) (netClient E) (netClock E w) key r w of
             (r1, w1, Inl _) \<Rightarrow> get_loop E key deadline n r1 (pause E (maxAttempts - n) w1)
           | (r1, w1, Inr resp) \<Rightarrow>
               (case mapPBErr (gpError resp) of
                  OK \<Rightarrow> (r1, w1, gpValue resp, gpVersion resp, gpExpires resp, OK)
                | ErrNoKey \<Rightarrow> (r1, w1, [], 0, 0, ErrNoKey)
                | _ \<Rightarrow> get_loop E key deadline n r1 (pause E (maxAttempts - n) w1)))"

definition clerk_Get :: "'w net \<Rightarrow> string \<Rightarrow> ShardRouter \<Rightarrow> 'w \<Rightarrow> ShardRouter \<times> 'w \<times> get_result" where
  "clerk_Get E key r w = get_loop E key (netClock E w + retryWindow) maxAttempts r w"

definition readVersionFast :: "'w net \<Rightarrow> string \<Rightarrow> ShardRouter \<Rightarrow> 'w \<Rightarrow> ShardRouter \<times> 'w \<times> Tversion" where
  "readVersionFast E key r w =
     (case GetRoute (netHash E) (netDial E) (netClient E) (netClock E w) key r w of
        (r1, w1, Inl _) \<Rightarrow> (r1, w1, 0)
      | (r1, w1, Inr resp) \<Rightarrow> (r1, w1, if mapPBErr (gpError resp) \<noteq> OK then 0 else gpVersion resp))"

fun put_loop ::
  "'w net \<Rightarrow> string \<Rightarrow> string \<Rightarrow> int64 \<Rightarrow> int \<Rightarrow> Tversion \<Rightarrow> bool \<Rightarrow> nat \<Rightarrow> nat \<Rightarrow> ShardRouter \<Rightarrow> 'w
   \<Rightarrow> ShardRouter \<times> 'w \<times> Err" where
  "put_loop E key value ttl deadline version rpcAttempted refreshLeft 0 r w = (r, w, ErrWrongLeader)"
| "put_loop E key value ttl deadline version rpcAttempted refreshLeft (Suc n) r w =
     (if netClock E w > deadline then (r, w, ErrWrongLeader)
      else case PutRouteWithTTL (netHash E) (netDial E) (netClient E) (netClock E w) key value version ttl r w of
             (r1, w1, Inl _) \<Rightarrow> put_loop E key value ttl deadline version True refreshLeft n r1 (pause E (maxAttempts - n) w1)
           | (r1, w1, Inr resp) \<Rightarrow>
               (case mapPBErr (ppError resp) of
                  OK \<Rightarrow> (r1, w1, OK)
                | ErrNoKey \<Rightarrow> (r1, w1, ErrNoKey)
                | ErrVersion \<Rightarrow>
                    if \<not> rpcAttempted then (r1, w1, ErrVersion)
                    else if refreshLeft = 0 then (r1, w1, ErrMaybe)
                    else (case readVersionFast E key r1 w1 of
                            (r2, w2, latestV) \<Rightarrow>
                              put_loop E key value ttl deadline (if sint latestV > sint version then latestV else version)
                                rpcAttempted (refreshLeft - 1) n r2 w2)
                | _ \<Rightarrow> put_loop E key value ttl deadline version True refreshLeft n r1 (pause E (maxAttempts - n) w1)))"

definition clerk_doPut ::
  "'w net \<Rightarrow> string \<Rightarrow> string \<Rightarrow> Tversion \<Rightarrow> int64 \<Rightarrow> ShardRouter \<Rightarrow> 'w \<Rightarrow> ShardRouter \<times> 'w \<times> Err" where
  "clerk_doPut E key value version ttlSeconds r w =
     put_loop E key value ttlSeconds (netClock E w + retryWindow) version False 3 maxAttempts r w"

definition clerk_Put :: "'w net \<Rightarrow> string \<Rightarrow> string \<Rightarrow> Tversion \<Rightarrow> ShardRouter \<Rightarrow> 'w \<Rightarrow> ShardRouter \<times> 'w \<times> Err" where
  "clerk_Put E key value version r w = clerk_doPut E key value version 0 r w"

definition clerk_PutWithTTL ::
  "'w net \<Rightarrow> string \<Rightarrow> string \<Rightarrow> Tversion \<Rightarrow> int64 \<Rightarrow> ShardRouter \<Rightarrow> 'w \<Rightarrow> ShardRouter \<times> 'w \<times> Err" where
  "clerk_PutWithTTL E key value version ttlSeconds r w = clerk_doPut E key value version ttlSeconds r w"

fun delete_loop :: "'w net \<Rightarrow> string \<Rightarrow> int \<Rightarrow> nat \<Rightarrow> ShardRouter \<Rightarrow> 'w \<Rightarrow> ShardRouter \<times> 'w \<times> Err" where
  "delete_loop E key deadline 0 r w = (r, w, ErrWrongLeader)"
| "delete_loop E key deadline (Suc n) r w =
     (if netClock E w > deadline then (r, w, ErrWrongLeader)
      else case DeleteRoute (netHash E) (netDial E) (netClient E) (netClock E w) key r w of
             (r1, w1, Inl _) \<Rightarrow> delete_loop E key deadline n r1 (pause E (maxAttempts - n) w1)
           | (r1, w1, Inr resp) \<Rightarrow>
               if mapPBErr (dpError resp) = OK \<or> mapPBErr (dpError resp) = ErrNoKey
               then (r1, w1, mapPBErr (dpError resp))
               else delete_loop E key deadline n r1 (pause E (maxAttempts - n) w1))"

definition clerk_Delete :: "'w net \<Rightarrow> string \<Rightarrow> ShardRouter \<Rightarrow> 'w \<Rightarrow> ShardRouter \<times> 'w \<times> Err" where
  "clerk_Delete E key r w = delete_loop E key (netClock E w + retryWindow) maxAttempts r w"

fun clerk_scan_loop ::
  "'w net \<Rightarrow> string \<Rightarrow> int32 \<Rightarrow> int \<Rightarrow> nat \<Rightarrow> ShardRouter \<Rightarrow> 'w \<Rightarrow> ShardRouter \<times> 'w \<times> KeyValue list \<times> Err" where
  "clerk_scan_loop E pfx limit deadline 0 r w = (r, w, [], ErrWrongLeader)"
| "clerk_scan_loop E pfx limit deadline (Suc n) r w =
     (if netClock E w > deadline then (r, w, [], ErrWrongLeader)
      else case ScanRoute (netClient E) (netClock E w) pfx limit r w of
             (r1, w1, Inr items) \<Rightarrow> (r1, w1, items, OK)
           | (r1, w1, Inl _) \<Rightarrow> clerk_scan_loop E pfx limit deadline n r1 (pause E (maxAttempts - n) w1))"

definition clerk_Scan :: "'w net \<Rightarrow> string \<Rightarrow> int32 \<Rightarrow> ShardRouter \<Rightarrow> 'w \<Rightarrow> ShardRouter \<times> 'w \<times> KeyValue list \<times> Err" where
  "clerk_Scan E pfx limit r w = clerk_scan_loop E pfx limit (netClock E w + retryWindow) maxAttempts r w"

section \<open>One attempt of a Put\<close>

text \<open>
  An attempt ends the loop for want of time, ends it with the code of an answer, or goes on; then
  at least one call has been made.
\<close>

lemma put_loop_step:
  assumes "put_loop E key val ttl deadline v att left (Suc n) r w = (r', w', err)"
  obtains (late) "err = ErrWrongLeader"
  | (answered) resp where
      "PutRouteWithTTL (netHash E) (netDial E) (netClient E) (netClock E w) key val v ttl r w = (r', w', Inr resp)"
      "mapPBErr (ppError resp) = (if err = ErrMaybe then ErrVersion else err)" "err = ErrVersion \<Longrightarrow> \<not> att"
  | (again) v2 left2 r2 w2 where "put_loop E key val ttl deadline v2 True left2 n r2 w2 = (r', w', err)"
proof (cases "netClock E w > deadline")
  case True
  then show ?thesis using assms late by simp
next
  case False
  let ?route = "PutRouteWithTTL (netHash E) (netDial E) (netClient E) (netClock E w) key val v ttl r w"
  obtain r1 w1 res where out: "?route = (r1, w1, res)" by (cases ?route)
  show ?thesis
  proof (cases res)
    case (Inl e)
    then show ?thesis using assms again False out by simp
  next
    case (Inr resp)
    obtain r2 w2 lv where fast: "readVersionFast E key r1 w1 = (r2, w2, lv)" by (cases "readVersionFast E key r1 w1")
    have loop: "(case mapPBErr (ppError resp) of
        OK \<Rightarrow> (r1, w1, OK)
      | ErrNoKey \<Rightarrow> (r1, w1, ErrNoKey)
      | ErrVersion \<Rightarrow>
          if \<not> att then (r1, w1, ErrVersion)
          else if left = 0 then (r1, w1, ErrMaybe)
          else (case readVersionFast E key r1 w1 of
                  (r2, w2, lv) \<Rightarrow>
                    put_loop E key val ttl deadline (if sint lv > sint v then lv else v) att (left - 1) n r2 w2)
      | _ \<Rightarrow> put_loop E key val ttl deadline v True left n r1 (pause E (maxAttempts - n) w1)) = (r', w', err)"
      using assms False out Inr by simp
    show ?thesis
    proof (cases "mapPBErr (ppError resp)")
      case OK
      then show ?thesis using loop answered [of resp] out Inr by simp
    next
      case ErrNoKey
      then show ?thesis using loop answered [of resp] out Inr by simp
    next
      case ErrVersion
      show ?thesis
      proof (cases "\<not> att \<or> left = 0")
        case True
        then show ?thesis using ErrVersion loop answered [of resp] out Inr by (auto split: if_splits)
      next
        case False
        then have "put_loop E key val ttl deadline (if sint lv > sint v then lv else v) True (left - 1) n r2 w2 = (r', w', err)"
          using ErrVersion loop fast by simp
        then show ?thesis by (rule again)
      qed
    qed (use loop again in simp_all)
  qed
qed

section \<open>What the answer to a Put says\<close>

text \<open>
  What a clerk relies on: \<open>executed\<close> says that a put of the value under the key was carried out. An
  answer \<open>OK\<close> comes from a put that was, an answer \<open>ErrVersion\<close> from one that was not, and nothing
  else takes it back.
\<close>

locale put_service =
  fixes E :: "'w net" and key val :: string and ttl :: int64 and executed :: "'w \<Rightarrow> bool"
  assumes put_ok: "rpcPut (netClient E) a \<lparr> pqKey = key, pqValue = val, pqVersion = v, pqTtlSeconds = ttl \<rparr> w = (w', RpcOk resp)
      \<Longrightarrow> mapPBErr (ppError resp) = OK \<Longrightarrow> executed w'"
    and put_refused: "rpcPut (netClient E) a \<lparr> pqKey = key, pqValue = val, pqVersion = v, pqTtlSeconds = ttl \<rparr> w = (w', RpcOk resp)
      \<Longrightarrow> mapPBErr (ppError resp) = ErrVersion \<Longrightarrow> executed w' \<Longrightarrow> executed w"
begin

lemma route_answer:
  assumes "PutRouteWithTTL (netHash E) (netDial E) (netClient E) now key val v ttl r w = (r', w', Inr resp)"
  obtains gid before a after where
    "groupForKey (netHash E) r key = Inr gid" "groupReplicaCandidates r now gid = before @ a # after"
    "rpcPut (netClient E) a \<lparr> pqKey = key, pqValue = val, pqVersion = v, pqTtlSeconds = ttl \<rparr>
       (calls_all (\<lambda>a. rpcPut (netClient E) a \<lparr> pqKey = key, pqValue = val, pqVersion = v, pqTtlSeconds = ttl \<rparr>) before w)
     = (w', RpcOk resp)"
proof -
  obtain gid r1 where gid: "groupForKey (netHash E) r key = Inr gid"
    and out: "PutToGroupWithTTL (netClient E) now gid key val v ttl r w = (r1, w', Inr resp)"
    using assms by (auto simp: PutRouteWithTTL_def split: sum.splits prod.splits)
  have "failover (\<lambda>a. rpcPut (netClient E) a \<lparr> pqKey = key, pqValue = val, pqVersion = v, pqTtlSeconds = ttl \<rparr>) ppError gid
      (groupReplicaCandidates r now gid) w (r1, w', Inr resp)"
    using group_failover out unfolding PutToGroupWithTTL_def by metis
  then show ?thesis using that [OF gid] by (auto simp: failover_def)
qed

lemma put_loop_OK:
  "put_loop E key val ttl deadline v att left n r w = (r', w', OK) \<Longrightarrow> executed w'"
proof (induction n arbitrary: v att left r w)
  case (Suc n)
  from Suc.prems show ?case
  proof (cases rule: put_loop_step)
    case (answered resp)
    then show ?thesis using put_ok by (elim route_answer) auto
  next
    case (again v2 left2 r2 w2)
    then show ?thesis using Suc.IH by blast
  qed simp
qed simp

lemma put_loop_no_ErrVersion:
  "put_loop E key val ttl deadline v True left n r w \<noteq> (r', w', ErrVersion)"
proof (induction n arbitrary: v left r w)
  case (Suc n)
  show ?case
  proof
    assume "put_loop E key val ttl deadline v True left (Suc n) r w = (r', w', ErrVersion)"
    then show False using Suc.IH by (cases rule: put_loop_step) auto
  qed
qed simp

lemma put_loop_ErrVersion:
  assumes loop: "put_loop E key val ttl deadline v False left n r w = (r', w', ErrVersion)"
    and gid: "groupForKey (netHash E) r key = Inr gid" "length (groupReplicaCandidates r (netClock E w) gid) \<le> 1"
    and "executed w'"
  shows "executed w"
proof (cases n)
  case (Suc m)
  from loop [unfolded Suc] show ?thesis
  proof (cases rule: put_loop_step)
    case (answered resp)
    from answered(1) show ?thesis
    proof (rule route_answer)
      fix g before a after
      assume g: "groupForKey (netHash E) r key = Inr g"
        and c: "groupReplicaCandidates r (netClock E w) g = before @ a # after"
        and call: "rpcPut (netClient E) a \<lparr> pqKey = key, pqValue = val, pqVersion = v, pqTtlSeconds = ttl \<rparr>
          (calls_all (\<lambda>a. rpcPut (netClient E) a \<lparr> pqKey = key, pqValue = val, pqVersion = v, pqTtlSeconds = ttl \<rparr>) before w)
          = (w', RpcOk resp)"
      have "before = []" using g gid c by (cases before) auto
      then show ?thesis using call put_refused answered(2) assms(4) by auto
    qed
  next
    case (again v2 left2 r2 w2)
    then show ?thesis using put_loop_no_ErrVersion by blast
  qed simp
qed (use loop in simp)

end

section \<open>A replicated group as the world\<close>

text \<open>
  A group of replicas of one state machine: a call may be dropped on the way, may be executed
  without its answer coming back, may reach a follower, or be answered. During a pause the requests
  of other clients are executed. \<open>gwPuts\<close> are the puts this clerk had executed, with their results.
\<close>

datatype fate = Dropped | Unanswered | NotLeader | Answered

record 'db group_world =
  gwServer :: "'db KVServer"
  gwFates :: "fate list"
  gwTime :: int
  gwOthers :: "Request list list"
  gwPuts :: "(PutArgs \<times> Err) list"

definition world_submit ::
  "('db, 'txn) badger \<Rightarrow> node_env \<Rightarrow> Request \<Rightarrow> 'db group_world \<Rightarrow> 'db group_world \<times> Err \<times> Reply option" where
  "world_submit B E req w =
     (case direct_submit B E (word_of_int (gwTime w)) req (gwServer w) of
        (kv, err, ret) \<Rightarrow>
          (w\<lparr> gwServer := kv,
              gwPuts := gwPuts w @ (case (req, ret) of (ReqPut a, Some (RepPut rep)) \<Rightarrow> [(a, prErr rep)] | _ \<Rightarrow> []) \<rparr>,
           err, ret))"

definition world_node :: "('db, 'txn) badger \<Rightarrow> node_env \<Rightarrow> ('db, 'db group_world) node_ops" where
  "world_node B E =
     \<lparr> noServer = gwServer, noUpdate = \<lambda>f w. w\<lparr> gwServer := f (gwServer w) \<rparr>, noSubmit = world_submit B E,
       noLeaseRead = \<lambda>req w. (case world_submit B E req w of (w', err, ret) \<Rightarrow> (w', err, ret, False)),
       noLeaseStatEnabled = False \<rparr>"

definition with_fate ::
  "('db group_world \<Rightarrow> 'db group_world \<times> 'r) \<Rightarrow> 'r \<Rightarrow> 'db group_world \<Rightarrow> 'db group_world \<times> 'r rpc" where
  "with_fate handler refusal w =
     (case gwFates w of
        [] \<Rightarrow> map_prod id RpcOk (handler w)
      | f # fs \<Rightarrow>
          let w0 = w\<lparr> gwFates := fs \<rparr>
          in case f of
               Dropped \<Rightarrow> (w0, RpcErr ''unavailable'')
             | Unanswered \<Rightarrow> (fst (handler w0), RpcErr ''deadline exceeded'')
             | NotLeader \<Rightarrow> (w0, RpcOk refusal)
             | Answered \<Rightarrow> map_prod id RpcOk (handler w0))"

definition group_client :: "('db, 'txn) badger \<Rightarrow> node_env \<Rightarrow> 'db group_world KVServiceClient" where
  "group_client B E =
     \<lparr> rpcGet = \<lambda>_ key. with_fate (grpc_Get (world_node B E) key) (get_failure (errReply ErrWrongLeader)),
       rpcPut = \<lambda>_ req. with_fate (grpc_Put (world_node B E) req) (put_failure (errReply ErrWrongLeader)),
       rpcDelete = \<lambda>_ key. with_fate (grpc_Delete (world_node B E) key) (delete_failure (errReply ErrWrongLeader)),
       rpcScan = \<lambda>_ req. with_fate (grpc_Scan (world_node B E) req) \<lparr> spItems = [], spError = errReply ErrWrongLeader \<rparr>,
       rpcPrepareTx = \<lambda>_ req. with_fate (grpc_PrepareTx (world_node B E) req) (errReply ErrWrongLeader),
       rpcCommitTx = \<lambda>_ req. with_fate (grpc_CommitTx (world_node B E) req) (errReply ErrWrongLeader),
       rpcAbortTx = \<lambda>_ req. with_fate (grpc_AbortTx (world_node B E) req) (errReply ErrWrongLeader),
       rpcResolveTxStatus = \<lambda>_ txID. with_fate (grpc_ResolveTxStatus (world_node B E) txID) (resolve_failure (errReply ErrWrongLeader)),
       rpcQueryTxDecision = \<lambda>_ txID. with_fate (\<lambda>w. (w, grpc_QueryTxDecision B (world_node B E) txID w))
         \<lparr> qdDecision = ''UNKNOWN'', qdError = errReply ErrWrongLeader \<rparr>,
       rpcSetRouterAndRecover = \<lambda>_ _. with_fate (\<lambda>w. (w, [])) (errReply ErrWrongLeader) \<rparr>"

text \<open>A pause lets the next batch of the other clients' requests be executed and time pass.\<close>

definition group_sleep :: "('db, 'txn) badger \<Rightarrow> node_env \<Rightarrow> int \<Rightarrow> 'db group_world \<Rightarrow> 'db group_world" where
  "group_sleep B E d w =
     (case gwOthers w of
        [] \<Rightarrow> w\<lparr> gwTime := gwTime w + d \<rparr>
      | reqs # rest \<Rightarrow>
          w\<lparr> gwServer := fold (\<lambda>req kv. fst (direct_submit B E (word_of_int (gwTime w)) req kv)) reqs (gwServer w),
             gwOthers := rest, gwTime := gwTime w + d \<rparr>)"

definition group_net :: "('db, 'txn) badger \<Rightarrow> node_env \<Rightarrow> (string \<Rightarrow> bool) \<Rightarrow> 'db group_world net" where
  "group_net B E dial =
     \<lparr> netClient = group_client B E, netHash = xxhash E, netDial = dial, netClock = gwTime, netSleep = group_sleep B E \<rparr>"

definition put_executed :: "string \<Rightarrow> string \<Rightarrow> int64 \<Rightarrow> 'db group_world \<Rightarrow> bool" where
  "put_executed key val ttl w \<longleftrightarrow>
     (\<exists>v. (\<lparr> pKey = key, pValue = val, pVersion = v, pTTL = ttl \<rparr>, OK) \<in> set (gwPuts w))"

lemma world_put_answer:
  assumes "grpc_Put (world_node B E) req w = (w', resp)"
  shows "gwPuts w' = gwPuts w \<and> mapPBErr (ppError resp) \<notin> {OK, ErrVersion}
    \<or> gwPuts w' = gwPuts w @ [(\<lparr> pKey = pqKey req, pValue = pqValue req, pVersion = pqVersion req, pTTL = pqTtlSeconds req \<rparr>,
                              mapPBErr (ppError resp))]"
proof (cases "kvDead (gwServer w)")
  case True
  then show ?thesis
    using assms by (auto simp: grpc_Put_def world_node_def killed_def put_failure_def simp del: errReply.simps)
next
  case False
  obtain kv rep where "doPut B E (word_of_int (gwTime w)) (word_of_int (gwTime w)) (gwServer w)
      \<lparr> pKey = pqKey req, pValue = pqValue req, pVersion = pqVersion req, pTTL = pqTtlSeconds req \<rparr> = (kv, rep)"
    by (metis surj_pair)
  then show ?thesis
    using assms False
    by (auto simp: grpc_Put_def world_node_def killed_def world_submit_def direct_submit_def DoOp_def simp del: errReply.simps)
qed

lemma rpcPut_answer:
  assumes "with_fate (grpc_Put (world_node B E) req) (put_failure (errReply ErrWrongLeader)) w = (w', RpcOk resp)"
    "mapPBErr (ppError resp) \<in> {OK, ErrVersion}"
  shows "gwPuts w' = gwPuts w @ [(\<lparr> pKey = pqKey req, pValue = pqValue req, pVersion = pqVersion req, pTTL = pqTtlSeconds req \<rparr>,
                              mapPBErr (ppError resp))]"
proof (cases "gwFates w")
  case Nil
  then show ?thesis
    using assms world_put_answer [of B E req w] by (cases "grpc_Put (world_node B E) req w") (auto simp: with_fate_def)
next
  case (Cons f fs)
  then show ?thesis
    using assms world_put_answer [of B E req "w\<lparr> gwFates := fs \<rparr>"]
    by (cases "grpc_Put (world_node B E) req (w\<lparr> gwFates := fs \<rparr>)")
       (auto simp: with_fate_def put_failure_def Let_def simp del: errReply.simps split: fate.splits)
qed

interpretation clerk_group: put_service "group_net B E dial" key val ttl "put_executed key val ttl"
  for B :: "('db, 'txn) badger" and E dial key val ttl
proof unfold_locales
  fix a v w w' resp
  assume call: "rpcPut (netClient (group_net B E dial)) a \<lparr> pqKey = key, pqValue = val, pqVersion = v, pqTtlSeconds = ttl \<rparr> w
    = (w', RpcOk resp)"
  note ans = rpcPut_answer [of B E "\<lparr> pqKey = key, pqValue = val, pqVersion = v, pqTtlSeconds = ttl \<rparr>" w w' resp]
  have gp: "with_fate (grpc_Put (world_node B E) \<lparr> pqKey = key, pqValue = val, pqVersion = v, pqTtlSeconds = ttl \<rparr>)
      (put_failure (errReply ErrWrongLeader)) w = (w', RpcOk resp)"
    using call by (simp add: group_net_def group_client_def)
  show "put_executed key val ttl w'" if "mapPBErr (ppError resp) = OK"
    using ans [OF gp] that by (auto simp: put_executed_def)
  show "put_executed key val ttl w" if "mapPBErr (ppError resp) = ErrVersion" "put_executed key val ttl w'"
    using ans [OF gp] that by (auto simp: put_executed_def)
qed

text \<open>
  \<^bold>\<open>C36\<close>. The answer of a Put of the clerk is true, over every sequence of dropped calls, lost
  answers, changes of the leader and requests of other clients in between. After \<open>OK\<close> a put of the
  value under the key was executed by the group, with the TTL asked for. After \<open>ErrVersion\<close>, of a
  clerk with one connected replica, none was. The second part does not hold with more replicas:
  within one attempt the router goes on to the next replica when the answer of the first is lost.
\<close>

theorem clerk_Put_truthful:
  assumes "clerk_doPut (group_net B E dial) key val version ttl r w = (r', w', err)"
  shows "(err = OK \<longrightarrow> put_executed key val ttl w')
    \<and> (\<forall>gid. err = ErrVersion \<longrightarrow> groupForKey (xxhash E) r key = Inr gid
         \<longrightarrow> length (groupReplicaCandidates r (gwTime w) gid) \<le> 1
         \<longrightarrow> put_executed key val ttl w' \<longrightarrow> put_executed key val ttl w)"
proof (intro conjI allI impI)
  note loop = assms [unfolded clerk_doPut_def]
  show "put_executed key val ttl w'" if "err = OK"
    using clerk_group.put_loop_OK loop that by blast
  fix gid
  assume err: "err = ErrVersion" and gid: "groupForKey (xxhash E) r key = Inr gid"
    and c: "length (groupReplicaCandidates r (gwTime w) gid) \<le> 1" and ex: "put_executed key val ttl w'"
  show "put_executed key val ttl w"
    using clerk_group.put_loop_ErrVersion [OF loop [unfolded err] _ _ ex, of gid] gid c by (simp add: group_net_def)
qed

definition demo_world :: "fate list \<Rightarrow> mem_db group_world" where
  "demo_world fates = \<lparr> gwServer = demo_kv, gwFates = fates, gwTime = 5, gwOthers = [], gwPuts = [] \<rparr>"

abbreviation demo_net :: "mem_db group_world net" where
  "demo_net \<equiv> group_net (mem_badger []) demo_env (\<lambda>_. True)"

text \<open>The first replica drops the call, the second one answers.\<close>

lemma demo_put_OK: "snd (snd (clerk_doPut demo_net ''k'' ''v'' 0 0 demo_router (demo_world [Dropped, Answered]))) = OK"
proof -
  let ?req = "\<lparr> pqKey = ''k'', pqValue = ''v'', pqVersion = 0, pqTtlSeconds = 0 \<rparr>"
  let ?put = "grpc_Put (world_node (mem_badger []) demo_env) ?req"
  have ok: "ppError (snd (?put (demo_world []))) = ''OK''" and nl: "\<not> isWrongLeader ''OK''" by code_simp+
  obtain w1 resp where put: "?put (demo_world []) = (w1, resp)" and resp: "ppError resp = ''OK''"
    using ok by (cases "?put (demo_world [])") simp
  have route: "groupForKey (xxhash demo_env) demo_router ''k'' = Inr 1" "srClients demo_router 1 ''a''"
    "srClients demo_router 1 ''b''" by code_simp+
  have calls: "rpcPut (group_client (mem_badger []) demo_env) a ?req (demo_world [Dropped, Answered])
      = (demo_world [Answered], RpcErr ''unavailable'')"
    "rpcPut (group_client (mem_badger []) demo_env) a ?req (demo_world [Answered]) = (w1, RpcOk resp)" for a
    using put by (simp_all add: group_client_def with_fate_def demo_world_def)
  have "PutToGroupWithTTL (group_client (mem_badger []) demo_env) 5 1 ''k'' ''v'' 0 0 demo_router (demo_world [Dropped, Answered])
      = (setLeader 5 (invalidateLeader demo_router 1 ''a'') 1 ''b'', w1, Inr resp)"
    using demo_router_eq route calls resp nl by (simp add: PutToGroupWithTTL_def)
  moreover have "mapPBErr ''OK'' = OK" by (simp add: mapPBErr_def)
  moreover obtain n where n: "maxAttempts = Suc n" by (metis maxAttempts_def numeral_eq_Suc)
  ultimately show ?thesis
    using route resp unfolding clerk_doPut_def n
    by (simp add: PutRouteWithTTL_def group_net_def demo_world_def retryWindow_def msec_def)
qed

theorem clerk_Put_truthful_witness:
  "snd (snd (clerk_doPut demo_net ''k'' ''v'' 0 0 demo_router (demo_world [Dropped, Answered]))) = OK
   \<and> put_executed ''k'' ''v'' 0 (fst (snd (clerk_doPut demo_net ''k'' ''v'' 0 0 demo_router (demo_world [Dropped, Answered]))))"
proof -
  let ?out = "clerk_doPut demo_net ''k'' ''v'' 0 0 demo_router (demo_world [Dropped, Answered])"
  have "?out = (fst ?out, fst (snd ?out), OK)" using demo_put_OK by (metis prod.collapse)
  from clerk_Put_truthful [OF this] demo_put_OK show ?thesis by simp
qed

text \<open>
  \<^bold>\<open>C37\<close>. With two connected replicas a Put that was executed can be answered \<open>ErrVersion\<close>, the code
  that says it was not: the first call is executed and its answer lost, the router asks the second
  replica within the same attempt, and that one refuses the version which the put itself has
  replaced. The router keeps no trace of the lost answer, so the clerk takes it for its first call.
\<close>

theorem clerk_ErrVersion_though_executed:
  "\<exists>r' w'. clerk_doPut demo_net ''k'' ''v'' 0 0 demo_router (demo_world [Unanswered, Answered]) = (r', w', ErrVersion)
     \<and> put_executed ''k'' ''v'' 0 w' \<and> \<not> put_executed ''k'' ''v'' 0 (demo_world [Unanswered, Answered])"
proof -
  let ?req = "\<lparr> pqKey = ''k'', pqValue = ''v'', pqVersion = 0, pqTtlSeconds = 0 \<rparr>"
  let ?put = "grpc_Put (world_node (mem_badger []) demo_env) ?req"
  let ?w1 = "fst (?put (demo_world [Answered]))"
  have fates: "gwFates ?w1 = [Answered]" and first: "ppError (snd (?put (demo_world [Answered]))) = ''OK''"
    and second: "ppError (snd (?put (?w1\<lparr> gwFates := [] \<rparr>))) = ''ErrVersion''" and nl: "\<not> isWrongLeader ''ErrVersion''"
    and puts: "\<lparr> pKey = ''k'', pValue = ''v'', pVersion = 0, pTTL = 0 \<rparr> \<in> fst ` {e \<in> set (gwPuts (fst (?put (?w1\<lparr> gwFates := [] \<rparr>)))). snd e = OK}"
    by code_simp+
  obtain w2 resp where put: "?put (?w1\<lparr> gwFates := [] \<rparr>) = (w2, resp)" and resp: "ppError resp = ''ErrVersion''"
    using second by (cases "?put (?w1\<lparr> gwFates := [] \<rparr>)") simp
  have ex: "put_executed ''k'' ''v'' 0 w2" using puts put by (force simp: put_executed_def)
  have route: "groupForKey (xxhash demo_env) demo_router ''k'' = Inr 1" "srClients demo_router 1 ''a''"
    "srClients demo_router 1 ''b''" by code_simp+
  have calls: "rpcPut (group_client (mem_badger []) demo_env) a ?req (demo_world [Unanswered, Answered])
      = (?w1, RpcErr ''deadline exceeded'')"
    "rpcPut (group_client (mem_badger []) demo_env) a ?req ?w1 = (w2, RpcOk resp)" for a
    using put fates by (simp_all add: group_client_def with_fate_def demo_world_def)
  have "PutToGroupWithTTL (group_client (mem_badger []) demo_env) 5 1 ''k'' ''v'' 0 0 demo_router (demo_world [Unanswered, Answered])
      = (setLeader 5 (invalidateLeader demo_router 1 ''a'') 1 ''b'', w2, Inr resp)"
    using demo_router_eq route calls resp nl by (simp add: PutToGroupWithTTL_def)
  moreover have "mapPBErr ''ErrVersion'' = ErrVersion" by (simp add: mapPBErr_def)
  moreover obtain n where n: "maxAttempts = Suc n" by (metis maxAttempts_def numeral_eq_Suc)
  moreover have "\<not> put_executed ''k'' ''v'' 0 (demo_world [Unanswered, Answered])" by (simp add: put_executed_def demo_world_def)
  ultimately show ?thesis
    using route resp ex unfolding clerk_doPut_def n
    by (simp add: PutRouteWithTTL_def group_net_def demo_world_def retryWindow_def msec_def)
qed

end
