(* ===== verification/Tx_Coordinator.thy ===== *)
theory Tx_Coordinator
  imports Client
begin

text \<open>
  The client side of transactions (\<^verbatim>\<open>src/pkg/kv/tx_coordinator.go\<close>): a handle collects reads and
  writes, and \<open>Commit\<close> runs two-phase commit over the groups of its keys. The requests of one phase
  are sent at the same time; here they go out one after the other, in the order of the groups. A Go
  map is an association list, visited in the order of insertion.
\<close>

section \<open>Handles\<close>

record TxHandle =
  thTxID :: string
  thReadSet :: "(string \<times> ReadKey) list"
  thWriteSet :: "(string \<times> WriteKey) list"
  thGroups :: "goint list"
  thTimeoutMs :: int64

definition txDefaultTimeoutMs :: int64 where "txDefaultTimeoutMs = 10000"
definition txCommitMaxRetries :: nat where "txCommitMaxRetries = 5"

definition Begin :: "string \<Rightarrow> TxHandle" where
  "Begin txID = \<lparr> thTxID = txID, thReadSet = [], thWriteSet = [], thGroups = [], thTimeoutMs = txDefaultTimeoutMs \<rparr>"

definition clerkGet :: "'w net \<Rightarrow> string \<Rightarrow> ShardRouter \<Rightarrow> 'w \<Rightarrow> ShardRouter \<times> 'w \<times> get_result" where
  "clerkGet E key r w =
     (case GetRoute (netHash E) (netDial E) (netClient E) (netClock E w) key r w of
        (r1, w1, Inl _) \<Rightarrow> (r1, w1, [], 0, 0, ErrWrongLeader)
      | (r1, w1, Inr resp) \<Rightarrow>
          let errCode = mapPBErr (gpError resp)
          in if errCode \<noteq> OK then (r1, w1, [], 0, 0, errCode)
             else (r1, w1, gpValue resp, gpVersion resp, gpExpires resp, OK))"

definition tx_Get ::
  "'w net \<Rightarrow> string \<Rightarrow> TxHandle \<Rightarrow> ShardRouter \<Rightarrow> 'w \<Rightarrow> TxHandle \<times> ShardRouter \<times> 'w \<times> string \<times> Tversion \<times> Err" where
  "tx_Get E key h r w =
     (case map_of (thWriteSet h) key of
        Some wk \<Rightarrow> (h, r, w, wkValue wk, wkVersion wk, OK)
      | None \<Rightarrow>
          (case map_of (thReadSet h) key of
             Some rk \<Rightarrow> (h, r, w, rkValue rk, rkExpectedVersion rk, OK)
           | None \<Rightarrow>
               (case clerkGet E key r w of
                  (r1, w1, val, ver, _, e) \<Rightarrow>
                    if e \<noteq> OK then (h, r1, w1, [], 0, e)
                    else (h\<lparr> thReadSet := AList.update key \<lparr> rkKey = key, rkValue = val, rkExpectedVersion = ver \<rparr> (thReadSet h) \<rparr>,
                          r1, w1, val, ver, OK))))"

definition add_group :: "(string \<Rightarrow> uint64) \<Rightarrow> ShardRouter \<Rightarrow> string \<Rightarrow> TxHandle \<Rightarrow> TxHandle" where
  "add_group hsh r key h =
     (case router_Resolve hsh r key of
        None \<Rightarrow> h
      | Some gid \<Rightarrow> if sint gid \<ge> 0 then h\<lparr> thGroups := List.insert gid (thGroups h) \<rparr> else h)"

definition tx_Put :: "(string \<Rightarrow> uint64) \<Rightarrow> string \<Rightarrow> string \<Rightarrow> Tversion \<Rightarrow> ShardRouter \<Rightarrow> TxHandle \<Rightarrow> TxHandle" where
  "tx_Put hsh key val expectedVersion r h =
     add_group hsh r key
       (h\<lparr> thWriteSet := AList.update key
             \<lparr> wkKey = key, wkValue = val, wkVersion = expectedVersion, wkIsDelete = False \<rparr> (thWriteSet h) \<rparr>)"

definition tx_Delete :: "'w net \<Rightarrow> string \<Rightarrow> TxHandle \<Rightarrow> ShardRouter \<Rightarrow> 'w \<Rightarrow> TxHandle \<times> ShardRouter \<times> 'w" where
  "tx_Delete E key h r w =
     (let found = (case map_of (thReadSet h) key of
                     Some rk \<Rightarrow> (h, r, w, rkExpectedVersion rk)
                   | None \<Rightarrow>
                       (case clerkGet E key r w of
                          (r1, w1, _, ver, _, e) \<Rightarrow>
                            if e = OK
                            then (h\<lparr> thReadSet := AList.update key \<lparr> rkKey = key, rkValue = [], rkExpectedVersion = ver \<rparr> (thReadSet h) \<rparr>,
                                  r1, w1, ver)
                            else (h, r1, w1, 0)))
      in case found of
           (h1, r1, w1, version) \<Rightarrow>
             (add_group (netHash E) r1 key
                (h1\<lparr> thWriteSet := AList.update key
                       \<lparr> wkKey = key, wkValue = [], wkVersion = version, wkIsDelete = True \<rparr> (thWriteSet h1) \<rparr>),
              r1, w1))"

section \<open>Grouping the keys\<close>

definition resolves_to :: "(string \<Rightarrow> uint64) \<Rightarrow> ShardRouter \<Rightarrow> string \<Rightarrow> goint \<Rightarrow> bool" where
  "resolves_to hsh r key gid \<longleftrightarrow> router_Resolve hsh r key = Some gid \<and> sint gid \<ge> 0"

definition groupWriteKeys :: "(string \<Rightarrow> uint64) \<Rightarrow> ShardRouter \<Rightarrow> TxHandle \<Rightarrow> goint \<Rightarrow> WriteKey list" where
  "groupWriteKeys hsh r h gid = filter (\<lambda>wk. resolves_to hsh r (wkKey wk) gid) (map snd (thWriteSet h))"

definition groupReadKeys :: "(string \<Rightarrow> uint64) \<Rightarrow> ShardRouter \<Rightarrow> TxHandle \<Rightarrow> goint \<Rightarrow> ReadKey list" where
  "groupReadKeys hsh r h gid = filter (\<lambda>rk. resolves_to hsh r (rkKey rk) gid) (map snd (thReadSet h))"

text \<open>The groups that some key of a list resolves to: the keys of the two maps above.\<close>

definition groups_of :: "(string \<Rightarrow> uint64) \<Rightarrow> ShardRouter \<Rightarrow> string list \<Rightarrow> goint list" where
  "groups_of hsh r ks =
     remdups (concat (map (\<lambda>k. case router_Resolve hsh r k of
                                 None \<Rightarrow> [] | Some gid \<Rightarrow> if sint gid \<ge> 0 then [gid] else []) ks))"

definition allGroups :: "(string \<Rightarrow> uint64) \<Rightarrow> ShardRouter \<Rightarrow> TxHandle \<Rightarrow> goint list" where
  "allGroups hsh r h =
     (let reads = groups_of hsh r (map (rkKey \<circ> snd) (thReadSet h))
      in sort_key sint (thGroups h @ filter (\<lambda>gid. gid \<notin> set (thGroups h)) reads))"

definition readKeysToProto :: "ReadKey list \<Rightarrow> pbReadKey list" where
  "readKeysToProto ks = map (\<lambda>k. \<lparr> pbrKey = rkKey k, pbrExpectedVersion = rkExpectedVersion k \<rparr>) ks"

definition writeKeysToProto :: "WriteKey list \<Rightarrow> pbWriteKey list" where
  "writeKeysToProto ks =
     map (\<lambda>k. \<lparr> pbwKey = wkKey k, pbwValue = wkValue k, pbwVersion = wkVersion k, pbwIsDelete = wkIsDelete k \<rparr>) ks"

section \<open>Phases\<close>

definition prepare_request :: "(string \<Rightarrow> uint64) \<Rightarrow> ShardRouter \<Rightarrow> TxHandle \<Rightarrow> goint list \<Rightarrow> goint \<Rightarrow> PrepareTxRequest" where
  "prepare_request hsh r h gids gid =
     \<lparr> ptTxId = thTxID h, ptReadKeys = readKeysToProto (groupReadKeys hsh r h gid),
       ptWriteKeys = writeKeysToProto (groupWriteKeys hsh r h gid), ptTimeoutMs = thTimeoutMs h,
       ptCoordinatorGroupId = ucast (hd gids), ptParticipantGroupIds = int32Slice gids \<rparr>"

fun prepare_all ::
  "'w net \<Rightarrow> (goint \<Rightarrow> PrepareTxRequest) \<Rightarrow> goint list \<Rightarrow> ShardRouter \<Rightarrow> 'w
   \<Rightarrow> ShardRouter \<times> 'w \<times> (goint \<times> (route_err + TxResponse)) list" where
  "prepare_all E req [] r w = (r, w, [])"
| "prepare_all E req (gid # gids) r w =
     (case PrepareTxToGroup (netClient E) (netClock E w) gid (req gid) r w of
        (r1, w1, res) \<Rightarrow>
          (case prepare_all E req gids r1 w1 of (r2, w2, rest) \<Rightarrow> (r2, w2, (gid, res) # rest)))"

text \<open>The groups that are prepared, and the error of the last group that is not.\<close>

fun collect_prepares :: "(goint \<times> (route_err + TxResponse)) list \<Rightarrow> goint list \<Rightarrow> Err option \<Rightarrow> goint list \<times> Err option" where
  "collect_prepares [] prepared firstErr = (prepared, firstErr)"
| "collect_prepares ((gid, Inl e) # rest) prepared firstErr = collect_prepares rest prepared (Some ErrTxConflict)"
| "collect_prepares ((gid, Inr err) # rest) prepared firstErr =
     (if err \<noteq> ''OK'' then collect_prepares rest prepared (Some (mapPBErr err))
      else collect_prepares rest (prepared @ [gid]) firstErr)"

definition decision_request :: "string \<Rightarrow> goint list \<Rightarrow> WriteKey list \<Rightarrow> CommitTxRequest" where
  "decision_request txID gids wks =
     \<lparr> ctTxId = txID, ctWriteKeys = writeKeysToProto wks, ctDecisionOnly = True, ctParticipantGroupIds = int32Slice gids \<rparr>"

definition abort_decision_request :: "string \<Rightarrow> goint list \<Rightarrow> AbortTxRequest" where
  "abort_decision_request txID gids = \<lparr> atTxId = txID, atDecisionOnly = True, atParticipantGroupIds = int32Slice gids \<rparr>"

definition persistDecision ::
  "'w net \<Rightarrow> string \<Rightarrow> goint \<Rightarrow> goint list \<Rightarrow> TxStatus \<Rightarrow> WriteKey list \<Rightarrow> ShardRouter \<Rightarrow> 'w \<Rightarrow> ShardRouter \<times> 'w \<times> Err" where
  "persistDecision E txID gid gids decision allWriteKeys r w =
     (case (if decision = TxStatusCommitted
            then CommitTxToGroup (netClient E) (netClock E w) gid (decision_request txID gids allWriteKeys) r w
            else AbortTxToGroup (netClient E) (netClock E w) gid (abort_decision_request txID gids) r w) of
        (r1, w1, res) \<Rightarrow> (r1, w1, if res = Inr ''OK'' then OK else ErrTxTimeout))"

definition plain_abort :: "string \<Rightarrow> AbortTxRequest" where
  "plain_abort txID = \<lparr> atTxId = txID, atDecisionOnly = False, atParticipantGroupIds = [] \<rparr>"

definition plain_commit :: "string \<Rightarrow> WriteKey list \<Rightarrow> CommitTxRequest" where
  "plain_commit txID wks =
     \<lparr> ctTxId = txID, ctWriteKeys = writeKeysToProto wks, ctDecisionOnly = False, ctParticipantGroupIds = [] \<rparr>"

fun parallelAbort :: "'w net \<Rightarrow> string \<Rightarrow> goint list \<Rightarrow> ShardRouter \<Rightarrow> 'w \<Rightarrow> ShardRouter \<times> 'w" where
  "parallelAbort E txID [] r w = (r, w)"
| "parallelAbort E txID (gid # gids) r w =
     (case AbortTxToGroup (netClient E) (netClock E w) gid (plain_abort txID) r w of
        (r1, w1, _) \<Rightarrow> parallelAbort E txID gids r1 w1)"

text \<open>The attempts at one group; \<open>n\<close> of them are left.\<close>

fun commit_group ::
  "'w net \<Rightarrow> CommitTxRequest \<Rightarrow> goint \<Rightarrow> nat \<Rightarrow> ShardRouter \<Rightarrow> 'w \<Rightarrow> ShardRouter \<times> 'w \<times> Err" where
  "commit_group E req gid 0 r w = (r, w, ErrTxTimeout)"
| "commit_group E req gid (Suc n) r w =
     (case CommitTxToGroup (netClient E) (netClock E w) gid req r w of
        (r1, w1, res) \<Rightarrow>
          if res = Inr ''OK'' then (r1, w1, OK)
          else if res = Inr ''ErrTxConflict'' then (r1, w1, ErrTxConflict)
          else commit_group E req gid n r1 (pause E (txCommitMaxRetries - Suc n) w1))"

fun parallelCommit ::
  "'w net \<Rightarrow> string \<Rightarrow> goint list \<Rightarrow> (goint \<Rightarrow> WriteKey list) \<Rightarrow> ShardRouter \<Rightarrow> 'w \<Rightarrow> ShardRouter \<times> 'w \<times> Err" where
  "parallelCommit E txID [] wks r w = (r, w, OK)"
| "parallelCommit E txID (gid # gids) wks r w =
     (case commit_group E (plain_commit txID (wks gid)) gid txCommitMaxRetries r w of
        (r1, w1, e) \<Rightarrow>
          (case parallelCommit E txID gids wks r1 w1 of (r2, w2, e2) \<Rightarrow> (r2, w2, if e \<noteq> OK then e else e2)))"

text \<open>The second phase is repeated until every group has answered; \<open>None\<close> is going on for ever.\<close>

partial_function (option) retryCommitInBackground ::
  "'w net \<Rightarrow> string \<Rightarrow> goint list \<Rightarrow> (goint \<Rightarrow> WriteKey list) \<Rightarrow> nat \<Rightarrow> ShardRouter \<Rightarrow> 'w \<Rightarrow> (ShardRouter \<times> 'w) option" where
  "retryCommitInBackground E txID gids wks attempt r w =
     (case parallelCommit E txID gids wks r w of
        (r1, w1, e) \<Rightarrow>
          if e = OK then Some (r1, w1)
          else retryCommitInBackground E txID gids wks (Suc attempt) r1 (pause E attempt w1))"

text \<open>
  The result of \<open>Commit\<close> and whether the second phase has been started in the background.
\<close>

definition tx_Commit :: "'w net \<Rightarrow> TxHandle \<Rightarrow> ShardRouter \<Rightarrow> 'w \<Rightarrow> ShardRouter \<times> 'w \<times> Err \<times> bool" where
  "tx_Commit E h r w =
     (let hsh = netHash E;
          writes = map snd (thWriteSet h);
          grouped = filter (\<lambda>wk. groups_of hsh r [wkKey wk] \<noteq> []) writes;
          gids = allGroups hsh r h
      in if length grouped < length writes then (r, w, ErrWrongGroup, False)
         else if gids = [] then (r, w, OK, False)
         else case prepare_all E (prepare_request hsh r h gids) gids r w of
                (r1, w1, results) \<Rightarrow>
                  (case collect_prepares results [] None of
                     (prepared, firstErr) \<Rightarrow>
                       if length prepared < length gids
                       then (case persistDecision E (thTxID h) (hd gids) gids TxStatusAborted [] r1 w1 of
                               (r2, w2, e) \<Rightarrow>
                                 if e \<noteq> OK then (r2, w2, ErrTxTimeout, False)
                                 else case parallelAbort E (thTxID h) prepared r2 w2 of
                                        (r3, w3) \<Rightarrow> (r3, w3, (case firstErr of Some e \<Rightarrow> e | None \<Rightarrow> ErrTxConflict), False))
                       else (case persistDecision E (thTxID h) (hd gids) gids TxStatusCommitted writes r1 w1 of
                               (r2, w2, e) \<Rightarrow> if e \<noteq> OK then (r2, w2, ErrTxTimeout, False) else (r2, w2, OK, True))))"

section \<open>Recovery and rollback\<close>

definition mentions_conflict :: "route_err + TxResponse \<Rightarrow> bool" where
  "mentions_conflict res =
     (case res of
        Inr err \<Rightarrow> str_contains err ''ErrTxConflict''
      | Inl (RpcFailed e) \<Rightarrow> str_contains e ''ErrTxConflict''
      | Inl _ \<Rightarrow> False)"

fun broadcast_one ::
  "'w net \<Rightarrow> string \<Rightarrow> bool \<Rightarrow> goint \<Rightarrow> nat \<Rightarrow> ShardRouter \<Rightarrow> 'w \<Rightarrow> ShardRouter \<times> 'w \<times> bool" where
  "broadcast_one E txID commit gid 0 r w = (r, w, False)"
| "broadcast_one E txID commit gid (Suc n) r w =
     (case (if commit then CommitTxToGroup (netClient E) (netClock E w) gid (plain_commit txID []) r w
            else AbortTxToGroup (netClient E) (netClock E w) gid (plain_abort txID) r w) of
        (r1, w1, res) \<Rightarrow>
          if res = Inr ''OK'' then (r1, w1, True)
          else if mentions_conflict res then (r1, w1, False)
          else broadcast_one E txID commit gid n r1
                 (if n = 0 then w1 else pause E (txCommitMaxRetries - Suc n) w1))"

fun recoverBroadcast ::
  "'w net \<Rightarrow> string \<Rightarrow> bool \<Rightarrow> goint list \<Rightarrow> ShardRouter \<Rightarrow> 'w \<Rightarrow> ShardRouter \<times> 'w \<times> Err" where
  "recoverBroadcast E txID commit [] r w = (r, w, OK)"
| "recoverBroadcast E txID commit (gid # gids) r w =
     (case broadcast_one E txID commit gid txCommitMaxRetries r w of
        (r1, w1, ok) \<Rightarrow> if ok then recoverBroadcast E txID commit gids r1 w1 else (r1, w1, ErrTxTimeout))"

definition RecoverTransaction :: "'w net \<Rightarrow> string \<Rightarrow> goint \<Rightarrow> ShardRouter \<Rightarrow> 'w \<Rightarrow> ShardRouter \<times> 'w \<times> Err" where
  "RecoverTransaction E txID participantGroupID r w =
     (case ResolveTxStatusToGroup (netClient E) (netClock E w) participantGroupID txID r w of
        (r1, w1, Inl _) \<Rightarrow> (r1, w1, ErrTxTimeout)
      | (r1, w1, Inr participant) \<Rightarrow>
          if rtStatus participant = ''COMMITTED'' \<or> rtStatus participant = ''ABORTED''
          then let gids = intsFromInt32 (rtParticipantGroupIds participant)
               in recoverBroadcast E txID (rtStatus participant = ''COMMITTED'')
                    (if gids = [] then [participantGroupID] else gids) r1 w1
          else if rtStatus participant \<noteq> ''PREPARED'' then (r1, w1, ErrTxTimeout)
          else case ResolveTxStatusToGroup (netClient E) (netClock E w1) (scast (rtCoordinatorGroupId participant)) txID r1 w1 of
                 (r2, w2, Inl _) \<Rightarrow> (r2, w2, ErrTxTimeout)
               | (r2, w2, Inr decision) \<Rightarrow>
                   let gids0 = intsFromInt32 (rtParticipantGroupIds decision);
                       gids = (if gids0 = [] then intsFromInt32 (rtParticipantGroupIds participant) else gids0)
                   in if rtStatus decision = ''COMMITTED'' then recoverBroadcast E txID True gids r2 w2
                      else if rtStatus decision = ''ABORTED'' then recoverBroadcast E txID False gids r2 w2
                      else (r2, w2, ErrTxTimeout))"

definition tx_Rollback :: "'w net \<Rightarrow> TxHandle \<Rightarrow> ShardRouter \<Rightarrow> 'w \<Rightarrow> ShardRouter \<times> 'w" where
  "tx_Rollback E h r w =
     (let gids = sort_key sint (remdups (thGroups h @ groups_of (netHash E) r (map (rkKey \<circ> snd) (thReadSet h))))
      in if gids = [] then (r, w)
         else case persistDecision E (thTxID h) (hd gids) gids TxStatusAborted [] r w of
                (r1, w1, e) \<Rightarrow> if e = OK then parallelAbort E (thTxID h) gids r1 w1 else (r1, w1))"

end
