(* ===== verification/Bytes.thy ===== *)
theory Bytes
  imports Prelude
begin

text \<open>
  Byte strings and what the persistence code uses of \<open>encoding/binary\<close> and \<open>hash/crc32\<close>:
  little-endian numbers and the IEEE checksum.
\<close>

unbundle bit_operations_syntax

type_synonym byte = "8 word"

section \<open>Little-endian numbers\<close>

fun le_bytes :: "nat \<Rightarrow> nat \<Rightarrow> byte list" where
  "le_bytes 0 x = []"
| "le_bytes (Suc n) x = word_of_nat x # le_bytes n (x div 256)"

fun le_nat :: "byte list \<Rightarrow> nat" where
  "le_nat [] = 0"
| "le_nat (b # bs) = unat b + 256 * le_nat bs"

lemma le_bytes_length [simp]: "length (le_bytes n x) = n"
  by (induction n arbitrary: x) auto

lemma le_nat_bytes: "le_nat (le_bytes n x) = x mod 256 ^ n"
proof (induction n arbitrary: x)
  case (Suc n)
  have "unat (word_of_nat x :: byte) = x mod 256" by (simp add: unat_of_nat)
  then show ?case using Suc by (simp add: mod_mult2_eq)
qed simp

lemma le_nat_bytes_small: "x < 256 ^ n \<Longrightarrow> le_nat (le_bytes n x) = x"
  by (simp add: le_nat_bytes)

text \<open>A signed 64-bit number: the conversion of Go wraps.\<close>

definition le_int64 :: "int \<Rightarrow> byte list" where
  "le_int64 x = le_bytes 8 (unat (word_of_int x :: int64))"

definition int64_of_le :: "byte list \<Rightarrow> int" where
  "int64_of_le bs = sint (word_of_nat (le_nat bs) :: int64)"

lemma le_int64_length [simp]: "length (le_int64 x) = 8"
  by (simp add: le_int64_def)

definition fits64 :: "int \<Rightarrow> bool" where
  "fits64 x \<longleftrightarrow> - (2 ^ 63) \<le> x \<and> x < 2 ^ 63"

lemma int64_of_le_int64: "fits64 x \<Longrightarrow> int64_of_le (le_int64 x) = x"
proof -
  assume x: "fits64 x"
  have "unat (word_of_int x :: int64) < 256 ^ 8" by (rule order_less_le_trans [OF unsigned_less]) simp
  then have "int64_of_le (le_int64 x) = sint (word_of_int x :: int64)"
    by (simp add: int64_of_le_def le_int64_def le_nat_bytes_small del: le_bytes.simps)
  then show ?thesis using x by (simp add: fits64_def sint_of_int64)
qed

section \<open>The IEEE checksum\<close>

definition crc_bit :: "32 word \<Rightarrow> 32 word" where
  "crc_bit c = (if c AND 1 \<noteq> 0 then drop_bit 1 c XOR 0xEDB88320 else drop_bit 1 c)"

definition crc_byte :: "32 word \<Rightarrow> byte \<Rightarrow> 32 word" where
  "crc_byte c b = crc_bit (crc_bit (crc_bit (crc_bit (crc_bit (crc_bit (crc_bit (crc_bit (c XOR ucast b))))))))"

definition ChecksumIEEE :: "byte list \<Rightarrow> 32 word" where
  "ChecksumIEEE bs = NOT (foldl crc_byte (NOT 0) bs)"

text \<open>The checksum of the letter a.\<close>

lemma ChecksumIEEE_check: "ChecksumIEEE [97] = 0xE8B7BE43"
  by code_simp

end
