(* ===== verification/Raft_Persist.thy ===== *)
theory Raft_Persist
  imports Raft Bytes
begin

text \<open>
  The binary form of the persistent state of a node and the cache with which it is brought up to
  date (\<^verbatim>\<open>src/pkg/raft/raft.go\<close>, the persistence functions): a header of 44 bytes and the entries of the
  log one after the other. The commands are encoded by \<open>encoding/gob\<close>, a parameter; the bytes an
  entry keeps of its command are those the encoder gives. The state to be written is a request of
  the node in theory \<open>Raft\<close>.
\<close>

section \<open>Encoding\<close>

type_synonym 'c encoder = "'c \<Rightarrow> byte list option"
type_synonym 'c decoder = "byte list \<Rightarrow> 'c option"

definition persistFormatMagic :: nat where "persistFormatMagic = 0x4b565233"
definition persistHeaderSize :: nat where "persistHeaderSize = 44"
definition persistAppendPayloadMagic :: nat where "persistAppendPayloadMagic = 0x52504131"
definition persistAppendPayloadSize :: nat where "persistAppendPayloadSize = 28"

definition encodeCommandToBytes :: "'c encoder \<Rightarrow> 'c option \<Rightarrow> byte list option" where
  "encodeCommandToBytes enc command = (case command of None \<Rightarrow> Some [] | Some c \<Rightarrow> enc c)"

definition decodeCommandFromBytes :: "'c decoder \<Rightarrow> byte list \<Rightarrow> 'c option option" where
  "decodeCommandFromBytes dec bs = (if bs = [] then Some None else map_option Some (dec bs))"

definition makePersistHeader :: "byte list" where
  "makePersistHeader = le_bytes 4 persistFormatMagic @ replicate 40 0"

definition header_bytes :: "int \<Rightarrow> int \<Rightarrow> int \<Rightarrow> int \<Rightarrow> int \<Rightarrow> byte list" where
  "header_bytes currentTerm votedFor lastIncludedIndex lastIncludedTerm logCount =
     le_bytes 4 persistFormatMagic @ le_int64 currentTerm @ le_int64 votedFor @ le_int64 lastIncludedIndex
     @ le_int64 lastIncludedTerm @ le_int64 logCount"

text \<open>The fields are written over the first 44 bytes; \<open>None\<close> is the refusal of a short buffer.\<close>

definition putPersistHeaderFields :: "byte list \<Rightarrow> 'c persistent \<Rightarrow> byte list option" where
  "putPersistHeaderFields buf p =
     (if length buf < persistHeaderSize then None
      else Some (header_bytes (psTerm p) (psVote p) (psLastIncludedIndex p) (psLastIncludedTerm p) (int (length (psLog p)))
                 @ drop persistHeaderSize buf))"

definition appendInt64LE :: "byte list \<Rightarrow> int \<Rightarrow> byte list" where
  "appendInt64LE dst v = dst @ le_int64 v"

definition readInt64LE :: "byte list \<Rightarrow> nat \<Rightarrow> (int \<times> nat) option" where
  "readInt64LE src offset =
     (if offset + 8 > length src then None else Some (int64_of_le (take 8 (drop offset src)), offset + 8))"

section \<open>The cache\<close>

record persist_cache =
  pcState :: "byte list"
  pcEntryEnd :: "nat list"
  pcLogCount :: nat
  pcDirtyFrom :: nat
  pcReady :: bool
  pcPersistedLen :: int
  pcPersistedLogCount :: int
  pcQueuedLen :: int
  pcQueuedLogCount :: int

definition initPersistCacheLocked :: "persist_cache \<Rightarrow> persist_cache" where
  "initPersistCacheLocked c =
     c\<lparr> pcState := makePersistHeader, pcEntryEnd := [], pcLogCount := 0, pcDirtyFrom := 0, pcReady := True \<rparr>"

definition invalidatePersistCacheLocked :: "persist_cache \<Rightarrow> persist_cache" where
  "invalidatePersistCacheLocked c =
     c\<lparr> pcState := [], pcEntryEnd := [], pcLogCount := 0, pcDirtyFrom := 0, pcReady := False,
        pcPersistedLen := 0, pcPersistedLogCount := 0, pcQueuedLen := 0, pcQueuedLogCount := 0 \<rparr>"

definition markPersistPersistedLocked :: "int \<Rightarrow> int \<Rightarrow> persist_cache \<Rightarrow> persist_cache" where
  "markPersistPersistedLocked stateLen logCount c =
     (let s = (if stateLen < 0 then 0 else stateLen); l = (if logCount < 0 then 0 else logCount)
      in c\<lparr> pcPersistedLen := (if s > pcPersistedLen c then s else pcPersistedLen c),
            pcPersistedLogCount := (if l > pcPersistedLogCount c then l else pcPersistedLogCount c) \<rparr>)"

definition markPersistQueuedLocked :: "int \<Rightarrow> int \<Rightarrow> persist_cache \<Rightarrow> persist_cache" where
  "markPersistQueuedLocked stateLen logCount c =
     c\<lparr> pcQueuedLen := (if stateLen < 0 then 0 else stateLen), pcQueuedLogCount := (if logCount < 0 then 0 else logCount) \<rparr>"

definition markPersistDirtyFromLocked :: "nat \<Rightarrow> int \<Rightarrow> persist_cache \<Rightarrow> persist_cache" where
  "markPersistDirtyFromLocked logLen pos0 c =
     (if \<not> pcReady c then c
      else let pos = (if pos0 < 0 then 0 else if pos0 > int logLen then logLen else nat pos0)
           in c\<lparr> pcDirtyFrom := (if pcDirtyFrom c > pos then pos else pcDirtyFrom c) \<rparr>)"

definition truncatePersistToLocked :: "nat \<Rightarrow> persist_cache \<Rightarrow> persist_cache \<times> bool" where
  "truncatePersistToLocked keep c =
     (if \<not> pcReady c then (c, False)
      else if keep = 0 then (c\<lparr> pcState := take persistHeaderSize (pcState c), pcEntryEnd := [], pcLogCount := 0 \<rparr>, True)
      else if keep > length (pcEntryEnd c) then (c, False)
      else let ending = pcEntryEnd c ! (keep - 1)
           in if ending < persistHeaderSize \<or> ending > length (pcState c) then (c, False)
              else (c\<lparr> pcState := take ending (pcState c), pcEntryEnd := take keep (pcEntryEnd c), pcLogCount := keep \<rparr>, True))"

definition appendPersistEntryLocked :: "'c encoder \<Rightarrow> 'c LogEntry \<Rightarrow> persist_cache \<Rightarrow> persist_cache option" where
  "appendPersistEntryLocked enc entry c =
     (case encodeCommandToBytes enc (leCommand entry) of
        None \<Rightarrow> None
      | Some cmd \<Rightarrow>
          let s = appendInt64LE (appendInt64LE (pcState c) (leTerm entry)) (int (length cmd)) @ cmd
          in Some (c\<lparr> pcState := s, pcEntryEnd := pcEntryEnd c @ [length s], pcLogCount := pcLogCount c + 1 \<rparr>))"

fun append_entries :: "'c encoder \<Rightarrow> 'c LogEntry list \<Rightarrow> persist_cache \<Rightarrow> persist_cache option" where
  "append_entries enc [] c = Some c"
| "append_entries enc (e # es) c =
     (case appendPersistEntryLocked enc e c of None \<Rightarrow> None | Some c' \<Rightarrow> append_entries enc es c')"

text \<open>The cut of the cache before the missing entries are added; a refused cut starts it anew.\<close>

definition cut_cache :: "nat \<Rightarrow> persist_cache \<Rightarrow> persist_cache" where
  "cut_cache keep c = (case truncatePersistToLocked keep c of (c', ok) \<Rightarrow> if ok then c' else initPersistCacheLocked c')"

definition encodePersistentStateIncrementalLocked ::
  "'c encoder \<Rightarrow> 'c persistent \<Rightarrow> persist_cache \<Rightarrow> (persist_cache \<times> byte list) option" where
  "encodePersistentStateIncrementalLocked enc p c0 =
     (let n = length (psLog p);
          c1 = (if pcReady c0 then c0 else initPersistCacheLocked c0);
          c2 = (if pcDirtyFrom c1 > n then c1\<lparr> pcDirtyFrom := n \<rparr> else c1);
          c3 = (if pcLogCount c2 > n then cut_cache n c2 else c2);
          c4 = (if pcDirtyFrom c3 < pcLogCount c3 then cut_cache (pcDirtyFrom c3) c3 else c3)
      in case append_entries enc (drop (pcLogCount c4) (psLog p)) c4 of
           None \<Rightarrow> None
         | Some c5 \<Rightarrow>
             (case putPersistHeaderFields (pcState c5) p of
                None \<Rightarrow> None
              | Some s \<Rightarrow> Some (c5\<lparr> pcState := s, pcDirtyFrom := n \<rparr>, s)))"

section \<open>Requests to the disk\<close>

definition canUsePersistAppend :: "byte list \<Rightarrow> int \<Rightarrow> bool" where
  "canUsePersistAppend state prevLen \<longleftrightarrow>
     \<not> prevLen < int persistHeaderSize \<and> \<not> int (length state) < prevLen \<and> length state \<ge> persistHeaderSize"

definition buildPersistAppendPayload :: "byte list \<Rightarrow> int \<Rightarrow> byte list option" where
  "buildPersistAppendPayload state prevLen =
     (if \<not> canUsePersistAppend state prevLen then None
      else let delta = drop (nat prevLen) state
           in Some (le_bytes 4 persistAppendPayloadMagic @ le_bytes 8 (nat prevLen) @ le_bytes 8 (length state)
                    @ le_bytes 4 persistHeaderSize @ le_bytes 4 (length delta) @ take persistHeaderSize state @ delta))"

definition canPersistAppendLocked :: "bool \<Rightarrow> byte list \<Rightarrow> nat \<Rightarrow> nat \<Rightarrow> persist_cache \<Rightarrow> bool" where
  "canPersistAppendLocked hasSnapshot state dirtyFromBefore logLen c \<longleftrightarrow>
     \<not> hasSnapshot \<and> pcReady c \<and> \<not> pcQueuedLogCount c > int logLen \<and> \<not> int dirtyFromBefore < pcQueuedLogCount c
     \<and> canUsePersistAppend state (pcQueuedLen c)"

datatype 'd disk_job = AppendJob "byte list" | SaveJob "byte list" "'d option" | EncodeFailed

definition enqueuePersistLocked ::
  "'c encoder \<Rightarrow> 'c persistent \<Rightarrow> 'd option \<Rightarrow> persist_cache \<Rightarrow> persist_cache \<times> 'd disk_job" where
  "enqueuePersistLocked enc p snapshot c =
     (case encodePersistentStateIncrementalLocked enc p c of
        None \<Rightarrow> (invalidatePersistCacheLocked c, EncodeFailed)
      | Some (c1, state) \<Rightarrow>
          let c2 = markPersistQueuedLocked (int (length state)) (int (length (psLog p))) c1
          in if canPersistAppendLocked (snapshot \<noteq> None) state (pcDirtyFrom c) (length (psLog p)) c1
             then (case buildPersistAppendPayload state (pcQueuedLen c1) of
                     Some payload \<Rightarrow> (c2, AppendJob payload)
                   | None \<Rightarrow> (c2, SaveJob state snapshot))
             else (c2, SaveJob state snapshot))"

section \<open>Decoding\<close>

fun read_entries ::
  "'c decoder \<Rightarrow> byte list \<Rightarrow> nat \<Rightarrow> nat \<Rightarrow> ('c LogEntry list \<times> nat list \<times> nat) option" where
  "read_entries dec dat 0 offset = Some ([], [], offset)"
| "read_entries dec dat (Suc n) offset =
     (case readInt64LE dat offset of
        None \<Rightarrow> None
      | Some (term, o1) \<Rightarrow>
          (case readInt64LE dat o1 of
             None \<Rightarrow> None
           | Some (cmdLen, o2) \<Rightarrow>
               if cmdLen < 0 \<or> cmdLen > int (length dat) - int o2 then None
               else case decodeCommandFromBytes dec (take (nat cmdLen) (drop o2 dat)) of
                      None \<Rightarrow> None
                    | Some cmd \<Rightarrow>
                        (case read_entries dec dat n (o2 + nat cmdLen) of
                           None \<Rightarrow> None
                         | Some (es, ends, o3) \<Rightarrow>
                             Some (\<lparr> leTerm = term, leCommand = cmd \<rparr> # es, (o2 + nat cmdLen) # ends, o3))))"

definition header_field :: "nat \<Rightarrow> byte list \<Rightarrow> int" where
  "header_field off dat = int64_of_le (take 8 (drop off dat))"

definition readPersistBinary :: "'c decoder \<Rightarrow> byte list \<Rightarrow> persist_cache \<Rightarrow> ('c persistent \<times> persist_cache) option" where
  "readPersistBinary dec dat c =
     (if length dat < persistHeaderSize then None
      else if le_nat (take 4 dat) \<noteq> persistFormatMagic then None
      else
        let logCount = header_field 36 dat
        in if logCount < 0 then None
           else case read_entries dec dat (nat logCount) persistHeaderSize of
                  None \<Rightarrow> None
                | Some (es, ends, offset) \<Rightarrow>
                    if offset \<noteq> length dat then None
                    else Some (\<lparr> psTerm = header_field 4 dat, psVote = header_field 12 dat,
                                 psLastIncludedIndex = header_field 20 dat, psLastIncludedTerm = header_field 28 dat,
                                 psLog = (if es = [] then [\<lparr> leTerm = header_field 28 dat, leCommand = None \<rparr>] else es) \<rparr>,
                               if es = [] then invalidatePersistCacheLocked c
                               else \<lparr> pcState = dat, pcEntryEnd = ends, pcLogCount = length es, pcDirtyFrom = length es,
                                      pcReady = True, pcPersistedLen = int (length dat), pcPersistedLogCount = int (length es),
                                      pcQueuedLen = int (length dat), pcQueuedLogCount = int (length es) \<rparr>))"

definition readPersistState :: "'c decoder \<Rightarrow> byte list \<Rightarrow> 'c persistent \<Rightarrow> persist_cache \<Rightarrow> 'c persistent \<times> persist_cache" where
  "readPersistState dec dat p c =
     (case readPersistBinary dec dat c of Some r \<Rightarrow> r | None \<Rightarrow> (p, invalidatePersistCacheLocked c))"

section \<open>The cache holds the full encoding\<close>

definition command_bytes :: "'c encoder \<Rightarrow> 'c LogEntry \<Rightarrow> byte list" where
  "command_bytes enc e = (case encodeCommandToBytes enc (leCommand e) of None \<Rightarrow> [] | Some bs \<Rightarrow> bs)"

definition entry_bytes :: "'c encoder \<Rightarrow> 'c LogEntry \<Rightarrow> byte list" where
  "entry_bytes enc e = le_int64 (leTerm e) @ le_int64 (int (length (command_bytes enc e))) @ command_bytes enc e"

definition log_bytes :: "'c encoder \<Rightarrow> 'c LogEntry list \<Rightarrow> byte list" where
  "log_bytes enc es = concat (map (entry_bytes enc) es)"

definition encodable :: "'c encoder \<Rightarrow> 'c LogEntry list \<Rightarrow> bool" where
  "encodable enc es \<longleftrightarrow> (\<forall>e \<in> set es. encodeCommandToBytes enc (leCommand e) \<noteq> None)"

text \<open>The encoding from scratch.\<close>

definition encode_full :: "'c encoder \<Rightarrow> 'c persistent \<Rightarrow> byte list" where
  "encode_full enc p =
     header_bytes (psTerm p) (psVote p) (psLastIncludedIndex p) (psLastIncludedTerm p) (int (length (psLog p)))
     @ log_bytes enc (psLog p)"

definition entry_ends :: "'c encoder \<Rightarrow> 'c LogEntry list \<Rightarrow> nat list" where
  "entry_ends enc es = map (\<lambda>i. persistHeaderSize + length (log_bytes enc (take (Suc i) es))) [0..<length es]"

lemma header_length [simp]: "length (header_bytes t v i u n) = persistHeaderSize"
  by (simp add: header_bytes_def persistHeaderSize_def)

lemma log_bytes_simps [simp]:
  "log_bytes enc [] = []"
  "log_bytes enc (es @ fs) = log_bytes enc es @ log_bytes enc fs"
  "log_bytes enc (e # es) = entry_bytes enc e @ log_bytes enc es"
  by (simp_all add: log_bytes_def)

lemma entry_ends_snoc: "entry_ends enc (es @ [e]) = entry_ends enc es @ [persistHeaderSize + length (log_bytes enc (es @ [e]))]"
  by (simp add: entry_ends_def)

lemma entry_ends_take: "entry_ends enc (take k es) = take k (entry_ends enc es)"
proof (rule nth_equalityI)
  fix i
  assume "i < length (entry_ends enc (take k es))"
  then have "i < k" "i < length es" by (simp_all add: entry_ends_def)
  then show "entry_ends enc (take k es) ! i = take k (entry_ends enc es) ! i" by (simp add: entry_ends_def min_absorb1)
qed (simp add: entry_ends_def)

lemma entry_ends_nth:
  "0 < k \<Longrightarrow> k \<le> length es \<Longrightarrow> entry_ends enc es ! (k - 1) = persistHeaderSize + length (log_bytes enc (take k es))"
  by (cases k) (simp_all add: entry_ends_def)

lemma log_bytes_take: "log_bytes enc es = log_bytes enc (take k es) @ log_bytes enc (drop k es)"
  by (metis append_take_drop_id log_bytes_simps(2))

lemma log_bytes_length: "length es \<le> length (log_bytes enc es)"
  by (induction es) (simp_all add: entry_bytes_def)

text \<open>The cache holds a header and the bytes of the entries \<open>es\<close>.\<close>

definition cache_of :: "'c encoder \<Rightarrow> 'c LogEntry list \<Rightarrow> persist_cache \<Rightarrow> bool" where
  "cache_of enc es c \<longleftrightarrow>
     pcReady c \<and> encodable enc es \<and> pcLogCount c = length es \<and> pcEntryEnd c = entry_ends enc es
     \<and> length (pcState c) = persistHeaderSize + length (log_bytes enc es)
     \<and> drop persistHeaderSize (pcState c) = log_bytes enc es"

lemma cache_of_init: "cache_of enc [] (initPersistCacheLocked c)"
  by (simp add: cache_of_def initPersistCacheLocked_def makePersistHeader_def encodable_def entry_ends_def persistHeaderSize_def)

lemma cut_cache_of:
  assumes c: "cache_of enc es c" and k: "k \<le> length es"
  shows "cache_of enc (take k es) (cut_cache k c)" "pcDirtyFrom (cut_cache k c) = pcDirtyFrom c"
    "pcQueuedLen (cut_cache k c) = pcQueuedLen c" "pcQueuedLogCount (cut_cache k c) = pcQueuedLogCount c"
proof -
  have "cache_of enc (take k es) (cut_cache k c) \<and> pcDirtyFrom (cut_cache k c) = pcDirtyFrom c
    \<and> pcQueuedLen (cut_cache k c) = pcQueuedLen c \<and> pcQueuedLogCount (cut_cache k c) = pcQueuedLogCount c"
  proof (cases "k = 0")
    case True
    then show ?thesis
      using c by (simp add: cut_cache_def truncatePersistToLocked_def cache_of_def encodable_def entry_ends_def)
  next
    case False
    let ?ending = "persistHeaderSize + length (log_bytes enc (take k es))"
    have st: "length (pcState c) = persistHeaderSize + length (log_bytes enc es)" "drop persistHeaderSize (pcState c) = log_bytes enc es"
      "pcEntryEnd c = entry_ends enc es" "pcReady c"
      using c by (simp_all add: cache_of_def)
    have le: "?ending \<le> length (pcState c)"
      using st(1) log_bytes_take [of enc es k] by (metis add_left_mono le_add1 length_append)
    have ending: "pcEntryEnd c ! (k - 1) = ?ending" using entry_ends_nth [of k es enc] False k st(3) by simp
    have "length (pcEntryEnd c) = length es" using st(3) by (simp add: entry_ends_def)
    then have eq: "truncatePersistToLocked k c
        = (c\<lparr> pcState := take ?ending (pcState c), pcEntryEnd := take k (pcEntryEnd c), pcLogCount := k \<rparr>, True)"
      using False k ending le st(4) by (simp add: truncatePersistToLocked_def Let_def)
    have "drop persistHeaderSize (take ?ending (pcState c)) = take (length (log_bytes enc (take k es))) (log_bytes enc es)"
      using st(2) by (simp add: drop_take)
    also have "\<dots> = log_bytes enc (take k es)" using log_bytes_take [of enc es k] by (metis append_eq_conv_conj)
    finally show ?thesis
      using eq c k le st(3) by (auto simp: cut_cache_def cache_of_def encodable_def entry_ends_take min_def dest: in_set_takeD)
  qed
  then show "cache_of enc (take k es) (cut_cache k c)" "pcDirtyFrom (cut_cache k c) = pcDirtyFrom c"
    "pcQueuedLen (cut_cache k c) = pcQueuedLen c" "pcQueuedLogCount (cut_cache k c) = pcQueuedLogCount c" by blast+
qed

lemma append_entry_of:
  assumes "cache_of enc es c" "encodeCommandToBytes enc (leCommand e) \<noteq> None"
  shows "\<exists>c'. appendPersistEntryLocked enc e c = Some c' \<and> cache_of enc (es @ [e]) c' \<and> pcDirtyFrom c' = pcDirtyFrom c
    \<and> pcQueuedLen c' = pcQueuedLen c \<and> pcQueuedLogCount c' = pcQueuedLogCount c"
proof -
  obtain bs where bs: "encodeCommandToBytes enc (leCommand e) = Some bs" using assms(2) by auto
  then have "entry_bytes enc e = le_int64 (leTerm e) @ le_int64 (int (length bs)) @ bs"
    by (simp add: entry_bytes_def command_bytes_def)
  then show ?thesis
    using assms bs
    by (auto simp: appendPersistEntryLocked_def appendInt64LE_def cache_of_def encodable_def entry_ends_snoc Let_def)
qed

lemma append_entries_of:
  assumes "cache_of enc es c" "encodable enc fs"
  shows "\<exists>c'. append_entries enc fs c = Some c' \<and> cache_of enc (es @ fs) c' \<and> pcDirtyFrom c' = pcDirtyFrom c
    \<and> pcQueuedLen c' = pcQueuedLen c \<and> pcQueuedLogCount c' = pcQueuedLogCount c"
  using assms
proof (induction fs arbitrary: es c)
  case (Cons f fs)
  have "encodeCommandToBytes enc (leCommand f) \<noteq> None" "encodable enc fs" using Cons.prems(2) by (simp_all add: encodable_def)
  then obtain c1 where c1: "appendPersistEntryLocked enc f c = Some c1" "cache_of enc (es @ [f]) c1" "pcDirtyFrom c1 = pcDirtyFrom c"
    "pcQueuedLen c1 = pcQueuedLen c" "pcQueuedLogCount c1 = pcQueuedLogCount c"
    using append_entry_of [OF Cons.prems(1)] by blast
  from Cons.IH [OF c1(2) \<open>encodable enc fs\<close>] c1 show ?case by auto
qed simp

text \<open>
  The entries of the cache below the mark are those of the log: what a change of the log leaves
  untouched, given that it moves the mark.
\<close>

definition cache_inv :: "'c encoder \<Rightarrow> 'c persistent \<Rightarrow> persist_cache \<Rightarrow> bool" where
  "cache_inv enc p c \<longleftrightarrow> (pcReady c \<longrightarrow>
     (\<exists>old. cache_of enc old c \<and> min (pcDirtyFrom c) (length old) \<le> length (psLog p)
        \<and> take (min (pcDirtyFrom c) (length old)) old = take (min (pcDirtyFrom c) (length old)) (psLog p)))"

lemma encode_incremental:
  assumes inv: "cache_inv enc p c" and enc: "encodable enc (psLog p)"
  shows "\<exists>c'. encodePersistentStateIncrementalLocked enc p c = Some (c', encode_full enc p) \<and> cache_of enc (psLog p) c'
    \<and> pcDirtyFrom c' = length (psLog p) \<and> pcState c' = encode_full enc p
    \<and> pcQueuedLen c' = pcQueuedLen c \<and> pcQueuedLogCount c' = pcQueuedLogCount c"
proof -
  let ?n = "length (psLog p)"
  define c1 where "c1 = (if pcReady c then c else initPersistCacheLocked c)"
  define c2 where "c2 = (if pcDirtyFrom c1 > ?n then c1\<lparr> pcDirtyFrom := ?n \<rparr> else c1)"
  define c3 where "c3 = (if pcLogCount c2 > ?n then cut_cache ?n c2 else c2)"
  define c4 where "c4 = (if pcDirtyFrom c3 < pcLogCount c3 then cut_cache (pcDirtyFrom c3) c3 else c3)"
  have "\<exists>old. cache_of enc old c1 \<and> take (min (pcDirtyFrom c1) (length old)) old = take (min (pcDirtyFrom c1) (length old)) (psLog p)
      \<and> min (pcDirtyFrom c1) (length old) \<le> ?n"
  proof (cases "pcReady c")
    case True
    then show ?thesis using inv by (auto simp: cache_inv_def c1_def)
  next
    case False
    then show ?thesis using cache_of_init [of enc c] by (intro exI [of _ "[]"]) (simp add: c1_def)
  qed
  then obtain old where old: "cache_of enc old c1" "min (pcDirtyFrom c1) (length old) \<le> ?n"
    "take (min (pcDirtyFrom c1) (length old)) old = take (min (pcDirtyFrom c1) (length old)) (psLog p)" by blast
  have q1: "pcQueuedLen c1 = pcQueuedLen c" "pcQueuedLogCount c1 = pcQueuedLogCount c"
    by (simp_all add: c1_def initPersistCacheLocked_def)
  let ?d = "min (pcDirtyFrom c1) ?n"
  have c2: "cache_of enc old c2" "pcDirtyFrom c2 = ?d" "pcQueuedLen c2 = pcQueuedLen c" "pcQueuedLogCount c2 = pcQueuedLogCount c"
    using old(1) q1 by (auto simp: c2_def cache_of_def)
  let ?old3 = "take ?n old"
  have c3: "cache_of enc ?old3 c3" "pcDirtyFrom c3 = ?d" "pcQueuedLen c3 = pcQueuedLen c" "pcQueuedLogCount c3 = pcQueuedLogCount c"
    using c2 cut_cache_of [OF c2(1), of ?n] by (auto simp: c3_def cache_of_def)
  let ?k = "min ?d (length old)"
  have c4: "cache_of enc (take ?k old) c4" "pcQueuedLen c4 = pcQueuedLen c" "pcQueuedLogCount c4 = pcQueuedLogCount c"
  proof -
    have len: "pcLogCount c3 = min ?n (length old)" using c3(1) by (simp add: cache_of_def min.commute)
    have "cache_of enc (take ?k old) c4 \<and> pcQueuedLen c4 = pcQueuedLen c \<and> pcQueuedLogCount c4 = pcQueuedLogCount c"
    proof (cases "pcDirtyFrom c3 < pcLogCount c3")
      case True
      then have "?d \<le> length ?old3" using c3(2) len by simp
      moreover have "take ?d ?old3 = take ?k old" using True c3(2) len by (simp add: min_def)
      ultimately show ?thesis
        using True cut_cache_of [OF c3(1), of ?d] c3 by (simp add: c4_def)
    next
      case False
      then have "?k = min ?n (length old)" using c3(2) len by (simp add: min_def split: if_splits)
      then have "take ?k old = ?old3" by (simp add: min_def)
      with False show ?thesis using c3 by (simp add: c4_def)
    qed
    then show "cache_of enc (take ?k old) c4" "pcQueuedLen c4 = pcQueuedLen c" "pcQueuedLogCount c4 = pcQueuedLogCount c" by blast+
  qed
  have k: "take ?k old = take ?k (psLog p)" "?k \<le> ?n"
  proof -
    have km: "?k \<le> min (pcDirtyFrom c1) (length old)" by simp
    show "take ?k old = take ?k (psLog p)" using arg_cong [OF old(3), of "take ?k"] km by (simp add: min_absorb1 take_take)
    show "?k \<le> ?n" by simp
  qed
  have cnt: "pcLogCount c4 = ?k" using c4(1) k by (simp add: cache_of_def)
  have "encodable enc (drop ?k (psLog p))" using enc by (auto simp: encodable_def dest: in_set_dropD)
  then obtain c5 where c5: "append_entries enc (drop ?k (psLog p)) c4 = Some c5" "cache_of enc (psLog p) c5"
    "pcQueuedLen c5 = pcQueuedLen c" "pcQueuedLogCount c5 = pcQueuedLogCount c"
    using append_entries_of [OF c4(1)] c4(2,3) k(1) by (metis append_take_drop_id)
  have put: "putPersistHeaderFields (pcState c5) p = Some (encode_full enc p)"
    using c5(2) by (simp add: putPersistHeaderFields_def encode_full_def cache_of_def)
  have "encodePersistentStateIncrementalLocked enc p c
      = (case append_entries enc (drop (pcLogCount c4) (psLog p)) c4 of
           None \<Rightarrow> None
         | Some c5 \<Rightarrow>
             (case putPersistHeaderFields (pcState c5) p of
                None \<Rightarrow> None | Some s \<Rightarrow> Some (c5\<lparr> pcState := s, pcDirtyFrom := ?n \<rparr>, s)))"
    unfolding encodePersistentStateIncrementalLocked_def Let_def c4_def c3_def c2_def c1_def by (rule refl)
  then have "encodePersistentStateIncrementalLocked enc p c
      = Some (c5\<lparr> pcState := encode_full enc p, pcDirtyFrom := ?n \<rparr>, encode_full enc p)"
    using c5(1) cnt put by simp
  moreover have "cache_of enc (psLog p) (c5\<lparr> pcState := encode_full enc p, pcDirtyFrom := ?n \<rparr>)"
    using c5(2) by (simp add: cache_of_def encode_full_def)
  ultimately show ?thesis using c5(3,4) by simp
qed

section \<open>Reading back\<close>

text \<open>
  What the code relies on of \<open>encoding/gob\<close>: a command that was encoded is decoded as it was, and
  its bytes are not empty.
\<close>

lemma upt_Suc_shift: "map f [Suc 0..<Suc n] = map (\<lambda>i. f (Suc i)) [0..<n]"
  by (simp add: map_Suc_upt [symmetric] comp_def del: upt_Suc)

locale command_codec =
  fixes enc :: "'c encoder" and dec :: "'c decoder"
  assumes dec_enc: "enc c = Some bs \<Longrightarrow> dec bs = Some c \<and> bs \<noteq> []"
begin

lemma decode_command: "encodeCommandToBytes enc c = Some bs \<Longrightarrow> decodeCommandFromBytes dec bs = Some c"
  using dec_enc by (auto simp: encodeCommandToBytes_def decodeCommandFromBytes_def split: option.splits)

lemma readInt64LE_at: "fits64 x \<Longrightarrow> readInt64LE (before @ le_int64 x @ after) (length before) = Some (x, length before + 8)"
  by (simp add: readInt64LE_def int64_of_le_int64)

lemma read_entries_at:
  assumes "encodable enc es" "\<forall>e \<in> set es. fits64 (leTerm e)" "length (before @ log_bytes enc es) < 2 ^ 63"
  shows "\<exists>ends. read_entries dec (before @ log_bytes enc es) (length es) (length before)
    = Some (es, ends, length (before @ log_bytes enc es)) \<and> ends = map (\<lambda>i. length before + length (log_bytes enc (take (Suc i) es))) [0..<length es]"
  using assms
proof (induction es arbitrary: before)
  case (Cons e es)
  obtain bs where bs: "encodeCommandToBytes enc (leCommand e) = Some bs" using Cons.prems(1) by (auto simp: encodable_def)
  then have eb: "entry_bytes enc e = le_int64 (leTerm e) @ le_int64 (int (length bs)) @ bs"
    by (simp add: entry_bytes_def command_bytes_def)
  let ?rest = "log_bytes enc es"
  let ?dat = "before @ le_int64 (leTerm e) @ le_int64 (int (length bs)) @ bs @ ?rest"
  let ?o2 = "length before + 16"
  have dat: "before @ log_bytes enc (e # es) = ?dat" by (simp add: eb)
  have fits: "fits64 (leTerm e)" "fits64 (int (length bs))"
  proof -
    show "fits64 (leTerm e)" using Cons.prems(2) by simp
    have "length bs < 2 ^ 63" using Cons.prems(3) by (simp add: eb)
    then show "fits64 (int (length bs))" by (simp add: fits64_def)
  qed
  have r1: "readInt64LE ?dat (length before) = Some (leTerm e, length before + 8)"
    using readInt64LE_at [OF fits(1), of before] by simp
  have r2: "readInt64LE ?dat (length before + 8) = Some (int (length bs), ?o2)"
    using readInt64LE_at [OF fits(2), of "before @ le_int64 (leTerm e)"] by simp
  have cmd: "take (length bs) (drop ?o2 ?dat) = bs" by simp
  have next': "before @ le_int64 (leTerm e) @ le_int64 (int (length bs)) @ bs @ ?rest = (before @ entry_bytes enc e) @ ?rest"
    by (simp add: eb)
  have "length ((before @ entry_bytes enc e) @ ?rest) < 2 ^ 63" using Cons.prems(3) by simp
  then obtain ends where ends: "read_entries dec ?dat (length es) (?o2 + length bs)
      = Some (es, ends, length ?dat)" "ends = map (\<lambda>i. length (before @ entry_bytes enc e) + length (log_bytes enc (take (Suc i) es))) [0..<length es]"
    using Cons.IH [of "before @ entry_bytes enc e"] Cons.prems(1,2) unfolding next'
    by (simp add: encodable_def eb add.assoc)
  have "read_entries dec ?dat (length (e # es)) (length before) = Some (e # es, (?o2 + length bs) # ends, length ?dat)"
    using r1 r2 cmd ends(1) decode_command [OF bs] by (simp add: Let_def)
  moreover have "(?o2 + length bs) # ends
      = map (\<lambda>i. length before + length (log_bytes enc (take (Suc i) (e # es)))) [0..<length (e # es)]"
  proof -
    have "[0..<length (e # es)] = 0 # [Suc 0..<Suc (length es)]" by (simp add: upt_conv_Cons del: upt_Suc)
    then show ?thesis by (simp add: ends(2) eb upt_Suc_shift add.assoc del: upt_Suc)
  qed
  ultimately show ?case using dat by metis
qed simp

lemma read_encoded:
  assumes "encodable enc (psLog p)" "psLog p \<noteq> []" "length (encode_full enc p) < 2 ^ 63"
    "\<forall>e \<in> set (psLog p). fits64 (leTerm e)" "fits64 (psTerm p)" "fits64 (psVote p)" "fits64 (psLastIncludedIndex p)"
    "fits64 (psLastIncludedTerm p)"
  shows "\<exists>c'. readPersistBinary dec (encode_full enc p) c = Some (p, c') \<and> cache_of enc (psLog p) c'
    \<and> pcDirtyFrom c' = length (psLog p) \<and> pcState c' = encode_full enc p
    \<and> pcQueuedLen c' = int (length (encode_full enc p)) \<and> pcQueuedLogCount c' = int (length (psLog p))"
proof -
  let ?h = "header_bytes (psTerm p) (psVote p) (psLastIncludedIndex p) (psLastIncludedTerm p) (int (length (psLog p)))"
  let ?dat = "encode_full enc p"
  have n: "fits64 (int (length (psLog p)))" using assms(3) log_bytes_length [of "psLog p" enc] by (simp add: fits64_def encode_full_def)
  have fields: "header_field 4 ?dat = psTerm p" "header_field 12 ?dat = psVote p" "header_field 20 ?dat = psLastIncludedIndex p"
    "header_field 28 ?dat = psLastIncludedTerm p" "header_field 36 ?dat = int (length (psLog p))"
    using assms(5-8) n by (simp_all add: header_field_def encode_full_def header_bytes_def int64_of_le_int64)
  have magic: "le_nat (take 4 ?dat) = persistFormatMagic"
    by (simp add: encode_full_def header_bytes_def le_nat_bytes persistFormatMagic_def del: le_bytes.simps)
  obtain ends where ends: "read_entries dec (?h @ log_bytes enc (psLog p)) (length (psLog p)) (length ?h)
      = Some (psLog p, ends, length ?dat)" "ends = entry_ends enc (psLog p)"
    using read_entries_at [OF assms(1,4), of ?h] assms(3) by (auto simp: encode_full_def entry_ends_def)
  have pe: "\<lparr> psTerm = psTerm p, psVote = psVote p, psLastIncludedIndex = psLastIncludedIndex p,
      psLastIncludedTerm = psLastIncludedTerm p, psLog = psLog p \<rparr> = p" by (cases p) simp
  have "readPersistBinary dec ?dat c = Some (p, \<lparr> pcState = ?dat, pcEntryEnd = ends, pcLogCount = length (psLog p),
      pcDirtyFrom = length (psLog p), pcReady = True, pcPersistedLen = int (length ?dat),
      pcPersistedLogCount = int (length (psLog p)), pcQueuedLen = int (length ?dat), pcQueuedLogCount = int (length (psLog p)) \<rparr>)"
    using fields magic ends(1) assms(2) pe unfolding readPersistBinary_def
    by (simp add: Let_def encode_full_def)
  then show ?thesis using ends(2) assms(1) by (simp add: cache_of_def encode_full_def)
qed

end

end
