(* ===== verification/Persister.thy ===== *)
theory Persister
  imports Bytes Decimal Go_Strings
begin

text \<open>
  The disk side of the Raft state (\<^verbatim>\<open>src/pkg/persister/file.go\<close>): generations of a base file with a file
  of frames appended to it, a manifest that names the current generation, and a worker that takes
  requests from three channels and commits them in batches. The directory is an association list
  from names to contents. A durable write replaces its file or does nothing, with an error in
  between when only the sync of the directory fails; an append may stop short. These outcomes are
  parameters. The counters of the performance snapshot and the temporary files are left out.
\<close>

section \<open>Frames\<close>

definition appendFrameMagic :: nat where "appendFrameMagic = 0x52414644"
definition appendFrameHeaderSize :: nat where "appendFrameHeaderSize = 16"
definition raftAppendPayloadMagic :: nat where "raftAppendPayloadMagic = 0x52504131"
definition raftAppendPayloadHeaderSize :: nat where "raftAppendPayloadHeaderSize = 28"

definition buildAppendFrame :: "byte list \<Rightarrow> byte list" where
  "buildAppendFrame payload =
     le_bytes 4 appendFrameMagic @ le_bytes 4 (length payload) @ le_bytes 4 (unat (ChecksumIEEE payload)) @ le_bytes 4 0 @ payload"

definition le_field :: "nat \<Rightarrow> nat \<Rightarrow> byte list \<Rightarrow> nat" where
  "le_field off n bs = le_nat (take n (drop off bs))"

text \<open>The lengths of eight bytes are converted to \<open>int\<close>, which may make them negative.\<close>

definition applyRaftAppendPayload :: "byte list \<Rightarrow> byte list \<Rightarrow> byte list \<times> bool" where
  "applyRaftAppendPayload state payload =
     (if length payload < raftAppendPayloadHeaderSize then (state, False)
      else if le_field 0 4 payload \<noteq> raftAppendPayloadMagic then (state, False)
      else
        let prevLen = sint (word_of_nat (le_field 4 8 payload) :: int64);
            newLen = sint (word_of_nat (le_field 12 8 payload) :: int64);
            headerLen = le_field 20 4 payload;
            deltaLen = le_field 24 4 payload
        in if prevLen \<noteq> int (length state) then (state, False)
           else if headerLen = 0 \<or> int headerLen > prevLen then (state, False)
           else if raftAppendPayloadHeaderSize + headerLen + deltaLen \<noteq> length payload then (state, False)
           else if newLen \<noteq> prevLen + int deltaLen then (state, False)
           else
             let headerPatch = take headerLen (drop raftAppendPayloadHeaderSize payload);
                 delta = drop (raftAppendPayloadHeaderSize + headerLen) payload;
                 patched = headerPatch @ drop headerLen state
             in if deltaLen = 0 then (patched, True)
                else (patched @ delta, int (length (patched @ delta)) = newLen))"

text \<open>The loop works on what is left of the file; the result has the number of bytes it accepted.\<close>

function replay_frames :: "byte list \<Rightarrow> byte list \<Rightarrow> nat \<Rightarrow> byte list \<times> nat" where
  "replay_frames state rest offset =
     (if length rest < appendFrameHeaderSize then (state, offset)
      else if le_field 0 4 rest \<noteq> appendFrameMagic then (state, offset)
      else
        let payloadLen = le_field 4 4 rest; expectedCRC = le_field 8 4 rest
        in if length rest < appendFrameHeaderSize + payloadLen then (state, offset)
           else
             let payload = take payloadLen (drop appendFrameHeaderSize rest)
             in if unat (ChecksumIEEE payload) \<noteq> expectedCRC then (state, offset)
                else (case applyRaftAppendPayload state payload of
                        (nextState, ok) \<Rightarrow>
                          if \<not> ok then (state, offset)
                          else replay_frames nextState (drop (appendFrameHeaderSize + payloadLen) rest)
                                 (offset + appendFrameHeaderSize + payloadLen)))"
  by pat_completeness auto
termination
  by (relation "measure (\<lambda>(_, rest, _). length rest)") (auto simp: appendFrameHeaderSize_def)

declare replay_frames.simps [simp del]

definition replayDeltaFrames :: "byte list \<Rightarrow> byte list \<Rightarrow> byte list \<times> nat" where
  "replayDeltaFrames base delta = replay_frames base delta 0"

section \<open>The directory and the manifest\<close>

datatype contents = Data "byte list" | Doc json

type_synonym dir = "(string \<times> contents) list"

record persisterManifest =
  pmGeneration :: uint64
  pmRaftStateRel :: string
  pmRaftDeltaRel :: string
  pmSnapshotRel :: string
  pmUpdatedAt :: int64

definition no_manifest :: persisterManifest where
  "no_manifest = \<lparr> pmGeneration = 0, pmRaftStateRel = [], pmRaftDeltaRel = [], pmSnapshotRel = [], pmUpdatedAt = 0 \<rparr>"

definition marshal_manifest :: "persisterManifest \<Rightarrow> json" where
  "marshal_manifest pm =
     JObj ([(''generation'', enc_uint64 (pmGeneration pm)), (''raft_state_rel'', JStr (pmRaftStateRel pm))]
           @ (if pmRaftDeltaRel pm = [] then [] else [(''raft_delta_rel'', JStr (pmRaftDeltaRel pm))])
           @ [(''snapshot_rel'', JStr (pmSnapshotRel pm)), (''updated_at'', enc_int64 (pmUpdatedAt pm))])"

definition unmarshal_manifest :: "json \<Rightarrow> persisterManifest option" where
  "unmarshal_manifest j =
     (case dec_obj j of
        None \<Rightarrow> None
      | Some fs \<Rightarrow>
          (case (dec_uint64 (jfield ''generation'' fs), dec_str (jfield ''raft_state_rel'' fs),
                 dec_str (jfield ''raft_delta_rel'' fs), dec_str (jfield ''snapshot_rel'' fs),
                 dec_int64 (jfield ''updated_at'' fs)) of
             (Some g, Some rs, Some rd, Some sn, Some u) \<Rightarrow>
               Some \<lparr> pmGeneration = g, pmRaftStateRel = rs, pmRaftDeltaRel = rd, pmSnapshotRel = sn, pmUpdatedAt = u \<rparr>
           | _ \<Rightarrow> None))"

definition manifestFileName :: string where "manifestFileName = ''manifest.json''"
definition raftStateFile :: string where "raftStateFile = ''raft-state.bin''"
definition hardStateFile :: string where "hardStateFile = ''hard-state.bin''"
definition snapshotFile :: string where "snapshotFile = ''snapshot.bin''"

text \<open>\<open>os.ReadFile\<close> with its error dropped.\<close>

definition read_file :: "dir \<Rightarrow> string \<Rightarrow> byte list" where
  "read_file fs path = (case map_of fs path of Some (Data bs) \<Rightarrow> bs | _ \<Rightarrow> [])"

text \<open>The verb \<open>%020d\<close>.\<close>

definition gen_digits :: "uint64 \<Rightarrow> string" where
  "gen_digits gen = (let ds = nat_digits (unat gen) in replicate (20 - length ds) (CHR ''0'') @ ds)"

definition raft_rel :: "uint64 \<Rightarrow> string" where
  "raft_rel gen = ''raft-state.'' @ gen_digits gen @ ''.bin''"

definition defaultDeltaRel :: "uint64 \<Rightarrow> string" where
  "defaultDeltaRel gen = ''raft-state.delta.'' @ gen_digits gen @ ''.wal''"

definition snapshot_rel :: "uint64 \<Rightarrow> string" where
  "snapshot_rel gen = ''snapshot.'' @ gen_digits gen @ ''.bin''"

definition currentRaftStatePathLocked :: "persisterManifest \<Rightarrow> string" where
  "currentRaftStatePathLocked pm = (if pmRaftStateRel pm \<noteq> [] then pmRaftStateRel pm else raftStateFile)"

definition currentRaftDeltaPathLocked :: "persisterManifest \<Rightarrow> string" where
  "currentRaftDeltaPathLocked pm =
     (if pmRaftDeltaRel pm \<noteq> [] then pmRaftDeltaRel pm
      else if pmGeneration pm > 0 then defaultDeltaRel (pmGeneration pm) else [])"

definition currentSnapshotPathLocked :: "persisterManifest \<Rightarrow> string" where
  "currentSnapshotPathLocked pm = (if pmSnapshotRel pm \<noteq> [] then pmSnapshotRel pm else snapshotFile)"

definition composeRaftState :: "dir \<Rightarrow> string \<Rightarrow> string \<Rightarrow> byte list \<times> nat" where
  "composeRaftState fs basePath deltaPath =
     (let base = read_file fs basePath
      in if deltaPath = [] then (base, 0)
         else let delta = read_file fs deltaPath
              in if delta = [] then (base, 0) else replayDeltaFrames base delta)"

definition ReadRaftState :: "dir \<Rightarrow> persisterManifest \<Rightarrow> byte list" where
  "ReadRaftState fs pm = fst (composeRaftState fs (currentRaftStatePathLocked pm) (currentRaftDeltaPathLocked pm))"

definition ReadSnapshot :: "dir \<Rightarrow> persisterManifest \<Rightarrow> byte list" where
  "ReadSnapshot fs pm = read_file fs (currentSnapshotPathLocked pm)"

definition ReadHardState :: "dir \<Rightarrow> byte list" where
  "ReadHardState fs = read_file fs hardStateFile"

definition file_size :: "dir \<Rightarrow> string \<Rightarrow> nat option" where
  "file_size fs path = (case map_of fs path of None \<Rightarrow> None | Some (Data bs) \<Rightarrow> Some (length bs) | Some (Doc _) \<Rightarrow> Some 1)"

definition RaftStateSize :: "dir \<Rightarrow> persisterManifest \<Rightarrow> nat" where
  "RaftStateSize fs pm =
     (case file_size fs (currentRaftStatePathLocked pm) of
        None \<Rightarrow> 0
      | Some n \<Rightarrow>
          n + (if currentRaftDeltaPathLocked pm = [] then 0
               else case file_size fs (currentRaftDeltaPathLocked pm) of None \<Rightarrow> 0 | Some d \<Rightarrow> d))"

section \<open>Writing\<close>

datatype write_outcome = Written | NotWritten | DirNotSynced

definition durableWrite :: "write_outcome \<Rightarrow> string \<Rightarrow> contents \<Rightarrow> dir \<Rightarrow> dir \<times> bool" where
  "durableWrite out path content fs =
     (case out of
        Written \<Rightarrow> (AList.update path content fs, True)
      | NotWritten \<Rightarrow> (fs, False)
      | DirNotSynced \<Rightarrow> (AList.update path content fs, False))"

text \<open>Writes one after the other up to the first error; \<open>outs n\<close> is the outcome of the \<open>n\<close>-th.\<close>

fun durable_writes :: "(nat \<Rightarrow> write_outcome) \<Rightarrow> nat \<Rightarrow> (string \<times> contents) list \<Rightarrow> dir \<Rightarrow> dir \<times> bool" where
  "durable_writes outs n [] fs = (fs, True)"
| "durable_writes outs n ((path, content) # rest) fs =
     (case durableWrite (outs n) path content fs of
        (fs', ok) \<Rightarrow> if ok then durable_writes outs (Suc n) rest fs' else (fs', False))"

definition next_manifest :: "int64 \<Rightarrow> persisterManifest \<Rightarrow> bool \<Rightarrow> persisterManifest" where
  "next_manifest now pm withSnapshot =
     (let nextGen = pmGeneration pm + 1
      in \<lparr> pmGeneration = nextGen, pmRaftStateRel = raft_rel nextGen, pmRaftDeltaRel = defaultDeltaRel nextGen,
           pmSnapshotRel = (if withSnapshot \<or> pmSnapshotRel pm = [] then snapshot_rel nextGen else pmSnapshotRel pm),
           pmUpdatedAt = now \<rparr>)"

definition commitGeneration ::
  "(nat \<Rightarrow> write_outcome) \<Rightarrow> int64 \<Rightarrow> byte list \<Rightarrow> byte list option \<Rightarrow> dir \<Rightarrow> persisterManifest
   \<Rightarrow> dir \<times> persisterManifest \<times> bool" where
  "commitGeneration outs now raftstate snapshot fs pm =
     (let pm' = next_manifest now pm (snapshot \<noteq> None);
          snap = (case snapshot of
                    Some s \<Rightarrow> [(pmSnapshotRel pm', Data s)]
                  | None \<Rightarrow> if pmSnapshotRel pm = [] then [(pmSnapshotRel pm', Data [])] else []);
          writes = [(pmRaftStateRel pm', Data raftstate)] @ snap
                   @ [(pmRaftDeltaRel pm', Data []), (manifestFileName, Doc (marshal_manifest pm'))]
      in case durable_writes outs 0 writes fs of (fs', ok) \<Rightarrow> (fs', if ok then pm' else pm, ok))"

text \<open>\<open>AppendStops n\<close> is an error after \<open>n\<close> bytes, which are in the file.\<close>

datatype append_outcome = AppendDone | AppendStops nat

definition commitAppendRaftState ::
  "append_outcome \<Rightarrow> (nat \<Rightarrow> write_outcome) \<Rightarrow> int64 \<Rightarrow> nat \<Rightarrow> byte list list \<Rightarrow> dir \<Rightarrow> persisterManifest
   \<Rightarrow> dir \<times> persisterManifest \<times> bool" where
  "commitAppendRaftState app outs now compactThreshold payloads fs pm =
     (if payloads = [] then (fs, pm, True)
      else
        let deltaPath = currentRaftDeltaPathLocked pm; basePath = currentRaftStatePathLocked pm;
            frames = concat (map buildAppendFrame payloads)
        in if deltaPath = [] then (fs, pm, False)
           else case app of
                  AppendStops n \<Rightarrow> (AList.update deltaPath (Data (read_file fs deltaPath @ take n frames)) fs, pm, False)
                | AppendDone \<Rightarrow>
                    let fs1 = AList.update deltaPath (Data (read_file fs deltaPath @ frames)) fs
                    in if compactThreshold = 0 \<or> length (read_file fs1 deltaPath) < compactThreshold then (fs1, pm, True)
                       else let state = fst (composeRaftState fs1 basePath deltaPath)
                            in if state = [] then (fs1, pm, True) else commitGeneration outs now state None fs1 pm)"

definition commitHardState :: "write_outcome \<Rightarrow> byte list \<Rightarrow> dir \<Rightarrow> dir \<times> bool" where
  "commitHardState out hardstate fs = durableWrite out hardStateFile (Data hardstate) fs"

section \<open>Starting\<close>

definition has_suffix :: "string \<Rightarrow> string \<Rightarrow> bool" where
  "has_suffix sfx s \<longleftrightarrow> length sfx \<le> length s \<and> drop (length s - length sfx) s = sfx"

definition has_prefix :: "string \<Rightarrow> string \<Rightarrow> bool" where
  "has_prefix pfx s \<longleftrightarrow> take (length pfx) s = pfx"

text \<open>A name such as \<open>snapshot.bin\<close> has both, overlapping; trimming then leaves nothing to parse.\<close>

definition parseGeneration :: "string \<Rightarrow> string \<Rightarrow> string \<Rightarrow> uint64 option" where
  "parseGeneration name pfx sfx =
     (if \<not> has_prefix pfx name \<or> \<not> has_suffix sfx name then None
      else let s = drop (length pfx) name;
               digits = (if has_suffix sfx s then take (length s - length sfx) s else s)
           in if digits = [] then None
              else case parse_digits 0 digits of
                     None \<Rightarrow> None
                   | Some n \<Rightarrow> if n < 2 ^ 64 then Some (word_of_nat n) else None)"

definition files_by_gen :: "string \<Rightarrow> string \<Rightarrow> dir \<Rightarrow> (uint64 \<times> string) list" where
  "files_by_gen pfx sfx fs =
     concat (map (\<lambda>(name, _). case parseGeneration name pfx sfx of None \<Rightarrow> [] | Some gen \<Rightarrow> [(gen, name)]) fs)"

definition discoverLatestCompleteGeneration :: "int64 \<Rightarrow> dir \<Rightarrow> persisterManifest" where
  "discoverLatestCompleteGeneration now fs =
     (let raftByGen = files_by_gen ''raft-state.'' ''.bin'' fs;
          deltaByGen = files_by_gen ''raft-state.delta.'' ''.wal'' fs;
          snapByGen = files_by_gen ''snapshot.'' ''.bin'' fs;
          best = foldl max 0 (filter (\<lambda>gen. map_of snapByGen gen \<noteq> None) (map fst raftByGen))
      in if best = 0 then no_manifest
         else \<lparr> pmGeneration = best, pmRaftStateRel = the (map_of raftByGen best),
                pmRaftDeltaRel = (case map_of deltaByGen best of None \<Rightarrow> defaultDeltaRel best | Some d \<Rightarrow> d),
                pmSnapshotRel = the (map_of snapByGen best), pmUpdatedAt = now \<rparr>)"

text \<open>
  A manifest that is there and can be read is used when its files are; otherwise the directory is
  searched. An error of reading that is not the absence of the file is left out.
\<close>

definition loadManifest :: "write_outcome \<Rightarrow> int64 \<Rightarrow> dir \<Rightarrow> dir \<times> persisterManifest" where
  "loadManifest out now fs =
     (let found = discoverLatestCompleteGeneration now fs
      in case map_of fs manifestFileName of
           None \<Rightarrow> (fs, if pmGeneration found > 0 \<and> pmRaftDeltaRel found = []
                         then found\<lparr> pmRaftDeltaRel := defaultDeltaRel (pmGeneration found) \<rparr> else found)
         | Some content \<Rightarrow>
             (case (case content of Doc j \<Rightarrow> unmarshal_manifest j | Data _ \<Rightarrow> None) of
                None \<Rightarrow> (fs, found)
              | Some pm0 \<Rightarrow>
                  if pmRaftStateRel pm0 = [] \<or> pmSnapshotRel pm0 = [] then (fs, found)
                  else
                    let pm = (if pmRaftDeltaRel pm0 = [] then pm0\<lparr> pmRaftDeltaRel := defaultDeltaRel (pmGeneration pm0) \<rparr> else pm0)
                    in if map_of fs (pmRaftStateRel pm) = None \<or> map_of fs (pmSnapshotRel pm) = None then (fs, found)
                       else if map_of fs (pmRaftDeltaRel pm) = None
                       then (case durableWrite out (pmRaftDeltaRel pm) (Data []) fs of
                               (fs', ok) \<Rightarrow> (fs', if ok then pm else found))
                       else (fs, pm)))"

section \<open>The worker\<close>

record saveRequest =
  svRaftState :: "byte list"
  svSnapshot :: "byte list option"
  svId :: nat

record FilePersister =
  fpDir :: dir
  fpManifest :: persisterManifest
  fpCompact :: nat
  fpBatchSize :: nat
  fpReqCh :: "saveRequest list"
  fpHardReqCh :: "(byte list \<times> nat) list"
  fpAppendReqCh :: "(byte list \<times> nat) list"
  fpBatch :: "saveRequest list"
  fpHardBatch :: "(byte list \<times> nat) list"
  fpAppendBatch :: "(byte list \<times> nat) list"
  fpClosed :: bool
  fpAnswers :: "(nat \<times> bool) list"

definition NewFilePersister :: "write_outcome \<Rightarrow> int64 \<Rightarrow> dir \<Rightarrow> FilePersister" where
  "NewFilePersister out now fs =
     (case loadManifest out now fs of
        (fs', pm) \<Rightarrow>
          \<lparr> fpDir = fs', fpManifest = pm, fpCompact = 4 * 1024 * 1024, fpBatchSize = 64, fpReqCh = [], fpHardReqCh = [],
            fpAppendReqCh = [], fpBatch = [], fpHardBatch = [], fpAppendBatch = [], fpClosed = False, fpAnswers = [] \<rparr>)"

text \<open>\<open>None\<close>: the channel is full and the caller waits.\<close>

definition EnqueueSave :: "byte list \<Rightarrow> byte list option \<Rightarrow> nat \<Rightarrow> FilePersister \<Rightarrow> FilePersister option" where
  "EnqueueSave raftstate snapshot i fp =
     (if fpClosed fp then Some (fp\<lparr> fpAnswers := fpAnswers fp @ [(i, False)] \<rparr>)
      else if length (fpReqCh fp) \<ge> 1024 then None
      else Some (fp\<lparr> fpReqCh := fpReqCh fp @ [\<lparr> svRaftState = raftstate,
                       svSnapshot = (case snapshot of Some [] \<Rightarrow> None | _ \<Rightarrow> snapshot), svId = i \<rparr>] \<rparr>))"

definition EnqueueAppendRaftState :: "byte list \<Rightarrow> nat \<Rightarrow> FilePersister \<Rightarrow> FilePersister option" where
  "EnqueueAppendRaftState payload i fp =
     (if fpClosed fp then Some (fp\<lparr> fpAnswers := fpAnswers fp @ [(i, False)] \<rparr>)
      else if length (fpAppendReqCh fp) \<ge> 1024 then None
      else Some (fp\<lparr> fpAppendReqCh := fpAppendReqCh fp @ [(payload, i)] \<rparr>))"

definition EnqueueSaveHardState :: "byte list \<Rightarrow> nat \<Rightarrow> FilePersister \<Rightarrow> FilePersister option" where
  "EnqueueSaveHardState hardstate i fp =
     (if fpClosed fp then Some (fp\<lparr> fpAnswers := fpAnswers fp @ [(i, False)] \<rparr>)
      else if length (fpHardReqCh fp) \<ge> 1024 then None
      else Some (fp\<lparr> fpHardReqCh := fpHardReqCh fp @ [(hardstate, i)] \<rparr>))"

text \<open>The outcomes of the writes of one flush.\<close>

record flush_io =
  ioHard :: write_outcome
  ioSave :: "nat \<Rightarrow> write_outcome"
  ioAppend :: append_outcome
  ioCompact :: "nat \<Rightarrow> write_outcome"
  ioNow :: int64

definition flush_hard :: "flush_io \<Rightarrow> FilePersister \<Rightarrow> FilePersister" where
  "flush_hard io fp =
     (if fpHardBatch fp = [] then fp
      else case commitHardState (ioHard io) (fst (last (fpHardBatch fp))) (fpDir fp) of
             (fs, ok) \<Rightarrow> fp\<lparr> fpDir := fs, fpAnswers := fpAnswers fp @ map (\<lambda>(_, i). (i, ok)) (fpHardBatch fp), fpHardBatch := [] \<rparr>)"

definition flush_save :: "flush_io \<Rightarrow> FilePersister \<Rightarrow> FilePersister" where
  "flush_save io fp =
     (if fpBatch fp = [] then fp
      else case commitGeneration (ioSave io) (ioNow io) (svRaftState (last (fpBatch fp))) (svSnapshot (last (fpBatch fp)))
                  (fpDir fp) (fpManifest fp) of
             (fs, pm, ok) \<Rightarrow> fp\<lparr> fpDir := fs, fpManifest := pm,
                                fpAnswers := fpAnswers fp @ map (\<lambda>s. (svId s, ok)) (fpBatch fp), fpBatch := [] \<rparr>)"

definition flush_append :: "flush_io \<Rightarrow> FilePersister \<Rightarrow> FilePersister" where
  "flush_append io fp =
     (if fpAppendBatch fp = [] then fp
      else case commitAppendRaftState (ioAppend io) (ioCompact io) (ioNow io) (fpCompact fp) (map fst (fpAppendBatch fp))
                  (fpDir fp) (fpManifest fp) of
             (fs, pm, ok) \<Rightarrow> fp\<lparr> fpDir := fs, fpManifest := pm,
                                fpAnswers := fpAnswers fp @ map (\<lambda>(_, i). (i, ok)) (fpAppendBatch fp), fpAppendBatch := [] \<rparr>)"

definition flush :: "flush_io \<Rightarrow> FilePersister \<Rightarrow> FilePersister" where
  "flush io fp = flush_append io (flush_save io (flush_hard io fp))"

text \<open>The cases of the worker's \<open>select\<close>; any of them that is ready may be taken.\<close>

inductive worker_step :: "FilePersister \<Rightarrow> FilePersister \<Rightarrow> bool" where
  w_save: "fpReqCh fp = s # rest \<Longrightarrow> fp1 = fp\<lparr> fpReqCh := rest, fpBatch := fpBatch fp @ [s] \<rparr>
    \<Longrightarrow> worker_step fp (if length (fpBatch fp1) \<ge> fpBatchSize fp1 then flush io fp1 else fp1)"
| w_hard: "fpHardReqCh fp = s # rest \<Longrightarrow> fp1 = fp\<lparr> fpHardReqCh := rest, fpHardBatch := fpHardBatch fp @ [s] \<rparr>
    \<Longrightarrow> worker_step fp (if length (fpHardBatch fp1) \<ge> fpBatchSize fp1 then flush io fp1 else fp1)"
| w_append: "fpAppendReqCh fp = s # rest \<Longrightarrow> fp1 = fp\<lparr> fpAppendReqCh := rest, fpAppendBatch := fpAppendBatch fp @ [s] \<rparr>
    \<Longrightarrow> worker_step fp (if length (fpAppendBatch fp1) \<ge> fpBatchSize fp1 then flush io fp1 else fp1)"
| w_tick: "worker_step fp (flush io fp)"

definition fp_Close :: "flush_io \<Rightarrow> FilePersister \<Rightarrow> FilePersister" where
  "fp_Close io fp = (if fpClosed fp then fp else flush io (fp\<lparr> fpClosed := True \<rparr>))"

end
