(* ===== verification/Raft_Durable.thy ===== *)
theory Raft_Durable
  imports Raft_Persist Persister
begin

text \<open>
  The node's persistence and the persister together: what a node hands to the disk, as a full state
  or as a change to the one before, is the state that a restart reads back, also when the process
  ends in the middle of an append. The last section shows the order of requests under which this
  is lost.
\<close>

section \<open>Frames\<close>

lemma le_field_at: "x < 256 ^ n \<Longrightarrow> le_field (length before) n (before @ le_bytes n x @ after) = x"
  by (simp add: le_field_def le_nat_bytes_small)

text \<open>A payload turns the state it was made against into the state it was made from.\<close>

lemma payload_applies:
  assumes pay: "buildPersistAppendPayload state (int (length old)) = Some payload"
    and same: "drop persistHeaderSize old = take (length old - persistHeaderSize) (drop persistHeaderSize state)"
    and small: "length state < 2 ^ 32"
  shows "applyRaftAppendPayload old payload = (state, True)"
    "length payload = raftAppendPayloadHeaderSize + persistHeaderSize + (length state - length old)"
proof -
  let ?delta = "drop (length old) state"
  let ?head = "take persistHeaderSize state"
  have can: "persistHeaderSize \<le> length old" "length old \<le> length state"
    using pay by (auto simp: buildPersistAppendPayload_def canUsePersistAppend_def split: if_splits)
  have eq: "payload = le_bytes 4 persistAppendPayloadMagic @ le_bytes 8 (length old) @ le_bytes 8 (length state)
      @ le_bytes 4 persistHeaderSize @ le_bytes 4 (length ?delta) @ ?head @ ?delta"
    using pay by (simp add: buildPersistAppendPayload_def Let_def split: if_splits)
  have l: "length old < 256 ^ 8" "length state < 256 ^ 8" "length ?delta < 256 ^ 4" using can small by simp_all
  have f1: "le_field 0 4 payload = raftAppendPayloadMagic"
    using le_field_at [of persistAppendPayloadMagic 4 "[]"] by (simp add: eq persistAppendPayloadMagic_def raftAppendPayloadMagic_def del: le_bytes.simps)
  have f2: "le_field 4 8 payload = length old"
    using le_field_at [OF l(1), of "le_bytes 4 persistAppendPayloadMagic"] by (simp add: eq del: le_bytes.simps)
  have f3: "le_field 12 8 payload = length state"
    using le_field_at [OF l(2), of "le_bytes 4 persistAppendPayloadMagic @ le_bytes 8 (length old)"] by (simp add: eq del: le_bytes.simps)
  have f4: "le_field 20 4 payload = persistHeaderSize"
    using le_field_at [of persistHeaderSize 4 "le_bytes 4 persistAppendPayloadMagic @ le_bytes 8 (length old) @ le_bytes 8 (length state)"]
    by (simp add: eq persistHeaderSize_def del: le_bytes.simps)
  have f5: "le_field 24 4 payload = length ?delta"
    using le_field_at [OF l(3), of "le_bytes 4 persistAppendPayloadMagic @ le_bytes 8 (length old) @ le_bytes 8 (length state)
      @ le_bytes 4 persistHeaderSize"] by (simp add: eq del: le_bytes.simps)
  have len: "length payload = raftAppendPayloadHeaderSize + persistHeaderSize + length ?delta"
    using can by (simp add: eq raftAppendPayloadHeaderSize_def del: le_bytes.simps)
  then show "length payload = raftAppendPayloadHeaderSize + persistHeaderSize + (length state - length old)" by simp
  have head: "take persistHeaderSize (drop raftAppendPayloadHeaderSize payload) = ?head"
    using can by (simp add: eq raftAppendPayloadHeaderSize_def del: le_bytes.simps)
  have delta: "drop (raftAppendPayloadHeaderSize + persistHeaderSize) payload = ?delta"
    using can by (simp add: eq raftAppendPayloadHeaderSize_def del: le_bytes.simps)
  have patched: "?head @ drop persistHeaderSize old = take (length old) state"
    using can by (simp add: same take_drop [symmetric] flip: take_add)
  have s1: "sint (word_of_nat (length old) :: int64) = int (length old)" by (rule sint_of_nat64) (use l can small in simp)
  have s2: "sint (word_of_nat (length state) :: int64) = int (length state)" by (rule sint_of_nat64) (use small in simp)
  show "applyRaftAppendPayload old payload = (state, True)"
    unfolding applyRaftAppendPayload_def f1 f2 f3 f4 f5 s1 s2 Let_def head delta patched
    using can len by (auto simp: persistHeaderSize_def)
qed

lemma frame_fields:
  assumes "length payload < 2 ^ 32"
  shows "le_field 0 4 (buildAppendFrame payload @ rest) = appendFrameMagic"
    "le_field 4 4 (buildAppendFrame payload @ rest) = length payload"
    "le_field 8 4 (buildAppendFrame payload @ rest) = unat (ChecksumIEEE payload)"
proof -
  let ?m = "le_bytes 4 appendFrameMagic" and ?l = "le_bytes 4 (length payload)"
  show "le_field 0 4 (buildAppendFrame payload @ rest) = appendFrameMagic"
    using le_field_at [of appendFrameMagic 4 "[]"] by (simp add: buildAppendFrame_def appendFrameMagic_def del: le_bytes.simps)
  show "le_field 4 4 (buildAppendFrame payload @ rest) = length payload"
    using le_field_at [of "length payload" 4 ?m] assms by (simp add: buildAppendFrame_def del: le_bytes.simps)
  have "unat (ChecksumIEEE payload) < 256 ^ 4" by (rule order_less_le_trans [OF unsigned_less]) simp
  from le_field_at [OF this, of "?m @ ?l"]
  show "le_field 8 4 (buildAppendFrame payload @ rest) = unat (ChecksumIEEE payload)"
    by (simp add: buildAppendFrame_def del: le_bytes.simps)
qed

lemma frame_length: "length (buildAppendFrame payload) = appendFrameHeaderSize + length payload"
  by (simp add: buildAppendFrame_def appendFrameHeaderSize_def del: le_bytes.simps)

lemma frame_payload: "drop appendFrameHeaderSize (buildAppendFrame payload @ rest) = payload @ rest"
  by (simp add: buildAppendFrame_def appendFrameHeaderSize_def del: le_bytes.simps)

lemma replay_frame:
  assumes "length payload < 2 ^ 32"
  shows "replay_frames s (buildAppendFrame payload @ rest) off =
    (case applyRaftAppendPayload s payload of
       (s', ok) \<Rightarrow> if ok then replay_frames s' rest (off + length (buildAppendFrame payload)) else (s, off))"
proof -
  have "drop (appendFrameHeaderSize + length payload) (buildAppendFrame payload @ rest) = rest"
    by (simp add: frame_length)
  then show ?thesis
    using frame_fields [OF assms, of rest] frame_payload [of payload rest]
    by (subst replay_frames.simps) (simp add: frame_length Let_def add.assoc split: prod.split)
qed

text \<open>A frame that is cut short is not read: the state is the one before it.\<close>

lemma replay_torn:
  assumes "length payload < 2 ^ 32" "n < length (buildAppendFrame payload)"
  shows "replay_frames s (take n (buildAppendFrame payload)) off = (s, off)"
proof (cases "n < appendFrameHeaderSize")
  case True
  then have "length (take n (buildAppendFrame payload)) < appendFrameHeaderSize" by simp
  then show ?thesis by (subst replay_frames.simps) (simp only: if_True)
next
  case False
  then have "take 4 (drop 4 (take n (buildAppendFrame payload))) = take 4 (drop 4 (buildAppendFrame payload))"
    by (simp add: drop_take appendFrameHeaderSize_def)
  then have "le_field 4 4 (take n (buildAppendFrame payload)) = length payload"
    using frame_fields(2) [OF assms(1), of "[]"] by (simp add: le_field_def)
  then show ?thesis
    using assms(2) by (subst replay_frames.simps) (simp add: frame_length Let_def)
qed

text \<open>Frames after ones that were all read continue from the state these gave.\<close>

lemma replay_continues:
  "replay_frames s xs off = (t, off + length xs) \<Longrightarrow> replay_frames s (xs @ ys) off = replay_frames t ys (off + length xs)"
proof (induction s xs off rule: replay_frames.induct)
  case (1 s xs off)
  show ?case
  proof (cases "xs = []")
    case True
    then have "t = s" using 1(2) by (subst (asm) replay_frames.simps) (simp add: appendFrameHeaderSize_def)
    then show ?thesis using True by simp
  next
    case False
    let ?n = "le_field 4 4 xs"
    let ?p = "take ?n (drop appendFrameHeaderSize xs)"
    obtain s' ok where ap: "applyRaftAppendPayload s ?p = (s', ok)" by fastforce
    have *: "\<not> length xs < appendFrameHeaderSize" "le_field 0 4 xs = appendFrameMagic" "\<not> length xs < appendFrameHeaderSize + ?n"
      "unat (ChecksumIEEE ?p) = le_field 8 4 xs" "ok"
      using 1(2) False ap by (subst (asm) replay_frames.simps; auto simp: Let_def split: if_splits)+
    let ?xs' = "drop (appendFrameHeaderSize + ?n) xs"
    have rec: "replay_frames s' ?xs' (off + appendFrameHeaderSize + ?n) = (t, off + length xs)"
      using 1(2) * ap by (subst (asm) replay_frames.simps) (simp add: Let_def)
    have len: "off + appendFrameHeaderSize + ?n + length ?xs' = off + length xs" using *(3) by simp
    have ih: "replay_frames s' (?xs' @ ys) (off + appendFrameHeaderSize + ?n) = replay_frames t ys (off + length xs)"
      using 1(1) [OF *(1) _ refl refl *(3) refl _ ap [symmetric] _] * rec len by simp
    have same: "le_field 0 4 (xs @ ys) = le_field 0 4 xs" "le_field 4 4 (xs @ ys) = ?n" "le_field 8 4 (xs @ ys) = le_field 8 4 xs"
      using *(1) by (simp_all add: le_field_def appendFrameHeaderSize_def)
    have "take ?n (drop appendFrameHeaderSize (xs @ ys)) = ?p" "drop (appendFrameHeaderSize + ?n) (xs @ ys) = ?xs' @ ys"
      using *(1,3) by simp_all
    then show ?thesis
      using * ap ih same by (subst replay_frames.simps) (simp add: Let_def)
  qed
qed

section \<open>The files of a generation\<close>

lemma rel_names [simp]:
  "raft_rel g \<noteq> defaultDeltaRel h" "defaultDeltaRel g \<noteq> raft_rel h" "raft_rel g \<noteq> snapshot_rel h" "snapshot_rel g \<noteq> raft_rel h"
  "defaultDeltaRel g \<noteq> snapshot_rel h" "snapshot_rel g \<noteq> defaultDeltaRel h"
  "raft_rel g \<noteq> manifestFileName" "defaultDeltaRel g \<noteq> manifestFileName" "snapshot_rel g \<noteq> manifestFileName"
  "manifestFileName \<noteq> raft_rel g" "manifestFileName \<noteq> defaultDeltaRel g" "manifestFileName \<noteq> snapshot_rel g"
  "raft_rel g \<noteq> []" "defaultDeltaRel g \<noteq> []" "snapshot_rel g \<noteq> []"
proof -
  have "last (raft_rel g) = CHR ''n''" "last (defaultDeltaRel h) = CHR ''l''" for g h
    by (simp_all add: raft_rel_def defaultDeltaRel_def)
  moreover have "CHR ''n'' \<noteq> CHR ''l''" by simp
  ultimately show "raft_rel g \<noteq> defaultDeltaRel h" "defaultDeltaRel g \<noteq> raft_rel h" by metis+
qed (simp_all add: raft_rel_def defaultDeltaRel_def snapshot_rel_def manifestFileName_def)

interpretation manifest_codec: json_codec marshal_manifest unmarshal_manifest
proof
  show "unmarshal_manifest (marshal_manifest pm) = Some pm" for pm
    by (cases pm; cases "pmRaftDeltaRel pm = []")
       (simp_all del: jfield.simps(2) add: unmarshal_manifest_def marshal_manifest_def jfield_eval codec_simps)
qed

text \<open>The manifest names files of the directory, and every frame of the delta file is read.\<close>

definition disk_at :: "dir \<Rightarrow> persisterManifest \<Rightarrow> byte list \<Rightarrow> bool" where
  "disk_at fs pm s \<longleftrightarrow>
     pmRaftStateRel pm = raft_rel (pmGeneration pm) \<and> pmRaftDeltaRel pm = defaultDeltaRel (pmGeneration pm)
     \<and> map_of fs manifestFileName = Some (Doc (marshal_manifest pm))
     \<and> (\<exists>h. pmSnapshotRel pm = snapshot_rel h) \<and> map_of fs (pmSnapshotRel pm) \<noteq> None
     \<and> (\<exists>base delta. map_of fs (pmRaftStateRel pm) = Some (Data base) \<and> map_of fs (pmRaftDeltaRel pm) = Some (Data delta)
           \<and> replayDeltaFrames base delta = (s, length delta))"

lemma compose_replay: "fst (composeRaftState fs basePath deltaPath)
    = (if deltaPath = [] then read_file fs basePath else fst (replayDeltaFrames (read_file fs basePath) (read_file fs deltaPath)))"
  by (simp add: composeRaftState_def Let_def replayDeltaFrames_def replay_frames.simps [of _ "[]"] appendFrameHeaderSize_def)

lemma disk_at_reads: "disk_at fs pm s \<Longrightarrow> ReadRaftState fs pm = s"
  by (clarsimp simp: disk_at_def ReadRaftState_def compose_replay currentRaftStatePathLocked_def currentRaftDeltaPathLocked_def read_file_def)

lemma disk_at_restart: "disk_at fs pm s \<Longrightarrow> loadManifest out now fs = (fs, pm)"
  by (clarsimp simp: disk_at_def loadManifest_def manifest_codec.dec_enc Let_def)

lemma commitGeneration_disk:
  assumes "\<And>n. outs n = Written" "pmSnapshotRel pm = [] \<or> (\<exists>h. pmSnapshotRel pm = snapshot_rel h) \<and> map_of fs (pmSnapshotRel pm) \<noteq> None"
  shows "\<exists>fs' pm'. commitGeneration outs now s snapshot fs pm = (fs', pm', True) \<and> disk_at fs' pm' s"
proof -
  have rep: "replayDeltaFrames s [] = (s, 0)" by (simp add: replayDeltaFrames_def replay_frames.simps appendFrameHeaderSize_def)
  consider (given) x where "snapshot = Some x" | (first) "snapshot = None" "pmSnapshotRel pm = []"
    | (kept) h where "snapshot = None" "pmSnapshotRel pm = snapshot_rel h" "map_of fs (snapshot_rel h) \<noteq> None"
    using assms(2) by (cases snapshot) auto
  then show ?thesis
    by cases (simp_all add: commitGeneration_def next_manifest_def durableWrite_def disk_at_def Let_def update_conv rep assms(1), blast+)
qed

section \<open>Batches of frames\<close>

text \<open>Payloads with the states they lead to, one after the other.\<close>

fun replays :: "byte list \<Rightarrow> (byte list \<times> byte list) list \<Rightarrow> bool" where
  "replays s [] \<longleftrightarrow> True"
| "replays s ((p, t) # ps) \<longleftrightarrow> length p < 2 ^ 32 \<and> applyRaftAppendPayload s p = (t, True) \<and> replays t ps"

definition frames_of :: "(byte list \<times> byte list) list \<Rightarrow> byte list" where
  "frames_of ps = concat (map buildAppendFrame (map fst ps))"

lemma frames_of_simps [simp]: "frames_of [] = []" "frames_of ((p, t) # ps) = buildAppendFrame p @ frames_of ps"
  by (simp_all add: frames_of_def)

lemma replay_nothing [simp]: "replay_frames s [] off = (s, off)"
  by (simp add: replay_frames.simps appendFrameHeaderSize_def)

lemma replay_batch: "replays s ps \<Longrightarrow> replay_frames s (frames_of ps) off = (last (s # map snd ps), off + length (frames_of ps))"
  by (induction s ps arbitrary: off rule: replays.induct) (auto simp: replay_frame)

lemma replay_torn_batch:
  "replays s ps \<Longrightarrow> \<exists>k \<le> length ps. fst (replay_frames s (take n (frames_of ps)) off) = (s # map snd ps) ! k"
proof (induction s ps arbitrary: off n rule: replays.induct)
  case (2 s p t ps)
  show ?case
  proof (cases "n < length (buildAppendFrame p)")
    case True
    then have "take n (frames_of ((p, t) # ps)) = take n (buildAppendFrame p)" by simp
    then show ?thesis using replay_torn [OF _ True, of s off] 2(2) by (intro exI [of _ 0]) (simp del: frames_of_simps take_append)
  next
    case False
    then have "take n (frames_of ((p, t) # ps)) = buildAppendFrame p @ take (n - length (buildAppendFrame p)) (frames_of ps)" by simp
    then have "replay_frames s (take n (frames_of ((p, t) # ps))) off
        = replay_frames t (take (n - length (buildAppendFrame p)) (frames_of ps)) (off + length (buildAppendFrame p))"
      using 2(2) by (simp add: replay_frame)
    moreover obtain k where "k \<le> length ps"
      "fst (replay_frames t (take (n - length (buildAppendFrame p)) (frames_of ps)) (off + length (buildAppendFrame p))) = (t # map snd ps) ! k"
      using 2(1) [of "n - length (buildAppendFrame p)" "off + length (buildAppendFrame p)"] 2(2) by auto
    ultimately show ?thesis by (intro exI [of _ "Suc k"]) simp
  qed
qed simp

lemma disk_at_frames:
  assumes "disk_at fs pm s"
  obtains base delta where "read_file fs (currentRaftStatePathLocked pm) = base" "read_file fs (currentRaftDeltaPathLocked pm) = delta"
    "replay_frames base delta 0 = (s, length delta)" "currentRaftDeltaPathLocked pm = defaultDeltaRel (pmGeneration pm)"
    "currentRaftStatePathLocked pm = raft_rel (pmGeneration pm)" "pmRaftDeltaRel pm = defaultDeltaRel (pmGeneration pm)"
    "map_of fs (raft_rel (pmGeneration pm)) = Some (Data base)"
  using assms by (clarsimp simp: disk_at_def currentRaftStatePathLocked_def currentRaftDeltaPathLocked_def read_file_def replayDeltaFrames_def)

lemma append_disk:
  assumes d: "disk_at fs pm s" and ps: "replays s ps"
  defines "fs' \<equiv> AList.update (currentRaftDeltaPathLocked pm) (Data (read_file fs (currentRaftDeltaPathLocked pm) @ frames_of ps)) fs"
  shows "disk_at fs' pm (last (s # map snd ps))"
proof -
  from d obtain base delta where bd: "read_file fs (currentRaftDeltaPathLocked pm) = delta"
    "replay_frames base delta 0 = (s, length delta)" "currentRaftDeltaPathLocked pm = defaultDeltaRel (pmGeneration pm)"
    "map_of fs (raft_rel (pmGeneration pm)) = Some (Data base)"
    by (rule disk_at_frames) blast
  have "replayDeltaFrames base (delta @ frames_of ps) = (last (s # map snd ps), length (delta @ frames_of ps))"
    using replay_continues [of base delta 0 s "frames_of ps"] bd(2) replay_batch [OF ps, of "length delta"]
    by (simp add: replayDeltaFrames_def)
  then show ?thesis using d bd by (clarsimp simp: disk_at_def fs'_def update_conv)
qed

lemma commitAppend_disk:
  assumes d: "disk_at fs pm s" and ps: "replays s ps" "ps \<noteq> []" and outs: "\<And>n. outs n = Written"
  shows "\<exists>fs' pm'. commitAppendRaftState AppendDone outs now thr (map fst ps) fs pm = (fs', pm', True)
    \<and> disk_at fs' pm' (last (s # map snd ps))"
proof -
  define fs1 where "fs1 = AList.update (currentRaftDeltaPathLocked pm) (Data (read_file fs (currentRaftDeltaPathLocked pm) @ frames_of ps)) fs"
  have d1: "disk_at fs1 pm (last (s # map snd ps))" using append_disk [OF d ps(1)] by (simp add: fs1_def)
  have path: "currentRaftDeltaPathLocked pm \<noteq> []" using d by (clarsimp simp: disk_at_def currentRaftDeltaPathLocked_def)
  have state: "fst (composeRaftState fs1 (currentRaftStatePathLocked pm) (currentRaftDeltaPathLocked pm)) = last (s # map snd ps)"
    using disk_at_reads [OF d1] by (simp add: ReadRaftState_def)
  have "\<exists>fs' pm'. commitGeneration outs now (last (s # map snd ps)) None fs1 pm = (fs', pm', True) \<and> disk_at fs' pm' (last (s # map snd ps))"
    by (rule commitGeneration_disk [OF outs]) (use d1 in \<open>simp add: disk_at_def\<close>)
  moreover have "commitAppendRaftState AppendDone outs now thr (map fst ps) fs pm
      = (if thr = 0 \<or> length (read_file fs1 (currentRaftDeltaPathLocked pm)) < thr then (fs1, pm, True)
         else if last (s # map snd ps) = [] then (fs1, pm, True)
         else commitGeneration outs now (last (s # map snd ps)) None fs1 pm)"
    using ps(2) path state unfolding commitAppendRaftState_def Let_def fs1_def frames_of_def by (simp del: last.simps)
  ultimately show ?thesis using d1 by metis
qed

text \<open>An append that stops after \<open>n\<close> bytes leaves the state after some of the payloads.\<close>

lemma commitAppend_torn:
  assumes d: "disk_at fs pm s" and ps: "replays s ps" "ps \<noteq> []"
    and c: "commitAppendRaftState (AppendStops n) outs now thr (map fst ps) fs pm = (fs', pm', ok)"
  shows "\<not> ok" "loadManifest out now' fs' = (fs', pm)" "\<exists>k \<le> length ps. ReadRaftState fs' pm = (s # map snd ps) ! k"
proof -
  from d obtain base delta where bd: "read_file fs (currentRaftStatePathLocked pm) = base" "read_file fs (currentRaftDeltaPathLocked pm) = delta"
    "replay_frames base delta 0 = (s, length delta)" "currentRaftDeltaPathLocked pm = defaultDeltaRel (pmGeneration pm)"
    "currentRaftStatePathLocked pm = raft_rel (pmGeneration pm)" "map_of fs (raft_rel (pmGeneration pm)) = Some (Data base)"
    by (rule disk_at_frames) blast
  have eq: "fs' = AList.update (defaultDeltaRel (pmGeneration pm)) (Data (delta @ take n (frames_of ps))) fs" and ok: "\<not> ok"
    using c ps(2) bd(2,4) by (auto simp: commitAppendRaftState_def Let_def frames_of_def)
  show "\<not> ok" by (rule ok)
  show "loadManifest out now' fs' = (fs', pm)"
    using d by (clarsimp simp: eq disk_at_def loadManifest_def manifest_codec.dec_enc Let_def update_conv)
  have "ReadRaftState fs' pm = fst (replay_frames s (take n (frames_of ps)) (length delta))"
    using replay_continues [of base delta 0 s "take n (frames_of ps)"] bd
    by (simp add: ReadRaftState_def compose_replay eq read_file_def update_conv replayDeltaFrames_def)
  then show "\<exists>k \<le> length ps. ReadRaftState fs' pm = (s # map snd ps) ! k" using replay_torn_batch [OF ps(1)] by metis
qed

section \<open>A node and its disk\<close>

text \<open>
  The states a node can store: commands the codec encodes, a log with its first entry, numbers of 64
  bits, and an encoding below two gigabytes, as the lengths in frames have four bytes.
\<close>

definition storable :: "'c encoder \<Rightarrow> 'c persistent \<Rightarrow> bool" where
  "storable enc p \<longleftrightarrow>
     encodable enc (psLog p) \<and> psLog p \<noteq> [] \<and> length (encode_full enc p) < 2 ^ 31 \<and> (\<forall>e \<in> set (psLog p). fits64 (leTerm e))
     \<and> fits64 (psTerm p) \<and> fits64 (psVote p) \<and> fits64 (psLastIncludedIndex p) \<and> fits64 (psLastIncludedTerm p)"

text \<open>
  The node with its cache, the requests that the worker has not taken yet, each with the state it
  stands for, the persister, and the state of the last request that was flushed.
\<close>

record 'c durable =
  dNode :: "'c persistent"
  dCache :: persist_cache
  dJobs :: "(byte list disk_job \<times> 'c persistent) list"
  dPersister :: FilePersister
  dStored :: "'c persistent option"

definition io_ok :: "flush_io \<Rightarrow> bool" where
  "io_ok io \<longleftrightarrow> (\<forall>n. ioSave io n = Written) \<and> ioAppend io = AppendDone \<and> (\<forall>n. ioCompact io n = Written)"

text \<open>A flush with one save or with a batch of appends.\<close>

definition flush_one_save :: "flush_io \<Rightarrow> byte list \<Rightarrow> byte list option \<Rightarrow> FilePersister \<Rightarrow> FilePersister" where
  "flush_one_save io st sn fp =
     flush io (fp\<lparr> fpBatch := [\<lparr> svRaftState = st, svSnapshot = (case sn of Some [] \<Rightarrow> None | _ \<Rightarrow> sn), svId = 0 \<rparr>] \<rparr>)"

definition flush_appends :: "flush_io \<Rightarrow> byte list list \<Rightarrow> FilePersister \<Rightarrow> FilePersister" where
  "flush_appends io ps fp = flush io (fp\<lparr> fpAppendBatch := map (\<lambda>p. (p, 0)) ps \<rparr>)"

definition restart_read :: "'c decoder \<Rightarrow> dir \<Rightarrow> 'c persistent \<Rightarrow> persist_cache \<Rightarrow> 'c persistent \<times> persist_cache" where
  "restart_read dec fs p c =
     (let fp = NewFilePersister Written 0 fs in readPersistState dec (ReadRaftState (fpDir fp) (fpManifest fp)) p c)"

inductive durable_step :: "'c encoder \<Rightarrow> 'c decoder \<Rightarrow> 'c durable \<Rightarrow> 'c durable \<Rightarrow> bool" for enc dec where
  d_change: "k \<le> n \<Longrightarrow> k \<le> length (psLog (dNode d)) \<Longrightarrow> k \<le> length (psLog p) \<Longrightarrow> take k (psLog p) = take k (psLog (dNode d))
    \<Longrightarrow> durable_step enc dec d (d\<lparr> dNode := p, dCache := markPersistDirtyFromLocked n (int k) (dCache d) \<rparr>)"
| d_enqueue: "storable enc (dNode d) \<Longrightarrow> enqueuePersistLocked enc (dNode d) snapshot (dCache d) = (c, job)
    \<Longrightarrow> durable_step enc dec d (d\<lparr> dCache := c, dJobs := dJobs d @ [(job, dNode d)] \<rparr>)"
| d_save: "dJobs d = (SaveJob st sn, q) # rest \<Longrightarrow> io_ok io
    \<Longrightarrow> durable_step enc dec d (d\<lparr> dJobs := rest, dPersister := flush_one_save io st sn (dPersister d), dStored := Some q \<rparr>)"
| d_append: "dJobs d = map (\<lambda>(p, q). (AppendJob p, q)) ps @ rest \<Longrightarrow> ps \<noteq> [] \<Longrightarrow> io_ok io
    \<Longrightarrow> durable_step enc dec d (d\<lparr> dJobs := rest, dPersister := flush_appends io (map fst ps) (dPersister d),
                                   dStored := Some (snd (last ps)) \<rparr>)"
| d_restart: "restart_read dec (fpDir (dPersister d)) p0 c0 = (p, c)
    \<Longrightarrow> durable_step enc dec d (d\<lparr> dNode := p, dCache := c, dJobs := [], dPersister := NewFilePersister Written 0 (fpDir (dPersister d)) \<rparr>)"

definition durable_init :: "'c decoder \<Rightarrow> 'c durable \<Rightarrow> bool" where
  "durable_init dec d \<longleftrightarrow>
     dJobs d = [] \<and> dPersister d = NewFilePersister Written 0 [] \<and> dStored d = None
     \<and> (\<exists>p0 c0. restart_read dec [] p0 c0 = (dNode d, dCache d))"

subsection \<open>The invariant\<close>

fun jobs_from :: "'c encoder \<Rightarrow> byte list \<Rightarrow> (byte list disk_job \<times> 'c persistent) list \<Rightarrow> bool" where
  "jobs_from enc s [] \<longleftrightarrow> True"
| "jobs_from enc s ((job, q) # js) \<longleftrightarrow>
     storable enc q \<and> jobs_from enc (encode_full enc q) js
     \<and> (case job of
          SaveJob st _ \<Rightarrow> st = encode_full enc q
        | AppendJob p \<Rightarrow> length p < 2 ^ 32 \<and> applyRaftAppendPayload s p = (encode_full enc q, True)
        | EncodeFailed \<Rightarrow> False)"

definition bytes_of :: "'c encoder \<Rightarrow> 'c persistent option \<Rightarrow> byte list" where
  "bytes_of enc q = (case q of None \<Rightarrow> [] | Some q' \<Rightarrow> encode_full enc q')"

definition queued_bytes :: "'c encoder \<Rightarrow> 'c durable \<Rightarrow> byte list" where
  "queued_bytes enc d = (if dJobs d = [] then bytes_of enc (dStored d) else encode_full enc (snd (last (dJobs d))))"

definition cache_at :: "'c encoder \<Rightarrow> byte list \<Rightarrow> 'c persistent \<Rightarrow> persist_cache \<Rightarrow> bool" where
  "cache_at enc s p c \<longleftrightarrow>
     (if pcReady c
      then \<exists>old. cache_of enc old c \<and> pcState c = s \<and> pcQueuedLen c = int (length s) \<and> pcQueuedLogCount c = int (length old)
             \<and> min (pcDirtyFrom c) (length old) \<le> length (psLog p)
             \<and> take (min (pcDirtyFrom c) (length old)) old = take (min (pcDirtyFrom c) (length old)) (psLog p)
      else pcQueuedLen c = 0)"

definition stored_at :: "'c encoder \<Rightarrow> 'c persistent option \<Rightarrow> FilePersister \<Rightarrow> bool" where
  "stored_at enc stored fp \<longleftrightarrow>
     fpBatch fp = [] \<and> fpHardBatch fp = [] \<and> fpAppendBatch fp = []
     \<and> (case stored of
          None \<Rightarrow> fpDir fp = [] \<and> fpManifest fp = no_manifest
        | Some q \<Rightarrow> storable enc q \<and> disk_at (fpDir fp) (fpManifest fp) (encode_full enc q))"

definition durable_inv :: "'c encoder \<Rightarrow> 'c durable \<Rightarrow> bool" where
  "durable_inv enc d \<longleftrightarrow>
     stored_at enc (dStored d) (dPersister d) \<and> jobs_from enc (bytes_of enc (dStored d)) (dJobs d)
     \<and> cache_at enc (queued_bytes enc d) (dNode d) (dCache d)"

lemma jobs_from_snoc:
  "jobs_from enc s (js @ [(job, q)]) \<longleftrightarrow>
     jobs_from enc s js \<and> jobs_from enc (if js = [] then s else encode_full enc (snd (last js))) [(job, q)]"
  by (induction enc s js rule: jobs_from.induct) (auto split: disk_job.split)

lemma jobs_from_appends:
  "jobs_from enc s (map (\<lambda>(p, q). (AppendJob p, q)) ps @ rest) \<Longrightarrow> ps \<noteq> [] \<Longrightarrow>
     replays s (map (\<lambda>(p, q). (p, encode_full enc q)) ps) \<and> jobs_from enc (encode_full enc (snd (last ps))) rest
     \<and> (\<forall>x \<in> set ps. storable enc (snd x))"
  by (induction ps arbitrary: s) fastforce+

lemma mark_at:
  assumes "cache_at enc s p c" "k \<le> n" "k \<le> length (psLog p)" "k \<le> length (psLog p')" "take k (psLog p') = take k (psLog p)"
  shows "cache_at enc s p' (markPersistDirtyFromLocked n (int k) c)"
proof (cases "pcReady c")
  case True
  then obtain old where old: "cache_of enc old c" "pcState c = s" "pcQueuedLen c = int (length s)" "pcQueuedLogCount c = int (length old)"
    "min (pcDirtyFrom c) (length old) \<le> length (psLog p)"
    "take (min (pcDirtyFrom c) (length old)) old = take (min (pcDirtyFrom c) (length old)) (psLog p)"
    using assms(1) by (auto simp: cache_at_def)
  let ?m = "min (pcDirtyFrom c) (length old)"
  have mark: "markPersistDirtyFromLocked n (int k) c = c\<lparr> pcDirtyFrom := min (pcDirtyFrom c) k \<rparr>"
    using True assms(2) by (simp add: markPersistDirtyFromLocked_def min_def)
  have m: "min (min (pcDirtyFrom c) k) (length old) = min ?m k" by (simp add: min.commute min.left_commute)
  have "take (min ?m k) old = take k (take ?m old)" by (simp add: min.commute)
  also have "\<dots> = take k (take ?m (psLog p))" by (simp only: old(6))
  also have "\<dots> = take ?m (take k (psLog p))" by (simp add: ac_simps)
  also have "\<dots> = take ?m (take k (psLog p'))" by (simp only: assms(5))
  finally have "take (min ?m k) old = take (min ?m k) (psLog p')" by (simp add: take_take)
  moreover have "cache_of enc old (c\<lparr> pcDirtyFrom := min (pcDirtyFrom c) k \<rparr>)" using old(1) by (simp add: cache_of_def)
  ultimately show ?thesis
    using True old(2-4) assms(4) unfolding mark cache_at_def
    by (auto simp: m min.commute min.left_commute intro!: exI [of _ old] min.coboundedI1)
next
  case False
  then show ?thesis using assms(1) by (simp add: cache_at_def markPersistDirtyFromLocked_def)
qed

lemma encode_at:
  assumes "cache_at enc s p c" "storable enc p"
  shows "\<exists>c1. encodePersistentStateIncrementalLocked enc p c = Some (c1, encode_full enc p) \<and> cache_of enc (psLog p) c1
    \<and> pcDirtyFrom c1 = length (psLog p) \<and> pcState c1 = encode_full enc p \<and> pcQueuedLen c1 = pcQueuedLen c
    \<and> pcQueuedLogCount c1 = pcQueuedLogCount c"
proof -
  have "cache_inv enc p c" using assms(1) by (auto simp: cache_inv_def cache_at_def split: if_splits)
  moreover have "encodable enc (psLog p)" using assms(2) by (simp add: storable_def)
  ultimately show ?thesis by (rule encode_incremental)
qed

text \<open>A request is the full state, or its difference to the state queued before it.\<close>

lemma enqueue_at:
  assumes at: "cache_at enc s p c" and st: "storable enc p" and e: "enqueuePersistLocked enc p snapshot c = (c', job)"
  shows "jobs_from enc s [(job, p)]" "cache_at enc (encode_full enc p) p c'"
proof -
  obtain c1 where c1: "encodePersistentStateIncrementalLocked enc p c = Some (c1, encode_full enc p)" "cache_of enc (psLog p) c1"
    "pcDirtyFrom c1 = length (psLog p)" "pcState c1 = encode_full enc p" "pcQueuedLen c1 = pcQueuedLen c"
    "pcQueuedLogCount c1 = pcQueuedLogCount c"
    using encode_at [OF at st] by blast
  let ?st = "encode_full enc p"
  have c': "c' = markPersistQueuedLocked (int (length ?st)) (int (length (psLog p))) c1"
    and job: "(\<exists>payload. job = AppendJob payload \<and> canPersistAppendLocked (snapshot \<noteq> None) ?st (pcDirtyFrom c) (length (psLog p)) c1
        \<and> buildPersistAppendPayload ?st (pcQueuedLen c) = Some payload) \<or> job = SaveJob ?st snapshot"
    using e c1(1,5) by (auto simp: enqueuePersistLocked_def Let_def split: if_splits option.splits)
  show "cache_at enc ?st p c'"
    using c1(2-4) by (auto simp: c' cache_at_def markPersistQueuedLocked_def cache_of_def intro!: exI [of _ "psLog p"])
  have app: "length payload < 2 ^ 32 \<and> applyRaftAppendPayload s payload = (?st, True)"
    if pay: "buildPersistAppendPayload ?st (pcQueuedLen c) = Some payload"
      and can: "canPersistAppendLocked (snapshot \<noteq> None) ?st (pcDirtyFrom c) (length (psLog p)) c1" for payload
  proof -
    have pos: "pcQueuedLen c \<ge> int persistHeaderSize" and dirty: "pcQueuedLogCount c \<le> int (pcDirtyFrom c)"
      using can c1(5,6) by (simp_all add: canPersistAppendLocked_def canUsePersistAppend_def)
    then have "pcReady c" using at by (auto simp: cache_at_def persistHeaderSize_def split: if_splits)
    then obtain old where old: "cache_of enc old c" "pcState c = s" "pcQueuedLen c = int (length s)" "length old \<le> length (psLog p)"
      "old = take (length old) (psLog p)"
      using at dirty by (auto simp: cache_at_def min_def split: if_splits)
    have os: "drop persistHeaderSize s = log_bytes enc old" "length s = persistHeaderSize + length (log_bytes enc old)"
      using old(1,2) by (auto simp: cache_of_def)
    have "drop persistHeaderSize ?st = log_bytes enc old @ log_bytes enc (drop (length old) (psLog p))"
      using log_bytes_take [of enc "psLog p" "length old"] old(5) by (simp add: encode_full_def)
    then have same: "drop persistHeaderSize s = take (length s - persistHeaderSize) (drop persistHeaderSize ?st)"
      using os by simp
    have small: "length ?st < 2 ^ 31" using st by (simp add: storable_def)
    then have small': "length ?st < 2 ^ 32" by simp
    show ?thesis
      using payload_applies [OF pay [unfolded old(3)] same small'] small
      by (simp add: raftAppendPayloadHeaderSize_def persistHeaderSize_def)
  qed
  show "jobs_from enc s [(job, p)]" using job st app by auto
qed

text \<open>When the log only grew since the last request and there is no snapshot, the request is an append.\<close>

lemma enqueue_kind:
  assumes at: "cache_at enc s p c" and st: "storable enc p" and e: "enqueuePersistLocked enc p snapshot c = (c', job)"
  shows "pcReady c'" "pcDirtyFrom c' = length (psLog p)" "pcQueuedLogCount c' = int (length (psLog p))"
    "snapshot \<noteq> None \<or> \<not> pcReady c \<Longrightarrow> job = SaveJob (encode_full enc p) snapshot"
    "\<lbrakk>snapshot = None; pcReady c; pcQueuedLogCount c \<le> int (pcDirtyFrom c); pcQueuedLogCount c \<le> int (length (psLog p));
      persistHeaderSize \<le> length s; length s \<le> length (encode_full enc p)\<rbrakk>
     \<Longrightarrow> \<exists>a. job = AppendJob a \<and> length a = 72 + (length (encode_full enc p) - length s)"
proof -
  obtain c1 where c1: "encodePersistentStateIncrementalLocked enc p c = Some (c1, encode_full enc p)" "cache_of enc (psLog p) c1"
    "pcDirtyFrom c1 = length (psLog p)" "pcState c1 = encode_full enc p" "pcQueuedLen c1 = pcQueuedLen c"
    "pcQueuedLogCount c1 = pcQueuedLogCount c"
    using encode_at [OF at st] by blast
  then have r: "pcReady c1" by (simp add: cache_of_def)
  let ?st = "encode_full enc p"
  have "c' = markPersistQueuedLocked (int (length ?st)) (int (length (psLog p))) c1"
    using e c1(1) by (auto simp: enqueuePersistLocked_def Let_def split: if_splits option.splits)
  then show "pcReady c'" "pcDirtyFrom c' = length (psLog p)" "pcQueuedLogCount c' = int (length (psLog p))"
    using c1(3) r by (simp_all add: markPersistQueuedLocked_def)
  show "job = SaveJob (encode_full enc p) snapshot" if "snapshot \<noteq> None \<or> \<not> pcReady c"
  proof -
    have "\<not> canPersistAppendLocked (snapshot \<noteq> None) ?st (pcDirtyFrom c) (length (psLog p)) c1"
      using that at c1(5) by (auto simp: canPersistAppendLocked_def canUsePersistAppend_def cache_at_def persistHeaderSize_def split: if_splits)
    then show ?thesis using e c1(1) by (simp add: enqueuePersistLocked_def Let_def)
  qed
  show "\<exists>a. job = AppendJob a \<and> length a = 72 + (length ?st - length s)"
    if g: "snapshot = None" "pcReady c" "pcQueuedLogCount c \<le> int (pcDirtyFrom c)" "pcQueuedLogCount c \<le> int (length (psLog p))"
      "persistHeaderSize \<le> length s" "length s \<le> length ?st"
  proof -
    have len: "pcQueuedLen c = int (length s)" using at g(2) by (auto simp: cache_at_def)
    then have "canPersistAppendLocked (snapshot \<noteq> None) ?st (pcDirtyFrom c) (length (psLog p)) c1"
      using g r c1(5,6) by (simp add: canPersistAppendLocked_def canUsePersistAppend_def)
    moreover have "\<exists>a. buildPersistAppendPayload ?st (pcQueuedLen c1) = Some a \<and> length a = 72 + (length ?st - length s)"
      using g(5,6) c1(5) len
      by (auto simp: buildPersistAppendPayload_def canUsePersistAppend_def Let_def persistHeaderSize_def simp del: le_bytes.simps)
    ultimately show ?thesis using e c1(1) by (auto simp: enqueuePersistLocked_def Let_def)
  qed
qed
lemma save_stored:
  assumes "stored_at enc stored fp" "io_ok io" "storable enc q"
  shows "stored_at enc (Some q) (flush_one_save io (encode_full enc q) sn fp)"
proof -
  let ?sn = "case sn of Some [] \<Rightarrow> None | _ \<Rightarrow> sn"
  have "pmSnapshotRel (fpManifest fp) = []
      \<or> (\<exists>h. pmSnapshotRel (fpManifest fp) = snapshot_rel h) \<and> map_of (fpDir fp) (pmSnapshotRel (fpManifest fp)) \<noteq> None"
    using assms(1) by (auto simp: stored_at_def disk_at_def no_manifest_def split: option.splits)
  then obtain fs' pm' where c: "commitGeneration (ioSave io) (ioNow io) (encode_full enc q) ?sn (fpDir fp) (fpManifest fp) = (fs', pm', True)"
    and d: "disk_at fs' pm' (encode_full enc q)"
    using commitGeneration_disk assms(2) unfolding io_ok_def by metis
  then show ?thesis
    using assms(1,3) by (simp add: flush_one_save_def flush_def flush_hard_def flush_save_def flush_append_def stored_at_def)
qed

lemma appends_stored:
  assumes "stored_at enc (Some q0) fp" "io_ok io" "replays (encode_full enc q0) (map (\<lambda>(p, q). (p, encode_full enc q)) ps)" "ps \<noteq> []"
    "storable enc (snd (last ps))"
  shows "stored_at enc (Some (snd (last ps))) (flush_appends io (map fst ps) fp)"
proof -
  let ?ps = "map (\<lambda>(p, q). (p, encode_full enc q)) ps"
  have d: "disk_at (fpDir fp) (fpManifest fp) (encode_full enc q0)" using assms(1) by (simp add: stored_at_def)
  have fst: "map fst ?ps = map fst ps" by (induction ps) auto
  have "last (encode_full enc q0 # map snd ?ps) = encode_full enc (snd (last ps))"
    using assms(4) by (simp add: last_map case_prod_unfold)
  moreover have "ioAppend io = AppendDone" "\<And>n. ioCompact io n = Written" using assms(2) by (auto simp: io_ok_def)
  ultimately obtain fs' pm' where
    c: "commitAppendRaftState (ioAppend io) (ioCompact io) (ioNow io) (fpCompact fp) (map fst ps) (fpDir fp) (fpManifest fp) = (fs', pm', True)"
    and d': "disk_at fs' pm' (encode_full enc (snd (last ps)))"
    using commitAppend_disk [OF d assms(3), of "ioCompact io" "ioNow io" "fpCompact fp"] assms(4) unfolding fst by auto
  have "map fst (map (\<lambda>p. (p, 0::nat)) (map fst ps)) = map fst ps" by simp
  then show ?thesis
    using assms(1,4,5) c d'
    by (simp add: flush_appends_def flush_def flush_hard_def flush_save_def flush_append_def stored_at_def comp_def)
qed

lemma restart_nothing: "restart_read dec [] p c = (p, invalidatePersistCacheLocked c)"
  by (simp add: restart_read_def NewFilePersister_def loadManifest_def discoverLatestCompleteGeneration_def files_by_gen_def Let_def
      ReadRaftState_def compose_replay read_file_def no_manifest_def currentRaftStatePathLocked_def currentRaftDeltaPathLocked_def
      readPersistState_def readPersistBinary_def persistHeaderSize_def)

lemma new_persister: "NewFilePersister Written 0 []
    = \<lparr> fpDir = [], fpManifest = no_manifest, fpCompact = 4 * 1024 * 1024, fpBatchSize = 64, fpReqCh = [], fpHardReqCh = [],
        fpAppendReqCh = [], fpBatch = [], fpHardBatch = [], fpAppendBatch = [], fpClosed = False, fpAnswers = [] \<rparr>"
  by (simp add: NewFilePersister_def loadManifest_def discoverLatestCompleteGeneration_def files_by_gen_def no_manifest_def Let_def)

lemma restart_stored:
  assumes "stored_at enc stored fp"
  shows "stored_at enc stored (NewFilePersister Written 0 (fpDir fp))"
proof (cases stored)
  case None
  then show ?thesis using assms by (simp add: stored_at_def new_persister)
next
  case (Some q)
  then show ?thesis
    using assms disk_at_restart [of "fpDir fp" "fpManifest fp" "encode_full enc q" Written 0]
    by (simp add: stored_at_def NewFilePersister_def)
qed

lemma invalid_at: "cache_at enc s p (invalidatePersistCacheLocked c)"
  by (simp add: cache_at_def invalidatePersistCacheLocked_def)

context command_codec
begin

lemma readPersistState_encoded:
  assumes "storable enc q"
  shows "\<exists>c'. readPersistState dec (encode_full enc q) p c = (q, c') \<and> cache_at enc (encode_full enc q) q c'"
proof -
  have "length (encode_full enc q) < 2 ^ 63" using assms by (simp add: storable_def)
  then obtain c' where "readPersistBinary dec (encode_full enc q) c = Some (q, c')" "cache_of enc (psLog q) c'"
    "pcDirtyFrom c' = length (psLog q)" "pcState c' = encode_full enc q"
    "pcQueuedLen c' = int (length (encode_full enc q))" "pcQueuedLogCount c' = int (length (psLog q))"
    using read_encoded [of q c] assms unfolding storable_def by blast
  then show ?thesis by (auto simp: readPersistState_def cache_at_def cache_of_def)
qed

lemma restart_reads:
  assumes "disk_at fs pm (encode_full enc q)" "storable enc q"
  shows "\<exists>c'. restart_read dec fs p c = (q, c') \<and> cache_at enc (encode_full enc q) q c'"
  using readPersistState_encoded [OF assms(2)] disk_at_restart [OF assms(1)] disk_at_reads [OF assms(1)]
  by (simp add: restart_read_def NewFilePersister_def)

lemma durable_inv_step:
  assumes "durable_inv enc d" "durable_step enc dec d d'"
  shows "durable_inv enc d'"
  using assms(2)
proof cases
  case (d_change k n p)
  then show ?thesis using assms(1) mark_at by (auto simp: durable_inv_def queued_bytes_def)
next
  case (d_enqueue snapshot c job)
  have "cache_at enc (queued_bytes enc d) (dNode d) (dCache d)" using assms(1) by (simp add: durable_inv_def)
  from enqueue_at [OF this d_enqueue(2,3)] show ?thesis
    using assms(1) by (simp add: d_enqueue(1) durable_inv_def queued_bytes_def jobs_from_snoc split: if_splits)
next
  case (d_save st sn q rest io)
  then show ?thesis
    using assms(1) save_stored [of enc "dStored d" "dPersister d" io q sn]
    by (simp add: durable_inv_def queued_bytes_def bytes_of_def split: if_splits)
next
  case (d_append ps rest io)
  have j: "replays (bytes_of enc (dStored d)) (map (\<lambda>(p, q). (p, encode_full enc q)) ps)"
    "jobs_from enc (encode_full enc (snd (last ps))) rest" "storable enc (snd (last ps))"
    using jobs_from_appends [of enc "bytes_of enc (dStored d)" ps rest] assms(1) d_append(2,3) last_in_set [OF d_append(3)]
    by (auto simp: durable_inv_def)
  have "dStored d \<noteq> None"
  proof
    assume "dStored d = None"
    then have "applyRaftAppendPayload [] (fst (hd ps)) = (encode_full enc (snd (hd ps)), True)"
      using j(1) d_append(3) by (cases ps) (auto simp: bytes_of_def)
    then show False by (auto simp: applyRaftAppendPayload_def Let_def split: if_splits)
  qed
  then obtain q0 where q0: "dStored d = Some q0" by auto
  then have "stored_at enc (Some (snd (last ps))) (flush_appends io (map fst ps) (dPersister d))"
    using appends_stored [OF _ d_append(4) _ d_append(3) j(3), of q0] j(1) assms(1) by (simp add: durable_inv_def bytes_of_def)
  moreover have "queued_bytes enc d' = queued_bytes enc d"
    using d_append(1-3) by (auto simp: queued_bytes_def bytes_of_def last_map case_prod_unfold)
  ultimately show ?thesis using assms(1) j(2) d_append(1) by (simp add: durable_inv_def bytes_of_def)
next
  case (d_restart p0 c0 p c)
  have st: "stored_at enc (dStored d) (dPersister d)" using assms(1) by (simp add: durable_inv_def)
  have "cache_at enc (bytes_of enc (dStored d)) p c"
  proof (cases "dStored d")
    case None
    then show ?thesis using d_restart(2) st restart_nothing [of dec p0 c0]
      by (auto simp: stored_at_def intro: invalid_at)
  next
    case (Some q)
    then show ?thesis using d_restart(2) st restart_reads [of "fpDir (dPersister d)" "fpManifest (dPersister d)" q p0 c0]
      by (auto simp: stored_at_def bytes_of_def)
  qed
  then show ?thesis using restart_stored [OF st] by (simp add: d_restart(1) durable_inv_def queued_bytes_def)
qed

lemma durable_inv_init: "durable_init dec d \<Longrightarrow> durable_inv enc d"
  by (auto simp: durable_init_def durable_inv_def restart_nothing stored_at_def new_persister bytes_of_def) (metis invalid_at)

end

sublocale command_codec \<subseteq> durable: invariant_system "durable_init dec" "durable_step enc dec" "durable_inv enc"
  by unfold_locales (auto intro: durable_inv_init durable_inv_step)

context command_codec
begin

lemma durable_reach_inv: "reach (durable_init dec) (durable_step enc dec) d \<Longrightarrow> durable_inv enc d"
  by (rule durable.reach_inv)

lemma stored_reads:
  assumes "durable_inv enc d" "dStored d = Some q"
  shows "fst (restart_read dec (fpDir (dPersister d)) p c) = q"
  using assms restart_reads [of "fpDir (dPersister d)" "fpManifest (dPersister d)" q p c]
  by (auto simp: durable_inv_def stored_at_def)

lemma torn_reads:
  assumes inv: "durable_inv enc d" "dStored d = Some q" and jobs: "dJobs d = map (\<lambda>(p, q). (AppendJob p, q)) ps @ rest" "ps \<noteq> []"
    and io: "ioAppend io = AppendStops n"
  shows "fst (restart_read dec (fpDir (flush_appends io (map fst ps) (dPersister d))) p c) \<in> insert q (snd ` set ps)"
proof -
  let ?fp = "dPersister d" and ?ps = "map (\<lambda>(p, q). (p, encode_full enc q)) ps"
  have st: "storable enc q" "disk_at (fpDir ?fp) (fpManifest ?fp) (encode_full enc q)" "fpBatch ?fp = []" "fpHardBatch ?fp = []"
    using inv by (simp_all add: durable_inv_def stored_at_def)
  have j: "replays (encode_full enc q) ?ps" "\<forall>x \<in> set ps. storable enc (snd x)"
    using jobs_from_appends [of enc "encode_full enc q" ps rest] inv jobs by (auto simp: durable_inv_def bytes_of_def)
  have fst: "map fst ?ps = map fst ps" and snd: "map snd ?ps = map (encode_full enc) (map snd ps)" by (induction ps) auto
  obtain fs' pm' ok where
    c: "commitAppendRaftState (AppendStops n) (ioCompact io) (ioNow io) (fpCompact ?fp) (map fst ps) (fpDir ?fp) (fpManifest ?fp) = (fs', pm', ok)"
    by (metis prod_cases3)
  then have flushed: "fpDir (flush_appends io (map fst ps) ?fp) = fs'"
    using jobs(2) st(3,4) io by (simp add: flush_appends_def flush_def flush_hard_def flush_save_def flush_append_def comp_def)
  have load: "loadManifest Written 0 fs' = (fs', fpManifest ?fp)"
    and "\<exists>k \<le> length ?ps. ReadRaftState fs' (fpManifest ?fp) = (encode_full enc q # map snd ?ps) ! k"
    using commitAppend_torn [OF st(2) j(1) _ c [folded fst]] jobs(2) by simp_all
  then obtain k where k: "k \<le> length ps" "ReadRaftState fs' (fpManifest ?fp) = (encode_full enc q # map snd ?ps) ! k" by auto
  have "(encode_full enc q # map snd ?ps) ! k = encode_full enc ((q # map snd ps) ! k)"
    using k(1) unfolding snd by (cases k) simp_all
  moreover have mem: "(q # map snd ps) ! k \<in> insert q (snd ` set ps)"
    using k(1) nth_mem [of k "q # map snd ps"] by simp
  moreover have "storable enc ((q # map snd ps) ! k)" using mem st(1) j(2) by auto
  ultimately have "fst (restart_read dec fs' p c) = (q # map snd ps) ! k"
    using readPersistState_encoded [of "(q # map snd ps) ! k" p c] load k(2) by (auto simp: restart_read_def NewFilePersister_def)
  then show ?thesis using mem flushed by simp
qed

end


section \<open>A save that overtakes an append\<close>

lemma apply_prev:
  "applyRaftAppendPayload s p = (t, True) \<Longrightarrow> length s' \<noteq> length s \<Longrightarrow> applyRaftAppendPayload s' p = (s', False)"
  by (auto simp: applyRaftAppendPayload_def Let_def split: if_splits)

lemma replay_stuck:
  assumes "length p < 2 ^ 32" "applyRaftAppendPayload s p = (s, False)"
  shows "replay_frames s (buildAppendFrame p @ rest) off = (s, off)"
  using assms by (simp add: replay_frame)

lemma commitAppend_below:
  assumes "ps \<noteq> []" "currentRaftDeltaPathLocked pm \<noteq> []"
    "length (read_file fs (currentRaftDeltaPathLocked pm) @ concat (map buildAppendFrame ps)) < thr"
  shows "commitAppendRaftState AppendDone outs now thr ps fs pm
    = (AList.update (currentRaftDeltaPathLocked pm) (Data (read_file fs (currentRaftDeltaPathLocked pm) @ concat (map buildAppendFrame ps))) fs,
       pm, True)"
  using assms by (simp add: commitAppendRaftState_def Let_def read_file_def update_conv)

text \<open>A base file whose delta file starts with a frame that does not fit it.\<close>

definition stuck_at :: "dir \<Rightarrow> persisterManifest \<Rightarrow> byte list \<Rightarrow> bool" where
  "stuck_at fs pm s \<longleftrightarrow>
     disk_at (AList.update (pmRaftDeltaRel pm) (Data []) fs) pm s \<and> map_of fs (pmRaftStateRel pm) = Some (Data s)
     \<and> (\<exists>p rest. length p < 2 ^ 32 \<and> applyRaftAppendPayload s p = (s, False)
           \<and> map_of fs (pmRaftDeltaRel pm) = Some (Data (buildAppendFrame p @ rest)))"

lemma stuck_reads:
  assumes "stuck_at fs pm s"
  shows "loadManifest out now fs = (fs, pm)" "ReadRaftState fs pm = s"
  using assms
  by (auto simp: stuck_at_def disk_at_def loadManifest_def manifest_codec.dec_enc Let_def update_conv ReadRaftState_def compose_replay
      currentRaftStatePathLocked_def currentRaftDeltaPathLocked_def read_file_def replayDeltaFrames_def replay_stuck)

lemma stuck_append:
  assumes "stuck_at fs pm s" "ps \<noteq> []"
    "length (read_file fs (currentRaftDeltaPathLocked pm) @ concat (map buildAppendFrame ps)) < thr"
  shows "\<exists>fs'. commitAppendRaftState AppendDone outs now thr ps fs pm = (fs', pm, True) \<and> stuck_at fs' pm s"
proof -
  have path: "currentRaftDeltaPathLocked pm = pmRaftDeltaRel pm" "pmRaftDeltaRel pm \<noteq> []" "pmRaftStateRel pm \<noteq> pmRaftDeltaRel pm"
    using assms(1) by (auto simp: stuck_at_def disk_at_def currentRaftDeltaPathLocked_def)
  let ?fs = "AList.update (pmRaftDeltaRel pm) (Data (read_file fs (pmRaftDeltaRel pm) @ concat (map buildAppendFrame ps))) fs"
  have "disk_at (AList.update (pmRaftDeltaRel pm) (Data []) ?fs) pm s"
    using assms(1) by (auto simp: stuck_at_def disk_at_def update_conv)
  then have "stuck_at ?fs pm s"
    using assms(1) path unfolding stuck_at_def by (auto simp: update_conv read_file_def)
  then show ?thesis using commitAppend_below [OF assms(2) _ assms(3)] path by auto
qed

text \<open>The batch the worker makes of an append and a save that was requested after it.\<close>

definition flush_both :: "flush_io \<Rightarrow> byte list \<Rightarrow> byte list \<Rightarrow> byte list option \<Rightarrow> FilePersister \<Rightarrow> FilePersister" where
  "flush_both io a st sn fp =
     flush io (fp\<lparr> fpBatch := [\<lparr> svRaftState = st, svSnapshot = (case sn of Some [] \<Rightarrow> None | _ \<Rightarrow> sn), svId = 1 \<rparr>],
                   fpAppendBatch := [(a, 2)] \<rparr>)"

definition delta_size :: "FilePersister \<Rightarrow> nat" where
  "delta_size fp = length (read_file (fpDir fp) (currentRaftDeltaPathLocked (fpManifest fp)))"

lemma disk_at_cong: "map_of fs = map_of fs' \<Longrightarrow> disk_at fs pm s \<longleftrightarrow> disk_at fs' pm s"
  by (simp add: disk_at_def)

lemma commitGeneration_files:
  assumes "\<And>n. outs n = Written" "commitGeneration outs now s snapshot fs pm = (fs', pm', ok)"
  shows "map_of fs' (pmRaftStateRel pm') = Some (Data s)" "map_of fs' (pmRaftDeltaRel pm') = Some (Data [])"
    "pmRaftDeltaRel pm' = defaultDeltaRel (pmGeneration pm')" "pmRaftStateRel pm' = raft_rel (pmGeneration pm')"
  using assms by (auto simp: commitGeneration_def next_manifest_def durableWrite_def Let_def update_conv split: option.splits if_splits)

lemma flush_both_stuck:
  fixes sn :: "byte list option"
  assumes st: "stored_at enc stored fp" and io: "io_ok io" and a: "length a < 2 ^ 32" "applyRaftAppendPayload s a = (s, False)"
    and thr: "length (buildAppendFrame a) < fpCompact fp"
  defines "fp' \<equiv> flush_both io a s sn fp"
  shows "stuck_at (fpDir fp') (fpManifest fp') s" "(2, True) \<in> set (fpAnswers fp')" "fpBatch fp' = []" "fpHardBatch fp' = []"
    "fpCompact fp' = fpCompact fp" "delta_size fp' = length (buildAppendFrame a)"
proof -
  let ?sn = "case sn of Some [] \<Rightarrow> None | _ \<Rightarrow> sn"
  have w: "\<And>n. ioSave io n = Written" "ioAppend io = AppendDone" using io by (auto simp: io_ok_def)
  have "pmSnapshotRel (fpManifest fp) = []
      \<or> (\<exists>h. pmSnapshotRel (fpManifest fp) = snapshot_rel h) \<and> map_of (fpDir fp) (pmSnapshotRel (fpManifest fp)) \<noteq> None"
    using st by (auto simp: stored_at_def disk_at_def no_manifest_def split: option.splits)
  then obtain fs1 pm1 where c: "commitGeneration (ioSave io) (ioNow io) s ?sn (fpDir fp) (fpManifest fp) = (fs1, pm1, True)"
    and d: "disk_at fs1 pm1 s"
    using commitGeneration_disk w(1) by metis
  note files = commitGeneration_files [OF w(1) c]
  have path: "currentRaftDeltaPathLocked pm1 = pmRaftDeltaRel pm1" "pmRaftDeltaRel pm1 \<noteq> []" "pmRaftStateRel pm1 \<noteq> pmRaftDeltaRel pm1"
    using files(3,4) by (simp_all add: currentRaftDeltaPathLocked_def)
  let ?fs = "AList.update (pmRaftDeltaRel pm1) (Data (buildAppendFrame a)) fs1"
  have "commitAppendRaftState AppendDone (ioCompact io) (ioNow io) (fpCompact fp) [a] fs1 pm1 = (?fs, pm1, True)"
    using commitAppend_below [of "[a]" pm1 fs1 "fpCompact fp" "ioCompact io" "ioNow io"] path files(2) thr by (simp add: read_file_def)
  then have eq: "fpDir fp' = ?fs" "fpManifest fp' = pm1" "(2, True) \<in> set (fpAnswers fp')" "fpBatch fp' = []" "fpHardBatch fp' = []"
    "fpCompact fp' = fpCompact fp"
    using st c w(2) by (simp_all add: fp'_def flush_both_def flush_def flush_hard_def flush_save_def flush_append_def stored_at_def)
  have "map_of (AList.update (pmRaftDeltaRel pm1) (Data []) ?fs) = map_of fs1" using files(2) by (auto simp: update_conv)
  then have "disk_at (AList.update (pmRaftDeltaRel pm1) (Data []) ?fs) pm1 s" using d disk_at_cong by blast
  moreover have "length a < 2 ^ 32 \<and> applyRaftAppendPayload s a = (s, False)
      \<and> map_of ?fs (pmRaftDeltaRel pm1) = Some (Data (buildAppendFrame a @ []))"
    using a by (simp add: update_conv)
  ultimately have "stuck_at ?fs pm1 s" using files(1) path(3) unfolding stuck_at_def by (auto simp: update_conv)
  then show "stuck_at (fpDir fp') (fpManifest fp') s" using eq(1,2) by simp
  show "(2, True) \<in> set (fpAnswers fp')" "fpBatch fp' = []" "fpHardBatch fp' = []" "fpCompact fp' = fpCompact fp" using eq by simp_all
  show "delta_size fp' = length (buildAppendFrame a)" using eq path by (simp add: delta_size_def read_file_def update_conv)
qed


section \<open>A run\<close>

text \<open>A codec for commands that are numbers of 64 bits.\<close>

definition enc_number :: "int encoder" where
  "enc_number x = (if fits64 x then Some (le_int64 x) else None)"

definition dec_number :: "int decoder" where
  "dec_number bs = (if length bs = 8 then Some (int64_of_le bs) else None)"

interpretation numbers: command_codec enc_number dec_number
proof
  show "dec_number bs = Some c \<and> bs \<noteq> []" if "enc_number c = Some bs" for c bs
  proof -
    have "bs = le_int64 c" "fits64 c" using that by (auto simp: enc_number_def split: if_splits)
    then show ?thesis using le_int64_length [of c] by (auto simp: dec_number_def int64_of_le_int64 simp flip: length_0_conv)
  qed
qed

text \<open>
  A node stores a log of two entries, adds one, and then replaces its log by a snapshot: the third
  request is a save, the second is still waiting.
\<close>

definition demo_state :: "int \<Rightarrow> int LogEntry list \<Rightarrow> int persistent" where
  "demo_state i es = \<lparr> psTerm = 1, psVote = -1, psLastIncludedIndex = i, psLastIncludedTerm = 0, psLog = es \<rparr>"

definition demo_log :: "int LogEntry list" where
  "demo_log = [\<lparr> leTerm = 0, leCommand = None \<rparr>, \<lparr> leTerm = 1, leCommand = Some 4 \<rparr>]"

definition demo_p0 :: "int persistent" where "demo_p0 = demo_state 0 demo_log"
definition demo_p1 :: "int persistent" where "demo_p1 = demo_state 0 (demo_log @ [\<lparr> leTerm = 1, leCommand = Some 5 \<rparr>])"
definition demo_p2 :: "int persistent" where "demo_p2 = demo_state 2 [\<lparr> leTerm = 1, leCommand = None \<rparr>]"

definition demo_io :: flush_io where
  "demo_io = \<lparr> ioHard = Written, ioSave = \<lambda>_. Written, ioAppend = AppendDone, ioCompact = \<lambda>_. Written, ioNow = 0 \<rparr>"

definition demo_cache :: persist_cache where
  "demo_cache = invalidatePersistCacheLocked \<lparr> pcState = [], pcEntryEnd = [], pcLogCount = 0, pcDirtyFrom = 0, pcReady = False,
     pcPersistedLen = 0, pcPersistedLogCount = 0, pcQueuedLen = 0, pcQueuedLogCount = 0 \<rparr>"

definition demo_start :: "int durable" where
  "demo_start = \<lparr> dNode = demo_p0, dCache = demo_cache, dJobs = [], dPersister = NewFilePersister Written 0 [], dStored = None \<rparr>"

lemmas demo_states = demo_p0_def demo_p1_def demo_p2_def demo_state_def demo_log_def

lemma demo_lengths [simp]:
  "length (encode_full enc_number demo_p0) = 84" "length (encode_full enc_number demo_p1) = 108" "length (encode_full enc_number demo_p2) = 60"
  by (simp_all add: encode_full_def demo_states entry_bytes_def command_bytes_def encodeCommandToBytes_def enc_number_def fits64_def
      persistHeaderSize_def)

lemma demo_log_lengths [simp]: "length (psLog demo_p0) = 2" "length (psLog demo_p1) = 3" "length (psLog demo_p2) = 1"
  by (simp_all add: demo_states)

lemma demo_storable: "storable enc_number demo_p0" "storable enc_number demo_p1" "storable enc_number demo_p2"
  unfolding storable_def demo_lengths
  by (simp_all add: demo_states encodable_def encodeCommandToBytes_def enc_number_def fits64_def)

lemma demo_io_ok: "io_ok demo_io"
  by (simp add: demo_io_def io_ok_def)

lemma flush_compact: "fpCompact (flush io fp) = fpCompact fp"
  by (simp add: flush_def flush_append_def flush_save_def flush_hard_def split: prod.splits)

abbreviation demo_reach :: "int durable \<Rightarrow> bool" where
  "demo_reach \<equiv> reach (durable_init dec_number) (durable_step enc_number dec_number)"

lemma demo_started: "demo_reach demo_start"
proof (rule reach_init)
  show "durable_init dec_number demo_start"
    using restart_nothing [of dec_number demo_p0 demo_cache]
    by (auto simp: durable_init_def demo_start_def demo_cache_def invalidatePersistCacheLocked_def intro!: exI [of _ demo_p0] exI [of _ demo_cache])
qed

lemma demo_first:
  obtains d where "demo_reach d" "dNode d = demo_p0" "dJobs d = []" "dStored d = Some demo_p0" "fpCompact (dPersister d) = 4194304"
    "pcReady (dCache d)" "pcDirtyFrom (dCache d) = 2" "pcQueuedLogCount (dCache d) = 2"
proof -
  obtain c and job :: "byte list disk_job" where e: "enqueuePersistLocked enc_number demo_p0 None demo_cache = (c, job)" by fastforce
  have at: "cache_at enc_number [] demo_p0 demo_cache" by (simp add: demo_cache_def invalid_at)
  have "\<not> pcReady demo_cache" by (simp add: demo_cache_def invalidatePersistCacheLocked_def)
  note k = enqueue_kind [OF at demo_storable(1) e]
  let ?d1 = "demo_start\<lparr> dCache := c, dJobs := dJobs demo_start @ [(job, dNode demo_start)] \<rparr>"
  have r1: "demo_reach ?d1"
    using reach_step [OF demo_started d_enqueue] demo_storable(1) e by (auto simp: demo_start_def)
  have j1: "dJobs ?d1 = [(SaveJob (encode_full enc_number demo_p0) None, demo_p0)]"
    using k(4) \<open>\<not> pcReady demo_cache\<close> by (simp add: demo_start_def)
  from reach_step [OF r1 d_save [OF j1 demo_io_ok]] k(1-3)
  show ?thesis by (intro that) (auto simp: demo_start_def flush_one_save_def flush_compact new_persister)
qed

lemma demo_second:
  obtains d a where "demo_reach d" "dNode d = demo_p1" "dJobs d = [(AppendJob a, demo_p1)]" "length a = 96" "dStored d = Some demo_p0"
    "fpCompact (dPersister d) = 4194304" "pcReady (dCache d)"
proof -
  obtain d where d: "demo_reach d" "dNode d = demo_p0" "dJobs d = []" "dStored d = Some demo_p0" "fpCompact (dPersister d) = 4194304"
    "pcReady (dCache d)" "pcDirtyFrom (dCache d) = 2" "pcQueuedLogCount (dCache d) = 2"
    by (rule demo_first)
  let ?d1 = "d\<lparr> dNode := demo_p1, dCache := markPersistDirtyFromLocked 2 (int 2) (dCache d) \<rparr>"
  have r1: "demo_reach ?d1"
    by (rule reach_step [OF d(1) d_change]) (simp_all add: d(2) demo_states)
  then have "durable_inv enc_number ?d1" by (rule numbers.durable_reach_inv)
  then have at: "cache_at enc_number (encode_full enc_number demo_p0) demo_p1 (dCache ?d1)"
    using d(3,4) by (simp add: durable_inv_def queued_bytes_def bytes_of_def)
  obtain c and job :: "byte list disk_job" where e: "enqueuePersistLocked enc_number demo_p1 None (dCache ?d1) = (c, job)" by fastforce
  have c: "pcReady (dCache ?d1)" "pcDirtyFrom (dCache ?d1) = 2" "pcQueuedLogCount (dCache ?d1) = 2"
    using d(6-8) by (simp_all add: markPersistDirtyFromLocked_def)
  note k = enqueue_kind [OF at demo_storable(2) e]
  obtain a where a: "job = AppendJob a" "length a = 96"
    using k(5) c by (auto simp: persistHeaderSize_def)
  have "storable enc_number (dNode ?d1)" "enqueuePersistLocked enc_number (dNode ?d1) None (dCache ?d1) = (c, job)"
    using demo_storable(2) e by simp_all
  from reach_step [OF r1 d_enqueue [OF this]] show ?thesis by (rule that [where a = a]) (use a in \<open>simp_all add: d(3-5) k(1)\<close>)
qed

lemma demo_third:
  obtains d a where "demo_reach d" "dJobs d = [(AppendJob a, demo_p1), (SaveJob (encode_full enc_number demo_p2) (Some [1]), demo_p2)]"
    "length a = 96" "dStored d = Some demo_p0" "fpCompact (dPersister d) = 4194304"
proof -
  obtain d a where d: "demo_reach d" "dNode d = demo_p1" "dJobs d = [(AppendJob a, demo_p1)]" "length a = 96" "dStored d = Some demo_p0"
    "fpCompact (dPersister d) = 4194304" "pcReady (dCache d)"
    by (rule demo_second)
  let ?d1 = "d\<lparr> dNode := demo_p2, dCache := markPersistDirtyFromLocked 1 (int 0) (dCache d) \<rparr>"
  have r1: "demo_reach ?d1" by (rule reach_step [OF d(1) d_change]) simp_all
  then have "durable_inv enc_number ?d1" by (rule numbers.durable_reach_inv)
  then have at: "cache_at enc_number (encode_full enc_number demo_p1) demo_p2 (dCache ?d1)"
    using d(3) by (simp add: durable_inv_def queued_bytes_def)
  obtain c and job :: "byte list disk_job" where e: "enqueuePersistLocked enc_number demo_p2 (Some [1 :: byte]) (dCache ?d1) = (c, job)" by fastforce
  have job: "job = SaveJob (encode_full enc_number demo_p2) (Some [1])" using enqueue_kind(4) [OF at demo_storable(3) e] by simp
  have "storable enc_number (dNode ?d1)" "enqueuePersistLocked enc_number (dNode ?d1) (Some [1]) (dCache ?d1) = (c, job)"
    using demo_storable(3) e by simp_all
  from reach_step [OF r1 d_enqueue [OF this]] show ?thesis by (rule that [where a = a]) (use d(4) in \<open>simp_all add: job d(3,5,6)\<close>)
qed



end
