(* ===== verification/Spec2Isabelle.thy ===== *)
theory Spec2Isabelle
  imports Kv_Replica Rsm_Submit Raft_Election Tx_Coordinator Raft_Durable
begin

text \<open>
  OrbisKV is a sharded, replicated key-value store.
\<close>

end
